(* ===== verification/Rust_Prelude.thy ===== *)
theory Rust_Prelude
  imports Main "HOL-Library.Word" "HOL-Library.Multiset" "HOL-Library.Code_Target_Nat"
begin

unbundle bit_operations_syntax

text \<open>
  Shared vocabulary of the development: the Rust outcome type with its combinators, machine
  integers with the checked operations of \<^verbatim>\<open>core\<close>, slices and arrays with their panicking
  accesses, the insertion-sort loop the loader writes three times, little-endian byte images,
  and the interfaces (locales) that several components implement.
\<close>

section \<open>Machine integers\<close>

type_synonym u8 = "8 word"
type_synonym u16 = "16 word"
type_synonym u32 = "32 word"
type_synonym u64 = "64 word"

named_theorems const_defs \<open>defining equations of the constants of the source\<close>
named_theorems word_nat \<open>word comparisons and equalities read as natural numbers\<close>

lemmas [word_nat] = word_less_nat_alt word_le_nat_alt

lemma word_eq_nat: "(a = b) \<longleftrightarrow> unat a = unat b"
  for a b :: "'a::len word"
  by (rule word_eq_iff_unsigned)

lemma unat_bound: "unat x < 2 ^ LENGTH('a)"
  for x :: "'a::len word"
  by (rule unsigned_less)

lemma unat_less_64: "unat (x :: u64) < 18446744073709551616"
  using unat_bound [of x] by simp

lemma ex_unat: "(\<exists>c :: 'a::len word. unat c = n) \<longleftrightarrow> n < 2 ^ LENGTH('a)"
proof
  assume "n < 2 ^ LENGTH('a)"
  then have "unat (of_nat n :: 'a word) = n" by (simp add: unat_of_nat)
  then show "\<exists>c :: 'a word. unat c = n" by blast
qed (use unat_bound in blast)

lemma ex_unat_conj:
  "(\<exists>x :: 'a::len word. unat x = n \<and> P (unat x)) \<longleftrightarrow> n < 2 ^ LENGTH('a) \<and> P n"
  using ex_unat [where 'a = 'a, of n] by auto

lemma unat_ucast_widen:
  assumes "LENGTH('a) \<le> LENGTH('b)"
  shows "unat (ucast (x :: 'a::len word) :: 'b::len word) = unat x"
proof -
  have "unat x < 2 ^ LENGTH('b)"
    using unat_bound [of x] power_increasing [OF assms, of "2 :: nat"] by linarith
  then show ?thesis by (simp add: unsigned_ucast_eq take_bit_nat_eq_self)
qed

lemma unat_ucast_widths [simp]:
  "unat (ucast (b :: u8) :: u16) = unat b" "unat (ucast (b :: u8) :: u32) = unat b"
  "unat (ucast (b :: u8) :: u64) = unat b" "unat (ucast (h :: u16) :: u32) = unat h"
  "unat (ucast (h :: u16) :: u64) = unat h" "unat (ucast (w :: u32) :: u64) = unat w"
  by (simp_all add: unat_ucast_widen)

definition checked_add :: "'a::len word \<Rightarrow> 'a word \<Rightarrow> 'a word option" where
  "checked_add a b = (if unat a + unat b < 2 ^ LENGTH('a) then Some (a + b) else None)"

definition checked_sub :: "'a::len word \<Rightarrow> 'a word \<Rightarrow> 'a word option" where
  "checked_sub a b = (if b \<le> a then Some (a - b) else None)"

definition checked_mul :: "'a::len word \<Rightarrow> 'a word \<Rightarrow> 'a word option" where
  "checked_mul a b = (if unat a * unat b < 2 ^ LENGTH('a) then Some (a * b) else None)"

definition saturating_mul :: "'a::len word \<Rightarrow> 'a word \<Rightarrow> 'a word" where
  "saturating_mul a b = (if unat a * unat b < 2 ^ LENGTH('a) then a * b else - 1)"

text \<open>
  \<^verbatim>\<open>is_multiple_of\<close> compares with zero when the divisor is zero, which is what \<open>mod\<close> does on
  words (\<open>a mod 0 = a\<close>).
\<close>

definition is_multiple_of :: "'a::len word \<Rightarrow> 'a word \<Rightarrow> bool" where
  "is_multiple_of a b \<longleftrightarrow> a mod b = 0"

definition count_ones :: "'a::len word \<Rightarrow> nat" where
  "count_ones a = length (filter (bit a) [0 ..< LENGTH('a)])"

definition is_power_of_two :: "'a::len word \<Rightarrow> bool" where
  "is_power_of_two a \<longleftrightarrow> count_ones a = 1"

lemma checked_add_Some [simp]:
  "checked_add a b = Some c \<longleftrightarrow> unat c = unat a + unat b"
proof
  assume "checked_add a b = Some c"
  then show "unat c = unat a + unat b"
    by (auto simp: checked_add_def unat_add_lem [THEN iffD1] split: if_splits)
next
  assume c: "unat c = unat a + unat b"
  then have "unat a + unat b < 2 ^ LENGTH('a)"
    using unat_bound [of c] by simp
  with c show "checked_add a b = Some c"
    by (simp add: checked_add_def word_eq_nat unat_add_lem [THEN iffD1])
qed
  
lemma checked_add_None:
  "checked_add (a :: 'a::len word) b = None \<longleftrightarrow> 2 ^ LENGTH('a) \<le> unat a + unat b"
  by (auto simp: checked_add_def)

lemma checked_sub_Some [simp]:
  "checked_sub a b = Some c \<longleftrightarrow> unat a = unat c + unat b"
proof
  assume "checked_sub a b = Some c"
  then show "unat a = unat c + unat b"
    by (auto simp: checked_sub_def unat_sub word_le_nat_alt split: if_splits)
next
  assume c: "unat a = unat c + unat b"
  then have "b \<le> a" by (simp add: word_le_nat_alt)
  with c show "checked_sub a b = Some c"
    by (simp add: checked_sub_def word_eq_nat unat_sub)
qed

lemma checked_sub_None: "checked_sub a b = None \<longleftrightarrow> unat a < unat b"
  by (auto simp: checked_sub_def word_le_nat_alt)

lemma checked_mul_Some [simp]:
  "checked_mul a b = Some c \<longleftrightarrow> unat c = unat a * unat b"
proof
  assume "checked_mul a b = Some c"
  then show "unat c = unat a * unat b"
    by (auto simp: checked_mul_def unat_mult_lem [THEN iffD1] split: if_splits)
next
  assume c: "unat c = unat a * unat b"
  then have "unat a * unat b < 2 ^ LENGTH('a)"
    using unat_bound [of c] by simp
  with c show "checked_mul a b = Some c"
    by (simp add: checked_mul_def word_eq_nat unat_mult_lem [THEN iffD1])
qed

lemma checked_mul_None:
  "checked_mul (a :: 'a::len word) b = None \<longleftrightarrow> 2 ^ LENGTH('a) \<le> unat a * unat b"
  by (auto simp: checked_mul_def)

lemma checked_add_in_range:
  "unat (a :: u64) + unat b < 2 ^ 64 \<Longrightarrow> checked_add a b = Some (a + b) \<and> unat (a + b) = unat a + unat b"
  by (simp add: unat_word_ariths)

lemma is_multiple_of_nat [word_nat]: "is_multiple_of a b \<longleftrightarrow> unat a mod unat b = 0"
  by (simp add: is_multiple_of_def word_eq_nat unat_mod_distrib)

lemma unat_sub_le: "b \<le> a \<Longrightarrow> unat (a - b) = unat a - unat b"
  by (rule unat_sub)

lemma is_power_of_two_iff:
  "is_power_of_two (a :: 'a::len word) \<longleftrightarrow> (\<exists>k < LENGTH('a). a = 2 ^ k)"
proof
  assume "is_power_of_two a"
  then obtain k where k: "filter (bit a) [0 ..< LENGTH('a)] = [k]"
    by (auto simp: is_power_of_two_def count_ones_def length_Suc_conv)
  then have set: "{n. n < LENGTH('a) \<and> bit a n} = {k}"
    by (metis (mono_tags, lifting) Collect_cong atLeastLessThan_iff empty_set list.simps(15)
        set_filter set_upt zero_le)
  then have "k < LENGTH('a)" by blast
  moreover have "a = 2 ^ k"
  proof (rule bit_word_eqI)
    fix n assume "n < LENGTH('a)"
    then have "bit a n \<longleftrightarrow> n = k" using set by blast
    then show "bit a n \<longleftrightarrow> bit (2 ^ k :: 'a word) n"
      using \<open>n < LENGTH('a)\<close> by (auto simp: bit_simps)
  qed
  ultimately show "\<exists>k < LENGTH('a). a = 2 ^ k" by blast
next
  assume "\<exists>k < LENGTH('a). a = 2 ^ k"
  then obtain k where k: "k < LENGTH('a)" "a = 2 ^ k" by blast
  have "filter (bit a) [0 ..< LENGTH('a)] = filter (\<lambda>n. n = k) [0 ..< LENGTH('a)]"
    using k by (intro filter_cong) (auto simp: bit_simps)
  also have "\<dots> = [k]"
  proof -
    have "[0 ..< LENGTH('a)] = [0 ..< k] @ k # [Suc k ..< LENGTH('a)]"
      using k(1) upt_add_eq_append [of 0 k "LENGTH('a) - k"] by (simp add: upt_conv_Cons)
    then show ?thesis by (auto simp: filter_empty_conv)
  qed
  finally show "is_power_of_two a"
    by (simp add: is_power_of_two_def count_ones_def)
qed

text \<open>Rounding down to a power of two clears the low bits.\<close>

lemma unat_and_not_mask:
  "unat (x AND NOT (mask k)) = unat x - unat x mod 2 ^ k"
  for x :: "'a::len word"
proof -
  have split: "x AND NOT (mask k) = x - take_bit k x"
  proof -
    have "x = (x AND NOT (mask k)) + (x AND mask k)"
      by (subst disjunctive_add_eq_or) (auto simp: bit_eq_iff bit_simps)
    then show ?thesis by (metis add_diff_cancel_right' take_bit_eq_mask)
  qed
  have t: "unat (take_bit k x) = unat x mod 2 ^ k"
    by (subst unsigned_take_bit_eq) (rule take_bit_eq_mod)
  then have "take_bit k x \<le> x" by (simp add: word_le_nat_alt)
  then show ?thesis by (simp add: split unat_sub t)
qed

section \<open>Outcomes\<close>

text \<open>
  \<^verbatim>\<open>Result<T, E>\<close> with one more outcome for a panic (an index out of range, a failed
  \<^verbatim>\<open>expect\<close>), so that "never panics" is a statement of the model. \<open>and_then\<close> is the
  \<^verbatim>\<open>?\<close> operator: an error or a panic leaves the function.
\<close>

datatype ('a, 'e) result = Ok 'a | Err 'e | Panic

fun and_then :: "('a, 'e) result \<Rightarrow> ('a \<Rightarrow> ('b, 'e) result) \<Rightarrow> ('b, 'e) result" where
  "and_then (Ok x) f = f x"
| "and_then (Err e) f = Err e"
| "and_then Panic f = Panic"

fun map_err :: "('e \<Rightarrow> 'f) \<Rightarrow> ('a, 'e) result \<Rightarrow> ('a, 'f) result" where
  "map_err g (Ok x) = Ok x"
| "map_err g (Err e) = Err (g e)"
| "map_err g Panic = Panic"

fun ok_or :: "'a option \<Rightarrow> 'e \<Rightarrow> ('a, 'e) result" where
  "ok_or (Some x) e = Ok x"
| "ok_or None e = Err e"

fun expect :: "'a option \<Rightarrow> ('a, 'e) result" where
  "expect (Some x) = Ok x"
| "expect None = Panic"

fun unwrap :: "('a, 'e) result \<Rightarrow> ('a, 'f) result" where
  "unwrap (Ok x) = Ok x"
| "unwrap (Err e) = Panic"
| "unwrap Panic = Panic"

fun is_ok :: "('a, 'e) result \<Rightarrow> bool" where
  "is_ok (Ok x) = True"
| "is_ok (Err e) = False"
| "is_ok Panic = False"

lemma and_then_Ok [simp]: "and_then m f = Ok y \<longleftrightarrow> (\<exists>x. m = Ok x \<and> f x = Ok y)"
  by (cases m) auto

lemma and_then_Err [simp]:
  "and_then m f = Err e \<longleftrightarrow> m = Err e \<or> (\<exists>x. m = Ok x \<and> f x = Err e)"
  by (cases m) auto

lemma and_then_Panic [simp]:
  "and_then m f = Panic \<longleftrightarrow> m = Panic \<or> (\<exists>x. m = Ok x \<and> f x = Panic)"
  by (cases m) auto

lemma and_then_assoc: "and_then (and_then m f) g = and_then m (\<lambda>x. and_then (f x) g)"
  by (cases m) auto

lemma map_err_Ok [simp]: "map_err g m = Ok x \<longleftrightarrow> m = Ok x"
  by (cases m) auto

lemma map_err_Err [simp]: "map_err g m = Err e \<longleftrightarrow> (\<exists>e'. m = Err e' \<and> e = g e')"
  by (cases m) auto

lemma map_err_Panic [simp]: "map_err g m = Panic \<longleftrightarrow> m = Panic"
  by (cases m) auto

lemma ok_or_Ok [simp]: "ok_or m e = Ok x \<longleftrightarrow> m = Some x"
  by (cases m) auto

lemma ok_or_Err [simp]: "ok_or m e = Err e' \<longleftrightarrow> m = None \<and> e' = e"
  by (cases m) auto

lemma ok_or_not_Panic [simp]: "ok_or m e \<noteq> Panic"
  by (cases m) auto

lemma expect_Ok [simp]: "expect m = Ok x \<longleftrightarrow> m = Some x"
  by (cases m) auto

lemma expect_not_Err [simp]: "expect m \<noteq> Err e"
  by (cases m) auto

lemma expect_Panic [simp]: "expect m = Panic \<longleftrightarrow> m = None"
  by (cases m) auto

lemma unwrap_Ok [simp]: "unwrap m = Ok x \<longleftrightarrow> m = Ok x"
  by (cases m) auto

lemma unwrap_not_Err [simp]: "unwrap m \<noteq> Err e"
  by (cases m) auto

lemma is_ok_iff: "is_ok m \<longleftrightarrow> (\<exists>x. m = Ok x)"
  by (cases m) auto

lemma and_then_cong [fundef_cong]:
  "m = m' \<Longrightarrow> (\<And>x. m' = Ok x \<Longrightarrow> f x = g x) \<Longrightarrow> and_then m f = and_then m' g"
  by (cases m') auto

text \<open>A chain of guards \<^verbatim>\<open>if condition { return Err(e); }\<close>.\<close>

lemma guard_outcome:
  "(if c then Err e else m) = Ok x \<longleftrightarrow> \<not> c \<and> m = Ok x"
  "(if c then Err e else m) = Panic \<longleftrightarrow> \<not> c \<and> m = Panic"
  by simp_all

text \<open>A \<^verbatim>\<open>for\<close> loop whose body may leave the function early, carrying the loop's mutable state.\<close>

fun try_fold :: "('s \<Rightarrow> 'a \<Rightarrow> ('s, 'e) result) \<Rightarrow> 's \<Rightarrow> 'a list \<Rightarrow> ('s, 'e) result" where
  "try_fold f s [] = Ok s"
| "try_fold f s (x # xs) = and_then (f s x) (\<lambda>s'. try_fold f s' xs)"

lemma try_fold_append:
  "try_fold f s (xs @ ys) = and_then (try_fold f s xs) (\<lambda>s'. try_fold f s' ys)"
  by (induction xs arbitrary: s) (simp_all add: and_then_assoc)

lemma try_fold_invariant:
  assumes "try_fold f s xs = Ok t" and "P s"
    and "\<And>s x s'. x \<in> set xs \<Longrightarrow> P s \<Longrightarrow> f s x = Ok s' \<Longrightarrow> P s'"
  shows "P t"
  using assms by (induction xs arbitrary: s) auto

lemma try_fold_unit_Ok:
  "try_fold (\<lambda>_. f) () xs = Ok u \<longleftrightarrow> (\<forall>x \<in> set xs. f x = Ok ())"
  by (induction xs) auto

lemma try_fold_unit_Err:
  "try_fold (\<lambda>_. f) () xs = Err e \<Longrightarrow> \<exists>x \<in> set xs. f x = Err e"
  by (induction xs) auto

lemma try_fold_not_Panic:
  assumes "\<And>s x. x \<in> set xs \<Longrightarrow> f s x \<noteq> Panic"
  shows "try_fold f s xs \<noteq> Panic"
  using assms by (induction xs arbitrary: s) auto

lemma try_fold_Err: "try_fold f s xs = Err e \<Longrightarrow> \<exists>t. \<exists>x \<in> set xs. f t x = Err e"
  by (induction xs arbitrary: s) fastforce+

lemma try_fold_guarded:
  assumes "\<And>f s f'. g f s = Ok f' \<longleftrightarrow> P s \<and> f' = h f s"
  shows "try_fold g f S = Ok f' \<longleftrightarrow> (\<forall>s \<in> set S. P s) \<and> f' = foldl h f S"
  by (induction S arbitrary: f) (auto simp: assms)

section \<open>Arrays and slices\<close>

text \<open>Indexing and slicing panic out of range; \<^verbatim>\<open>slice::get\<close> of a range is \<^verbatim>\<open>None\<close> there.\<close>

definition arr_get :: "'a list \<Rightarrow> nat \<Rightarrow> ('a, 'e) result" where
  "arr_get xs i = (if i < length xs then Ok (xs ! i) else Panic)"

definition arr_set :: "'a list \<Rightarrow> nat \<Rightarrow> 'a \<Rightarrow> ('a list, 'e) result" where
  "arr_set xs i v = (if i < length xs then Ok (xs[i := v]) else Panic)"

definition slice_get :: "'a list \<Rightarrow> nat \<Rightarrow> nat \<Rightarrow> 'a list option" where
  "slice_get xs i j = (if i \<le> j \<and> j \<le> length xs then Some (take (j - i) (drop i xs)) else None)"

definition slice :: "'a list \<Rightarrow> nat \<Rightarrow> nat \<Rightarrow> ('a list, 'e) result" where
  "slice xs i j = (if i \<le> j \<and> j \<le> length xs then Ok (take (j - i) (drop i xs)) else Panic)"

fun position :: "('a \<Rightarrow> bool) \<Rightarrow> 'a list \<Rightarrow> nat option" where
  "position P [] = None"
| "position P (x # xs) = (if P x then Some 0 else map_option Suc (position P xs))"

lemma arr_get_in_range [simp]: "i < length xs \<Longrightarrow> arr_get xs i = Ok (xs ! i)"
  by (simp add: arr_get_def)

lemma arr_set_in_range [simp]: "i < length xs \<Longrightarrow> arr_set xs i v = Ok (xs[i := v])"
  by (simp add: arr_set_def)

lemma slice_in_range [simp]: "i \<le> j \<Longrightarrow> j \<le> length xs \<Longrightarrow> slice xs i j = Ok (take (j - i) (drop i xs))"
  by (simp add: slice_def)

lemma position_None: "position P xs = None \<longleftrightarrow> (\<forall>x \<in> set xs. \<not> P x)"
  by (induction xs) auto

lemma position_Some:
  "position P xs = Some i \<longleftrightarrow> i < length xs \<and> P (xs ! i) \<and> (\<forall>j < i. \<not> P (xs ! j))"
proof (induction xs arbitrary: i)
  case (Cons x xs)
  show ?case
  proof (cases i)
    case 0
    then show ?thesis by simp
  next
    case (Suc k)
    then show ?thesis
      using Cons.IH [of k] by (simp add: All_less_Suc2)
  qed
qed simp

text \<open>Appending to the live prefix of a fixed-capacity array.\<close>

lemma take_push [simp]:
  "n < length xs \<Longrightarrow> take (Suc n) (xs[n := x]) = take n xs @ [x]"
  using take_Suc_conv_app_nth [of n "xs[n := x]"] by simp

lemma find_append:
  "List.find P (xs @ ys) = (case List.find P xs of None \<Rightarrow> List.find P ys | Some x \<Rightarrow> Some x)"
  by (induction xs) auto

lemma find_SomeD: "List.find P xs = Some x \<Longrightarrow> x \<in> set xs \<and> P x"
  by (auto simp: find_Some_iff)

lemma find_unique:
  assumes "x \<in> set xs" "P x" "\<And>y. y \<in> set xs \<Longrightarrow> P y \<Longrightarrow> y = x"
  shows "List.find P xs = Some x"
proof (cases "List.find P xs")
  case None
  with assms(1,2) show ?thesis by (auto simp: find_None_iff)
next
  case (Some y)
  with find_SomeD [OF Some] assms(3) show ?thesis by blast
qed

lemma sorted_wrt_symD:
  assumes "sorted_wrt P xs" and "\<And>x y. P x y \<Longrightarrow> P y x"
    and "a \<in> set xs" and "b \<in> set xs" and "a \<noteq> b"
  shows "P a b"
  using assms by (induction xs) auto

section \<open>The insertion-sort loop\<close>

text \<open>
  \<open>shift_down\<close> is the inner \<^verbatim>\<open>while\<close> of the loader's insertion sorts: \<open>p\<close> is the position
  of the hole, elements with a larger key move one place up, and the value is written where the
  loop stops. \<open>insertion_sort_loop\<close> runs it for the indices \<^verbatim>\<open>1..n\<close> of an array.
\<close>

fun shift_down :: "('a \<Rightarrow> u64) \<Rightarrow> 'a \<Rightarrow> 'a list \<Rightarrow> nat \<Rightarrow> ('a list, 'e) result" where
  "shift_down key v xs 0 = arr_set xs 0 v"
| "shift_down key v xs (Suc p) =
     and_then (arr_get xs p) (\<lambda>previous.
       if key previous > key v
       then and_then (arr_set xs (Suc p) previous) (\<lambda>xs'. shift_down key v xs' p)
       else arr_set xs (Suc p) v)"

definition insertion_sort_loop :: "('a \<Rightarrow> u64) \<Rightarrow> nat \<Rightarrow> 'a list \<Rightarrow> ('a list, 'e) result" where
  "insertion_sort_loop key n xs =
     try_fold (\<lambda>ys index. and_then (arr_get ys index) (\<lambda>v. shift_down key v ys index)) xs [1 ..< n]"

text \<open>What the inner loop computes: insertion from the right, on the reversed prefix.\<close>

fun insert_right :: "('a \<Rightarrow> u64) \<Rightarrow> 'a \<Rightarrow> 'a list \<Rightarrow> 'a list" where
  "insert_right key v [] = [v]"
| "insert_right key v (z # zs) = (if key z > key v then z # insert_right key v zs else v # z # zs)"

lemma shift_down_eq:
  "p < length xs \<Longrightarrow>
   shift_down key v xs p = Ok (rev (insert_right key v (rev (take p xs))) @ drop (Suc p) xs)"
proof (induction p arbitrary: xs)
  case 0
  then show ?case by (cases xs) auto
next
  case (Suc p)
  have split: "take (Suc p) xs = take p xs @ [xs ! p]"
    using Suc.prems by (simp add: take_Suc_conv_app_nth)
  have tail: "drop (Suc p) xs = xs ! Suc p # drop (Suc (Suc p)) xs"
    using Suc.prems by (simp add: Cons_nth_drop_Suc)
  show ?case
  proof (cases "key (xs ! p) > key v")
    case True
    then show ?thesis
      using Suc.prems Suc.IH [of "xs[Suc p := xs ! p]"]
      by (simp add: split drop_update_swap [symmetric] tail drop_Suc_Cons
          Cons_nth_drop_Suc [symmetric])
  next
    case False
    then show ?thesis
      using Suc.prems
      by (simp add: split upd_conv_take_nth_drop take_Suc_conv_app_nth)
  qed
qed

lemma mset_insert_right [simp]: "mset (insert_right key v zs) = add_mset v (mset zs)"
  by (induction zs) auto

lemma set_insert_right [simp]: "set (insert_right key v zs) = insert v (set zs)"
  by (induction zs) auto

lemma sorted_insert_right:
  "sorted (map key (rev zs)) \<Longrightarrow> sorted (map key (rev (insert_right key v zs)))"
  by (induction zs) (auto simp: sorted_append)

lemma filter_insert_right:
  "filter (\<lambda>x. key k = key x) (insert_right key v zs) =
     (if key k = key v then [v] else []) @ filter (\<lambda>x. key k = key x) zs"
  by (induction zs) auto

lemma sort_key_snoc:
  "sort_key key (xs @ [v]) = rev (insert_right key v (rev (sort_key key xs)))"
proof (rule properties_for_sort_key)
  show "sorted (map key (rev (insert_right key v (rev (sort_key key xs)))))"
    by (rule sorted_insert_right) simp
next
  fix k
  have "filter (\<lambda>x. key k = key x) (sort_key key xs) = filter (\<lambda>x. key k = key x) xs"
    using sort_key_stable [of key "key k" xs] by (simp add: eq_commute)
  then show "filter (\<lambda>x. key k = key x) (rev (insert_right key v (rev (sort_key key xs)))) =
      filter (\<lambda>x. key k = key x) (xs @ [v])"
    by (simp add: rev_filter [symmetric] filter_insert_right)
qed simp

lemma insertion_sort_loop_prefix:
  "i \<le> length xs \<Longrightarrow>
   try_fold (\<lambda>ys index. and_then (arr_get ys index) (\<lambda>v. shift_down key v ys index)) xs [1 ..< i] =
     Ok (sort_key key (take i xs) @ drop i xs)"
proof (induction i)
  case 0
  then show ?case by simp
next
  case (Suc i)
  show ?case
  proof (cases "i = 0")
    case True
    with Suc.prems show ?thesis by (cases xs) auto
  next
    case False
    with Suc show ?thesis
      by (simp add: try_fold_append shift_down_eq nth_append take_Suc_conv_app_nth sort_key_snoc)
  qed
qed

text \<open>The loop is the library's stable sort on the prefix it runs over, and it never panics.\<close>

lemma insertion_sort_loop_sorts:
  "n \<le> length xs \<Longrightarrow> insertion_sort_loop key n xs = Ok (sort_key key (take n xs) @ drop n xs)"
  unfolding insertion_sort_loop_def by (rule insertion_sort_loop_prefix)

section \<open>Little-endian bytes\<close>

definition to_le_bytes :: "nat \<Rightarrow> 'a::len word \<Rightarrow> u8 list" where
  "to_le_bytes n w = map (\<lambda>i. ucast (drop_bit (8 * i) w)) [0 ..< n]"

fun from_le_bytes :: "u8 list \<Rightarrow> 'a::len word" where
  "from_le_bytes [] = 0"
| "from_le_bytes (b # bs) = ucast b OR push_bit 8 (from_le_bytes bs)"

lemma length_to_le_bytes [simp]: "length (to_le_bytes n w) = n"
  by (simp add: to_le_bytes_def)

lemma bit_from_le_bytes:
  "bit (from_le_bytes bs :: 'a::len word) i \<longleftrightarrow>
     i < LENGTH('a) \<and> i div 8 < length bs \<and> bit (bs ! (i div 8)) (i mod 8)"
proof (induction bs arbitrary: i)
  case Nil
  then show ?case by simp
next
  case (Cons b bs)
  show ?case
  proof (cases "i < 8")
    case True
    then show ?thesis by (auto simp: bit_simps)
  next
    case False
    then have "i div 8 = Suc ((i - 8) div 8)" and "i mod 8 = (i - 8) mod 8"
      by (simp_all add: le_div_geq le_mod_geq)
    moreover have "\<not> bit b i"
      using False bit_imp_le_length [of b i] by auto
    ultimately show ?thesis
      using False Cons.IH [of "i - 8"] by (auto simp: bit_simps)
  qed
qed

lemma from_to_le_bytes:
  "LENGTH('a) \<le> 8 * n \<Longrightarrow> from_le_bytes (to_le_bytes n w) = w"
  for w :: "'a::len word"
proof (rule bit_word_eqI)
  fix i
  assume n: "LENGTH('a) \<le> 8 * n" and i: "i < LENGTH('a)"
  then have d: "i div 8 < n" by linarith
  have "8 * (i div 8) + i mod 8 = i" by simp
  then show "bit (from_le_bytes (to_le_bytes n w) :: 'a word) i \<longleftrightarrow> bit w i"
    using i by (simp add: bit_from_le_bytes to_le_bytes_def bit_simps d)
qed

lemma from_le_bytes_append_zero [simp]: "from_le_bytes (replicate n 0) = 0"
  by (induction n) auto

section \<open>Sizes and byte buffers\<close>

text \<open>
  \<^verbatim>\<open>usize\<close> values are natural numbers below \<open>2 ^ 64\<close>; the checked operations fail outside.
  Copying into a subrange of a slice (\<^verbatim>\<open>bytes[a..b].copy_from_slice\<close>) panics out of range.
\<close>

definition usize_add :: "nat \<Rightarrow> nat \<Rightarrow> nat option" where
  "usize_add a b = (if a + b < 2 ^ 64 then Some (a + b) else None)"

definition usize_mul :: "nat \<Rightarrow> nat \<Rightarrow> nat option" where
  "usize_mul a b = (if a * b < 2 ^ 64 then Some (a * b) else None)"

definition usize_sub :: "nat \<Rightarrow> nat \<Rightarrow> nat option" where
  "usize_sub a b = (if b \<le> a then Some (a - b) else None)"

definition u32_try_from :: "nat \<Rightarrow> u32 option" where
  "u32_try_from n = (if n < 2 ^ 32 then Some (of_nat n) else None)"

definition copy_into :: "'a list \<Rightarrow> nat \<Rightarrow> 'a list \<Rightarrow> ('a list, 'e) result" where
  "copy_into xs off bs =
     (if off + length bs \<le> length xs then Ok (take off xs @ bs @ drop (off + length bs) xs) else Panic)"

lemma usize_add_Some [simp]: "usize_add a b = Some c \<longleftrightarrow> c = a + b \<and> a + b < 2 ^ 64"
  by (auto simp: usize_add_def)

lemma usize_mul_Some [simp]: "usize_mul a b = Some c \<longleftrightarrow> c = a * b \<and> a * b < 2 ^ 64"
  by (auto simp: usize_mul_def)

lemma usize_sub_Some [simp]: "usize_sub a b = Some c \<longleftrightarrow> c + b = a"
  by (auto simp: usize_sub_def)

lemma copy_into_segment:
  "copy_into ys k bs = Ok ys' \<Longrightarrow>
   copy_into (xs @ ys @ zs) (length xs + k) bs = (Ok (xs @ ys' @ zs) :: ('a list, 'f) result)"
  by (auto simp: copy_into_def split: if_splits)

lemma length_copy_into: "copy_into xs off bs = Ok ys \<Longrightarrow> length ys = length xs"
  by (auto simp: copy_into_def split: if_splits)

text \<open>Disjoint intervals inside a window are together no longer than the window.\<close>

lemma disjoint_lengths:
  fixes a l :: "'x \<Rightarrow> nat"
  assumes "sorted_wrt (\<lambda>s t. a s + l s \<le> a t \<or> a t + l t \<le> a s) S"
    and "\<forall>s \<in> set S. lo \<le> a s \<and> a s + l s \<le> hi"
  shows "sum_list (map l S) \<le> hi - lo"
proof -
  let ?R = "\<lambda>s. {a s ..< a s + l s}"
  have "sum_list (map l S) = card (\<Union>s \<in> set S. ?R s)"
    using assms(1)
  proof (induction S)
    case (Cons s S)
    have "?R s \<inter> (\<Union>t \<in> set S. ?R t) = {}" using Cons.prems by fastforce
    then have "card (?R s \<union> (\<Union>t \<in> set S. ?R t)) = card (?R s) + card (\<Union>t \<in> set S. ?R t)"
      by (intro card_Un_disjoint) auto
    then show ?case using Cons by simp
  qed simp
  also have "\<dots> \<le> card {lo ..< hi}" using assms(2) by (intro card_mono) fastforce+
  finally show ?thesis by simp
qed
section \<open>Interfaces shared by several components\<close>

text \<open>
  A checked newtype: a constructor that accepts exactly the raw values satisfying a predicate
  and wraps them unchanged (\<^verbatim>\<open>PhysicalAddress::new\<close>, \<^verbatim>\<open>TableIndex::new\<close>,
  \<^verbatim>\<open>PhysicalFrame::new\<close>, \<^verbatim>\<open>EntryFlags::from_bits\<close>, \<dots>).
\<close>

locale checked_newtype =
  fixes mk :: "'r \<Rightarrow> ('v, 'e) result"
    and raw :: "'v \<Rightarrow> 'r"
    and valid :: "'r \<Rightarrow> bool"
  assumes mk_ok: "mk r = Ok v \<Longrightarrow> raw v = r \<and> valid r"
    and mk_valid: "valid r \<Longrightarrow> \<exists>v. mk r = Ok v"
    and mk_no_panic: "mk r \<noteq> Panic"
    and raw_inject: "raw v = raw w \<Longrightarrow> v = w"
begin

lemma mk_iff: "mk r = Ok v \<longleftrightarrow> raw v = r \<and> valid r"
  using mk_ok mk_valid raw_inject by metis

lemma mk_raw: "valid (raw v) \<Longrightarrow> mk (raw v) = Ok v"
  by (simp add: mk_iff)

lemma mk_rejects: "(\<exists>e. mk r = Err e) \<longleftrightarrow> \<not> valid r"
proof (cases "mk r")
  case (Ok v)
  then show ?thesis using mk_ok by auto
next
  case (Err e)
  then show ?thesis using mk_valid by force
next
  case Panic
  then show ?thesis using mk_no_panic by blast
qed

lemma mk_inject: "mk r = Ok v \<Longrightarrow> mk s = Ok v \<Longrightarrow> r = s"
  by (auto simp: mk_iff)

end

text \<open>
  Half-open address ranges with the overlap test the code writes in five places. The laws give
  the geometric meaning of the test, and that a list checked pairwise with its neighbour (the
  \<^verbatim>\<open>windows(2)\<close> checks) has no two overlapping members.
\<close>

locale half_open_range =
  fixes lo :: "'r \<Rightarrow> u64"
    and hi :: "'r \<Rightarrow> u64"
    and overlaps :: "'r \<Rightarrow> 'r \<Rightarrow> bool"
  assumes overlaps_test: "overlaps a b \<longleftrightarrow> lo a < hi b \<and> lo b < hi a"
begin

lemma overlaps_sym: "overlaps a b \<longleftrightarrow> overlaps b a"
  by (auto simp: overlaps_test)

lemma overlaps_iff_common:
  assumes "lo a < hi a" and "lo b < hi b"
  shows "overlaps a b \<longleftrightarrow> (\<exists>x. lo a \<le> x \<and> x < hi a \<and> lo b \<le> x \<and> x < hi b)"
proof
  assume "overlaps a b"
  with assms show "\<exists>x. lo a \<le> x \<and> x < hi a \<and> lo b \<le> x \<and> x < hi b"
    by (intro exI [of _ "max (lo a) (lo b)"]) (auto simp: overlaps_test max_def)
next
  assume "\<exists>x. lo a \<le> x \<and> x < hi a \<and> lo b \<le> x \<and> x < hi b"
  then show "overlaps a b"
    by (auto simp: overlaps_test intro: le_less_trans)
qed

lemma not_overlaps_iff_ordered:
  "\<not> overlaps a b \<longleftrightarrow> hi b \<le> lo a \<or> hi a \<le> lo b"
  by (auto simp: overlaps_test not_less)

lemma separated_pairwise:
  assumes "\<And>r. r \<in> set rs \<Longrightarrow> lo r \<le> hi r"
    and "sorted_wrt (\<lambda>a b. hi a \<le> lo b) rs"
  shows "sorted_wrt (\<lambda>a b. \<not> overlaps a b) rs"
  using assms(2) by (rule sorted_wrt_mono_rel [rotated]) (auto simp: overlaps_test not_less)

end

text \<open>Neighbour checks lift to all pairs when every element is a forward range.\<close>

fun adjacent :: "('a \<Rightarrow> 'a \<Rightarrow> bool) \<Rightarrow> 'a list \<Rightarrow> bool" where
  "adjacent P [] \<longleftrightarrow> True"
| "adjacent P [x] \<longleftrightarrow> True"
| "adjacent P (x # y # zs) \<longleftrightarrow> P x y \<and> adjacent P (y # zs)"

lemma adjacent_sorted_wrt:
  assumes "adjacent P xs"
    and "\<And>x y z. x \<in> set xs \<Longrightarrow> y \<in> set xs \<Longrightarrow> z \<in> set xs \<Longrightarrow> P x y \<Longrightarrow> P y z \<Longrightarrow> P x z"
  shows "sorted_wrt P xs"
  using assms
proof (induction P xs rule: adjacent.induct)
  case (3 P x y zs)
  have P: "P x y" and adj: "adjacent P (y # zs)" using "3.prems"(1) by simp_all
  have IH: "sorted_wrt P (y # zs)"
  proof (rule "3.IH" [OF adj])
    fix a b c
    assume "a \<in> set (y # zs)" "b \<in> set (y # zs)" "c \<in> set (y # zs)" "P a b" "P b c"
    then show "P a c" using "3.prems"(2) [of a b c] by simp
  qed
  have "P x z" if "z \<in> set zs" for z
    using P IH that "3.prems"(2) [of x y z] by simp
  with P IH show ?case by simp
qed simp_all

lemma sorted_wrt_adjacent: "sorted_wrt P xs \<Longrightarrow> adjacent P xs"
  by (induction P xs rule: adjacent.induct) auto

end
