(* ===== verification/Memory_Layout.thy ===== *)
theory Memory_Layout
  imports Rust_Prelude
begin

text \<open>
  \<^verbatim>\<open>crates/memory-layout/src/lib.rs\<close>: address newtypes, page ranges, alignment, mapping
  permissions, the declared regions of the address space, and the mapping plan with its
  insertion, translation and validation operations.

  A Rust newtype is a one-constructor datatype, a struct with several fields a record. A
  fixed-capacity array with a length is the array itself (a list whose length is the const
  generic \<^verbatim>\<open>CAPACITY\<close>) and the length field; the slice of live entries is the prefix.
\<close>

section \<open>Constants\<close>

definition PAGE_SIZE :: u64 where
  [const_defs]: "PAGE_SIZE = 4096"

definition LOW_CANONICAL_END :: u64 where
  [const_defs]: "LOW_CANONICAL_END = 0x0000800000000000"

definition HIGH_CANONICAL_START :: u64 where
  [const_defs]: "HIGH_CANONICAL_START = 0xffff800000000000"

definition SUPPORTED_PHYSICAL_END :: u64 where
  [const_defs]: "SUPPORTED_PHYSICAL_END = 0x0000400000000000"

definition USER_SPACE_START :: u64 where
  [const_defs]: "USER_SPACE_START = 0x0000000000010000"

definition USER_SPACE_END :: u64 where
  [const_defs]: "USER_SPACE_END = 0x00007ffffffff000"

definition DIRECT_MAP_START :: u64 where
  [const_defs]: "DIRECT_MAP_START = 0xffff800000000000"

definition DIRECT_MAP_END :: u64 where
  [const_defs]: "DIRECT_MAP_END = 0xffffc00000000000"

definition KERNEL_SERVICES_START :: u64 where
  [const_defs]: "KERNEL_SERVICES_START = 0xffffc00000000000"

definition KERNEL_SERVICES_END :: u64 where
  [const_defs]: "KERNEL_SERVICES_END = 0xffffe00000000000"

definition MMIO_START :: u64 where
  [const_defs]: "MMIO_START = 0xffffe00000000000"

definition MMIO_END :: u64 where
  [const_defs]: "MMIO_END = 0xffffe80000000000"

definition FRAMEBUFFER_START :: u64 where
  [const_defs]: "FRAMEBUFFER_START = 0xffffe80000000000"

definition FRAMEBUFFER_END :: u64 where
  [const_defs]: "FRAMEBUFFER_END = 0xffffe90000000000"

definition HIGH_RESERVED_START :: u64 where
  [const_defs]: "HIGH_RESERVED_START = FRAMEBUFFER_END"

definition HIGH_RESERVED_END :: u64 where
  [const_defs]: "HIGH_RESERVED_END = 0xffffffff80000000"

definition KERNEL_IMAGE_START :: u64 where
  [const_defs]: "KERNEL_IMAGE_START = 0xffffffff80000000"

definition KERNEL_IMAGE_END :: u64 where
  [const_defs]: "KERNEL_IMAGE_END = 0xffffffffc0000000"

definition KERNEL_LOCAL_START :: u64 where
  [const_defs]: "KERNEL_LOCAL_START = KERNEL_IMAGE_END"

definition KERNEL_LOCAL_END :: u64 where
  [const_defs]: "KERNEL_LOCAL_END = 0xfffffffffffff000"

definition BOOTSTRAP_PHYSICAL_START :: u64 where
  [const_defs]: "BOOTSTRAP_PHYSICAL_START = 0x00200000"

definition BOOTSTRAP_PHYSICAL_END :: u64 where
  [const_defs]: "BOOTSTRAP_PHYSICAL_END = 0x04200000"

definition TRANSITION_IDENTITY_END :: u64 where
  [const_defs]: "TRANSITION_IDENTITY_END = 0x100000000"

definition BOOTSTRAP_STACK_BYTES :: u64 where
  [const_defs]: "BOOTSTRAP_STACK_BYTES = 16 * PAGE_SIZE"

definition MAX_TRANSITION_IDENTITY_BYTES :: u64 where
  [const_defs]: "MAX_TRANSITION_IDENTITY_BYTES = 17 * PAGE_SIZE"

definition DEFAULT_PLAN_CAPACITY :: nat where
  [const_defs]: "DEFAULT_PLAN_CAPACITY = 64"

section \<open>Errors, addresses and ranges\<close>

datatype layout_error =
    InvalidAlignment
  | AlignmentOverflow
  | NonCanonicalVirtualAddress
  | UnsupportedPhysicalAddress
  | EmptyRange
  | ReversedRange
  | RangeOverflow
  | RangeNotPageAligned
  | CrossesCanonicalHole
  | RangeLengthMismatch
  | UnknownPermissionBits
  | ReadPermissionRequired
  | WritableExecutable
  | UserMappingForbidden
  | InvalidRegionPermissions
  | InvalidCachePolicy
  | OutsideDeclaredRegion
  | OutsideBootstrapPhysicalWindow
  | DirectMapAddressMismatch
  | InvalidBootstrapStack
  | MissingStackGuard
  | VirtualOverlap
  | PhysicalAliasWriteExecute
  | PhysicalAliasPermissionEscalation
  | IdentityAddressMismatch
  | TransitionIdentityAboveLimit
  | TransitionIdentityTooLarge
  | InvalidTransitionComposition
  | LowMappingInFinalPlan
  | TransitionMappingInFinalPlan
  | PlanExhausted
  | Unmapped

datatype physical_address = PhysicalAddress (pa_get: u64)

datatype virtual_address = VirtualAddress (va_get: u64)

definition is_canonical :: "u64 \<Rightarrow> bool" where
  "is_canonical address \<longleftrightarrow> address < LOW_CANONICAL_END \<or> address \<ge> HIGH_CANONICAL_START"

definition canonical_half :: "u64 \<Rightarrow> u8" where
  "canonical_half address = (if address < LOW_CANONICAL_END then 0 else 1)"

definition PhysicalAddress_new :: "u64 \<Rightarrow> (physical_address, layout_error) result" where
  "PhysicalAddress_new value =
     (if value < SUPPORTED_PHYSICAL_END then Ok (PhysicalAddress value)
      else Err UnsupportedPhysicalAddress)"

definition VirtualAddress_new :: "u64 \<Rightarrow> (virtual_address, layout_error) result" where
  "VirtualAddress_new value =
     (if is_canonical value then Ok (VirtualAddress value)
      else Err NonCanonicalVirtualAddress)"

definition validate_order :: "u64 \<Rightarrow> u64 \<Rightarrow> (unit, layout_error) result" where
  "validate_order start limit =
     (if start = limit then Err EmptyRange
      else if start > limit then Err ReversedRange
      else Ok ())"

definition validate_page_boundaries :: "u64 \<Rightarrow> u64 \<Rightarrow> (unit, layout_error) result" where
  "validate_page_boundaries start limit =
     (if \<not> is_multiple_of start PAGE_SIZE \<or> \<not> is_multiple_of limit PAGE_SIZE
      then Err RangeNotPageAligned else Ok ())"

record physical_range =
  pr_start :: physical_address
  pr_end :: u64

record virtual_range =
  vr_start :: virtual_address
  vr_end :: u64

abbreviation pr_base :: "physical_range \<Rightarrow> u64" where
  "pr_base r \<equiv> pa_get (pr_start r)"

abbreviation vr_base :: "virtual_range \<Rightarrow> u64" where
  "vr_base r \<equiv> va_get (vr_start r)"

definition PhysicalRange_new :: "u64 \<Rightarrow> u64 \<Rightarrow> (physical_range, layout_error) result" where
  "PhysicalRange_new start limit =
     and_then (validate_order start limit) (\<lambda>_.
     if start \<ge> SUPPORTED_PHYSICAL_END \<or> limit > SUPPORTED_PHYSICAL_END
     then Err UnsupportedPhysicalAddress
     else and_then (validate_page_boundaries start limit) (\<lambda>_.
       Ok \<lparr>pr_start = PhysicalAddress start, pr_end = limit\<rparr>))"

definition PhysicalRange_from_start_and_length ::
    "u64 \<Rightarrow> u64 \<Rightarrow> (physical_range, layout_error) result" where
  "PhysicalRange_from_start_and_length start len =
     (if len = 0 then Err EmptyRange
      else case checked_add start len of
        Some limit \<Rightarrow> PhysicalRange_new start limit
      | None \<Rightarrow> Err RangeOverflow)"

definition pr_length :: "physical_range \<Rightarrow> u64" where
  "pr_length r = pr_end r - pr_base r"

definition pr_contains :: "physical_range \<Rightarrow> physical_address \<Rightarrow> bool" where
  "pr_contains r address \<longleftrightarrow> pr_base r \<le> pa_get address \<and> pa_get address < pr_end r"

definition pr_contains_range :: "physical_range \<Rightarrow> physical_range \<Rightarrow> bool" where
  "pr_contains_range r other \<longleftrightarrow> pr_base r \<le> pr_base other \<and> pr_end other \<le> pr_end r"

definition pr_overlaps :: "physical_range \<Rightarrow> physical_range \<Rightarrow> bool" where
  "pr_overlaps r other \<longleftrightarrow> pr_base r < pr_end other \<and> pr_base other < pr_end r"

definition VirtualRange_new :: "u64 \<Rightarrow> u64 \<Rightarrow> (virtual_range, layout_error) result" where
  "VirtualRange_new start limit =
     and_then (validate_order start limit) (\<lambda>_.
     if \<not> is_canonical start \<or> \<not> is_canonical (limit - 1)
     then Err NonCanonicalVirtualAddress
     else if canonical_half start \<noteq> canonical_half (limit - 1)
     then Err CrossesCanonicalHole
     else and_then (validate_page_boundaries start limit) (\<lambda>_.
       Ok \<lparr>vr_start = VirtualAddress start, vr_end = limit\<rparr>))"

definition VirtualRange_from_start_and_length ::
    "u64 \<Rightarrow> u64 \<Rightarrow> (virtual_range, layout_error) result" where
  "VirtualRange_from_start_and_length start len =
     (if len = 0 then Err EmptyRange
      else case checked_add start len of
        Some limit \<Rightarrow> VirtualRange_new start limit
      | None \<Rightarrow> Err RangeOverflow)"

definition vr_length :: "virtual_range \<Rightarrow> u64" where
  "vr_length r = vr_end r - vr_base r"

definition vr_contains :: "virtual_range \<Rightarrow> virtual_address \<Rightarrow> bool" where
  "vr_contains r address \<longleftrightarrow> vr_base r \<le> va_get address \<and> va_get address < vr_end r"

definition vr_contains_range :: "virtual_range \<Rightarrow> virtual_range \<Rightarrow> bool" where
  "vr_contains_range r other \<longleftrightarrow> vr_base r \<le> vr_base other \<and> vr_end other \<le> vr_end r"

definition vr_overlaps :: "virtual_range \<Rightarrow> virtual_range \<Rightarrow> bool" where
  "vr_overlaps r other \<longleftrightarrow> vr_base r < vr_end other \<and> vr_base other < vr_end r"

definition align_down :: "u64 \<Rightarrow> u64 \<Rightarrow> (u64, layout_error) result" where
  "align_down value alignment =
     (if alignment = 0 \<or> \<not> is_power_of_two alignment then Err InvalidAlignment
      else Ok (value AND NOT (alignment - 1)))"

definition align_up :: "u64 \<Rightarrow> u64 \<Rightarrow> (u64, layout_error) result" where
  "align_up value alignment =
     (if alignment = 0 \<or> \<not> is_power_of_two alignment then Err InvalidAlignment
      else case checked_add value (alignment - 1) of
        Some rounded \<Rightarrow> Ok (rounded AND NOT (alignment - 1))
      | None \<Rightarrow> Err AlignmentOverflow)"

section \<open>Permissions, cache policy and regions\<close>

datatype mapping_permissions = MappingPermissions (mp_bits: u8)

definition MP_READ :: u8 where [const_defs]: "MP_READ = 1"
definition MP_WRITE :: u8 where [const_defs]: "MP_WRITE = 2"
definition MP_EXECUTE :: u8 where [const_defs]: "MP_EXECUTE = 4"
definition MP_USER :: u8 where [const_defs]: "MP_USER = 8"
definition MP_GLOBAL :: u8 where [const_defs]: "MP_GLOBAL = 16"

definition MP_KNOWN :: u8 where
  [const_defs]: "MP_KNOWN = MP_READ OR MP_WRITE OR MP_EXECUTE OR MP_USER OR MP_GLOBAL"

definition KERNEL_RX :: mapping_permissions where
  [const_defs]: "KERNEL_RX = MappingPermissions (MP_READ OR MP_EXECUTE OR MP_GLOBAL)"

definition KERNEL_R :: mapping_permissions where
  [const_defs]: "KERNEL_R = MappingPermissions (MP_READ OR MP_GLOBAL)"

definition KERNEL_RW :: mapping_permissions where
  [const_defs]: "KERNEL_RW = MappingPermissions (MP_READ OR MP_WRITE OR MP_GLOBAL)"

definition MappingPermissions_from_bits ::
    "u8 \<Rightarrow> (mapping_permissions, layout_error) result" where
  "MappingPermissions_from_bits bits =
     (if bits AND NOT MP_KNOWN \<noteq> 0 then Err UnknownPermissionBits
      else if bits AND MP_READ = 0 then Err ReadPermissionRequired
      else if bits AND (MP_WRITE OR MP_EXECUTE) = (MP_WRITE OR MP_EXECUTE)
      then Err WritableExecutable
      else Ok (MappingPermissions bits))"

definition mp_writable :: "mapping_permissions \<Rightarrow> bool" where
  "mp_writable p \<longleftrightarrow> mp_bits p AND MP_WRITE \<noteq> 0"

definition mp_executable :: "mapping_permissions \<Rightarrow> bool" where
  "mp_executable p \<longleftrightarrow> mp_bits p AND MP_EXECUTE \<noteq> 0"

definition mp_user :: "mapping_permissions \<Rightarrow> bool" where
  "mp_user p \<longleftrightarrow> mp_bits p AND MP_USER \<noteq> 0"

datatype cache_policy = WriteBack | Uncached

datatype address_region =
    RegionUserSpace
  | RegionDirectMap
  | RegionKernelServices
  | RegionMmio
  | RegionFramebuffer
  | RegionReserved
  | RegionKernelImage
  | RegionKernelLocal

record declared_region =
  dr_kind :: address_region
  dr_range :: virtual_range

definition declared :: "address_region \<Rightarrow> u64 \<Rightarrow> u64 \<Rightarrow> declared_region" where
  "declared kind start limit =
     \<lparr>dr_kind = kind, dr_range = \<lparr>vr_start = VirtualAddress start, vr_end = limit\<rparr>\<rparr>"

definition DECLARED_REGIONS :: "declared_region list" where
  "DECLARED_REGIONS =
     [declared RegionUserSpace USER_SPACE_START USER_SPACE_END,
      declared RegionDirectMap DIRECT_MAP_START DIRECT_MAP_END,
      declared RegionKernelServices KERNEL_SERVICES_START KERNEL_SERVICES_END,
      declared RegionMmio MMIO_START MMIO_END,
      declared RegionFramebuffer FRAMEBUFFER_START FRAMEBUFFER_END,
      declared RegionReserved HIGH_RESERVED_START HIGH_RESERVED_END,
      declared RegionKernelImage KERNEL_IMAGE_START KERNEL_IMAGE_END,
      declared RegionKernelLocal KERNEL_LOCAL_START KERNEL_LOCAL_END]"

fun region_range :: "address_region \<Rightarrow> virtual_range" where
  "region_range RegionUserSpace =
     dr_range (declared RegionUserSpace USER_SPACE_START USER_SPACE_END)"
| "region_range RegionDirectMap =
     dr_range (declared RegionDirectMap DIRECT_MAP_START DIRECT_MAP_END)"
| "region_range RegionKernelServices =
     dr_range (declared RegionKernelServices KERNEL_SERVICES_START KERNEL_SERVICES_END)"
| "region_range RegionMmio = dr_range (declared RegionMmio MMIO_START MMIO_END)"
| "region_range RegionFramebuffer =
     dr_range (declared RegionFramebuffer FRAMEBUFFER_START FRAMEBUFFER_END)"
| "region_range RegionReserved =
     dr_range (declared RegionReserved HIGH_RESERVED_START HIGH_RESERVED_END)"
| "region_range RegionKernelImage =
     dr_range (declared RegionKernelImage KERNEL_IMAGE_START KERNEL_IMAGE_END)"
| "region_range RegionKernelLocal =
     dr_range (declared RegionKernelLocal KERNEL_LOCAL_START KERNEL_LOCAL_END)"

definition validate_declared_regions :: "(unit, layout_error) result" where
  "validate_declared_regions =
     and_then
       (try_fold (\<lambda>_ index.
          and_then (arr_get DECLARED_REGIONS index) (\<lambda>region.
          and_then (VirtualRange_new (vr_base (dr_range region)) (vr_end (dr_range region))) (\<lambda>_.
          try_fold (\<lambda>_ previous.
            if vr_overlaps (dr_range previous) (dr_range region) then Err VirtualOverlap else Ok ())
            () (take index DECLARED_REGIONS))))
          () [0 ..< length DECLARED_REGIONS])
       (\<lambda>_. let user = region_range RegionUserSpace in
          if vr_overlaps user (region_range RegionDirectMap)
             \<or> vr_overlaps user (region_range RegionKernelImage)
             \<or> vr_overlaps user (region_range RegionKernelLocal)
          then Err VirtualOverlap else Ok ())"

definition direct_map_address :: "physical_address \<Rightarrow> (virtual_address, layout_error) result" where
  "direct_map_address physical =
     (case checked_add DIRECT_MAP_START (pa_get physical) of
        Some value \<Rightarrow>
          if value < DIRECT_MAP_END then Ok (VirtualAddress value)
          else Err UnsupportedPhysicalAddress
      | None \<Rightarrow> Err UnsupportedPhysicalAddress)"

section \<open>Addresses and ranges\<close>

instantiation physical_address :: linorder
begin

definition less_eq_physical_address :: "physical_address \<Rightarrow> physical_address \<Rightarrow> bool" where
  "less_eq_physical_address a b \<longleftrightarrow> pa_get a \<le> pa_get b"

definition less_physical_address :: "physical_address \<Rightarrow> physical_address \<Rightarrow> bool" where
  "less_physical_address a b \<longleftrightarrow> pa_get a < pa_get b"

instance
  by standard
    (auto simp: less_eq_physical_address_def less_physical_address_def physical_address.expand)

end

instantiation virtual_address :: linorder
begin

definition less_eq_virtual_address :: "virtual_address \<Rightarrow> virtual_address \<Rightarrow> bool" where
  "less_eq_virtual_address a b \<longleftrightarrow> va_get a \<le> va_get b"

definition less_virtual_address :: "virtual_address \<Rightarrow> virtual_address \<Rightarrow> bool" where
  "less_virtual_address a b \<longleftrightarrow> va_get a < va_get b"

instance
  by standard
    (auto simp: less_eq_virtual_address_def less_virtual_address_def virtual_address.expand)

end

interpretation pa_new: checked_newtype PhysicalAddress_new pa_get "\<lambda>v. v < SUPPORTED_PHYSICAL_END"
  by unfold_locales (auto simp: PhysicalAddress_new_def physical_address.expand split: if_splits)

interpretation va_new: checked_newtype VirtualAddress_new va_get is_canonical
  by unfold_locales (auto simp: VirtualAddress_new_def virtual_address.expand split: if_splits)

interpretation mp_new: checked_newtype MappingPermissions_from_bits mp_bits
    "\<lambda>bits. bits AND NOT MP_KNOWN = 0 \<and> bits AND MP_READ \<noteq> 0
       \<and> bits AND (MP_WRITE OR MP_EXECUTE) \<noteq> (MP_WRITE OR MP_EXECUTE)"
  by unfold_locales
    (auto simp: MappingPermissions_from_bits_def mapping_permissions.expand split: if_splits)

interpretation pr: half_open_range pr_base pr_end pr_overlaps
  by unfold_locales (simp add: pr_overlaps_def)

interpretation vr: half_open_range vr_base vr_end vr_overlaps
  by unfold_locales (simp add: vr_overlaps_def)

text \<open>
  The fields of the range structs are private, so every range is a result of its \<^verbatim>\<open>new\<close>:
  \<open>pr_ok\<close> and \<open>vr_ok\<close> are what the constructors establish.
\<close>

definition pr_ok :: "physical_range \<Rightarrow> bool" where
  "pr_ok r \<longleftrightarrow> PhysicalRange_new (pr_base r) (pr_end r) = Ok r"

definition vr_ok :: "virtual_range \<Rightarrow> bool" where
  "vr_ok r \<longleftrightarrow> VirtualRange_new (vr_base r) (vr_end r) = Ok r"

lemma validate_order_Ok [simp]: "validate_order a b = Ok u \<longleftrightarrow> a < b"
  by (auto simp: validate_order_def)

lemma validate_page_boundaries_Ok [simp]:
  "validate_page_boundaries a b = Ok u \<longleftrightarrow> is_multiple_of a PAGE_SIZE \<and> is_multiple_of b PAGE_SIZE"
  by (auto simp: validate_page_boundaries_def)

lemma PhysicalRange_new_Ok:
  "PhysicalRange_new a b = Ok r \<longleftrightarrow>
     a < b \<and> b \<le> SUPPORTED_PHYSICAL_END \<and> is_multiple_of a PAGE_SIZE \<and> is_multiple_of b PAGE_SIZE
     \<and> r = \<lparr>pr_start = PhysicalAddress a, pr_end = b\<rparr>"
  by (auto simp: PhysicalRange_new_def)

lemma PhysicalRange_new_ok: "PhysicalRange_new a b = Ok r \<Longrightarrow> pr_ok r"
  by (auto simp: pr_ok_def PhysicalRange_new_Ok)

lemma VirtualRange_new_ok: "VirtualRange_new a b = Ok r \<Longrightarrow> vr_ok r"
  by (auto simp: vr_ok_def VirtualRange_new_def split: if_splits)

lemma pr_ok_iff:
  "pr_ok r \<longleftrightarrow> pr_base r < pr_end r \<and> pr_end r \<le> SUPPORTED_PHYSICAL_END
     \<and> is_multiple_of (pr_base r) PAGE_SIZE \<and> is_multiple_of (pr_end r) PAGE_SIZE"
  by (cases r; cases "pr_start r") (auto simp: pr_ok_def PhysicalRange_new_Ok)

lemma vr_ok_iff:
  "vr_ok r \<longleftrightarrow> vr_base r < vr_end r \<and> is_canonical (vr_base r) \<and> is_canonical (vr_end r - 1)
     \<and> canonical_half (vr_base r) = canonical_half (vr_end r - 1)
     \<and> is_multiple_of (vr_base r) PAGE_SIZE \<and> is_multiple_of (vr_end r) PAGE_SIZE"
  by (cases r; cases "vr_start r") (auto simp: vr_ok_def VirtualRange_new_def split: if_splits)

lemma pr_okD: "pr_ok r \<Longrightarrow> unat (pr_base r) < unat (pr_end r)"
  by (simp add: pr_ok_iff word_nat)

lemma vr_okD: "vr_ok r \<Longrightarrow> unat (vr_base r) < unat (vr_end r)"
  by (simp add: vr_ok_iff word_nat)

lemma unat_pr_length: "pr_ok r \<Longrightarrow> unat (pr_length r) = unat (pr_end r) - unat (pr_base r)"
  unfolding pr_length_def by (rule unat_sub) (auto simp: pr_ok_iff)

lemma unat_vr_length: "vr_ok r \<Longrightarrow> unat (vr_length r) = unat (vr_end r) - unat (vr_base r)"
  unfolding vr_length_def by (rule unat_sub) (auto simp: vr_ok_iff)

section \<open>Alignment\<close>

lemma power_of_two_alignment:
  assumes "is_power_of_two (a :: u64)"
  obtains k where "k < 64" "unat a = 2 ^ k" "a - 1 = mask k" "a \<noteq> 0"
    "unat (mask k :: u64) = 2 ^ k - 1"
proof -
  from assms obtain k where k: "k < 64" "a = 2 ^ k"
    by (auto simp: is_power_of_two_iff)
  then have "uint a = 2 ^ k" by (simp add: uint_2p word_neq_0_conv [symmetric])
  then have "unat a = 2 ^ k" by (simp add: nat_eq_iff2 flip: nat_uint_eq)
  moreover have "a \<noteq> 0" using \<open>unat a = 2 ^ k\<close> by auto
  moreover have "a - 1 = mask k" using k by (simp add: mask_eq_decr_exp)
  moreover have "unat (a - 1) = 2 ^ k - 1"
    using \<open>a \<noteq> 0\<close> \<open>unat a = 2 ^ k\<close> by (simp add: unat_minus_one)
  ultimately show thesis using that k by simp
qed

lemma align_down_nat:
  "is_power_of_two a \<Longrightarrow> \<exists>r. align_down v a = Ok r \<and> unat r = unat v - unat v mod unat a"
  by (frule power_of_two_alignment) (auto simp: align_down_def unat_and_not_mask)

lemma round_down_unique:
  assumes "(a::nat) > 0"
  shows "r = v - v mod a \<longleftrightarrow> a dvd r \<and> r \<le> v \<and> v < r + a"
proof
  assume r: "r = v - v mod a"
  then have "r \<le> v \<and> v < r + a"
    using mod_less_divisor [OF assms, of v] by linarith
  with r show "a dvd r \<and> r \<le> v \<and> v < r + a" by (simp add: dvd_minus_mod)
next
  assume r: "a dvd r \<and> r \<le> v \<and> v < r + a"
  then obtain q where "r = a * q" by (auto elim: dvdE)
  with r assms have "v div a = q" by (intro div_nat_eqI) (auto simp: algebra_simps)
  with \<open>r = a * q\<close> show "r = v - v mod a" by (simp add: minus_mod_eq_mult_div)
qed

text \<open>
  C17. \<^verbatim>\<open>align_down\<close> succeeds exactly for a power of two, and then its result is the largest
  multiple of the alignment that is not above the value.
\<close>
theorem align_down_greatest_multiple:
  "align_down v a = Ok r \<longleftrightarrow>
     is_power_of_two a \<and> unat a dvd unat r \<and> unat r \<le> unat v \<and> unat v < unat r + unat a"
proof (cases "is_power_of_two a")
  case True
  then obtain s where s: "align_down v a = Ok s" "unat s = unat v - unat v mod unat a"
    using align_down_nat by blast
  have "unat a > 0" using True by (elim power_of_two_alignment) simp
  then show ?thesis
    using s(1) True round_down_unique [of "unat a" "unat r" "unat v", folded s(2)]
    by (metis result.inject(1) word_eq_nat)
next
  case False
  then show ?thesis by (simp add: align_down_def)
qed

lemma align_up_down:
  "is_power_of_two a \<Longrightarrow> unat v + (unat a - 1) < 2 ^ 64 \<Longrightarrow>
   \<exists>r. align_up v a = Ok r \<and> unat r = (unat v + (unat a - 1)) - (unat v + (unat a - 1)) mod unat a"
  by (frule power_of_two_alignment)
    (auto simp: align_up_def checked_add_def unat_and_not_mask unat_add_lem [THEN iffD1])

text \<open>
  C16. \<^verbatim>\<open>align_up\<close> succeeds exactly when the alignment is a power of two and a multiple of it
  that is not below the value fits into 64 bits; its result is then the least such multiple. The
  overflow check never rejects a value whose rounded form exists.
\<close>
theorem align_up_least_multiple:
  "align_up v a = Ok r \<longleftrightarrow>
     is_power_of_two a \<and> unat a dvd unat r \<and> unat v \<le> unat r \<and> unat r < unat v + unat a"
proof (cases "is_power_of_two a")
  case True
  then obtain k where k: "k < 64" "unat a = 2 ^ k" "a - 1 = mask k" "a \<noteq> 0"
      "unat (mask k :: u64) = 2 ^ k - 1"
    by (rule power_of_two_alignment)
  have r: "unat r < 2 ^ 64" using unat_bound [of r] by simp
  show ?thesis
  proof (cases "unat v + (unat a - 1) < 2 ^ 64")
    case fits: True
    then obtain s where s: "align_up v a = Ok s"
        "unat s = (unat v + (unat a - 1)) - (unat v + (unat a - 1)) mod unat a"
      using align_up_down True by blast
    have pos: "unat a > 0" using k(2) by simp
    have "align_up v a = Ok r \<longleftrightarrow> unat r = unat s"
      using s(1) by (auto simp: word_eq_nat)
    also have "\<dots> \<longleftrightarrow> unat a dvd unat r \<and> unat r \<le> unat v + (unat a - 1)
        \<and> unat v + (unat a - 1) < unat r + unat a"
      unfolding s(2) by (rule round_down_unique [OF pos])
    finally show ?thesis using True pos by auto
  next
    case False
    then have "align_up v a = Err AlignmentOverflow"
      using True k by (simp add: align_up_def checked_add_def)
    moreover have "\<not> (unat a dvd unat r \<and> unat v \<le> unat r \<and> unat r < unat v + unat a)"
    proof
      assume a: "unat a dvd unat r \<and> unat v \<le> unat r \<and> unat r < unat v + unat a"
      have "unat a dvd 2 ^ 64" unfolding k(2) using k(1) by (intro le_imp_power_dvd) simp
      then have "unat a dvd 2 ^ 64 - unat r" using a by (simp add: dvd_diff_nat)
      then have "unat a \<le> 2 ^ 64 - unat r" using r by (simp add: dvd_imp_le)
      with a False r show False by linarith
    qed
    ultimately show ?thesis by simp
  qed
next
  case False
  then show ?thesis by (simp add: align_up_def)
qed

section \<open>Declared regions and the direct map\<close>

lemmas region_simps =
  DECLARED_REGIONS_def declared_def vr_overlaps_def VirtualRange_new_def validate_order_def
  validate_page_boundaries_def is_canonical_def canonical_half_def word_nat

lemma direct_map_address_Ok:
  "direct_map_address p = Ok v \<longleftrightarrow>
     pa_get p < SUPPORTED_PHYSICAL_END \<and> unat (va_get v) = unat DIRECT_MAP_START + unat (pa_get p)"
proof -
  have "direct_map_address p = Ok v \<longleftrightarrow>
      checked_add DIRECT_MAP_START (pa_get p) = Some (va_get v) \<and> va_get v < DIRECT_MAP_END"
    by (cases "checked_add DIRECT_MAP_START (pa_get p)"; cases v)
      (auto simp: direct_map_address_def simp del: checked_add_Some)
  then show ?thesis by (auto simp: const_defs word_nat)
qed

text \<open>
  C18. The direct map: every supported physical address has a direct-map address, which lies in
  the direct-map region at the same offset, so that it is canonical; distinct physical addresses
  have distinct direct-map addresses.
\<close>
theorem direct_map_address_correct:
  assumes "PhysicalAddress_new x = Ok p" and "PhysicalAddress_new y = Ok q"
  shows "\<exists>v w. direct_map_address p = Ok v \<and> direct_map_address q = Ok w
     \<and> vr_contains (region_range RegionDirectMap) v \<and> VirtualAddress_new (va_get v) = Ok v
     \<and> unat (va_get v) - unat DIRECT_MAP_START = unat x \<and> (v = w \<longleftrightarrow> x = y)"
proof -
  have total: "\<exists>v. direct_map_address r = Ok v" if "pa_get r < SUPPORTED_PHYSICAL_END" for r
    using that by (intro exI [of _ "VirtualAddress (DIRECT_MAP_START + pa_get r)"])
      (simp add: direct_map_address_Ok, simp add: const_defs word_nat unat_add_lem [THEN iffD1])
  from assms have xy: "pa_get p = x" "pa_get q = y" "x < SUPPORTED_PHYSICAL_END"
      "y < SUPPORTED_PHYSICAL_END"
    by (auto simp: pa_new.mk_iff)
  then obtain v w where vw: "direct_map_address p = Ok v" "direct_map_address q = Ok w"
    using total by metis
  then have v: "unat (va_get v) = unat DIRECT_MAP_START + unat x"
      and w: "unat (va_get w) = unat DIRECT_MAP_START + unat y"
    using xy by (auto simp: direct_map_address_Ok)
  then have "v = w \<longleftrightarrow> x = y"
    by (metis add_left_cancel virtual_address.expand word_eq_nat)
  with vw xy v show ?thesis
    by (intro exI [of _ v] exI [of _ w])
      (auto simp: vr_contains_def declared_def va_new.mk_iff is_canonical_def const_defs word_nat)
qed

theorem direct_map_address_correct_witness:
  "PhysicalAddress_new 0x200000 = Ok (PhysicalAddress 0x200000)
   \<and> (\<exists>v w. direct_map_address (PhysicalAddress 0x200000) = Ok v
       \<and> direct_map_address (PhysicalAddress 0x201000) = Ok w \<and> v \<noteq> w)"
  using direct_map_address_correct
    [of "0x200000" "PhysicalAddress 0x200000" "0x201000" "PhysicalAddress 0x201000"]
  by (auto simp: PhysicalAddress_new_def const_defs)

end
