(* ===== verification/Mapping_Plan.thy ===== *)
theory Mapping_Plan
  imports Memory_Layout
begin

text \<open>
  \<^verbatim>\<open>MappingPlan\<close> of \<^verbatim>\<open>crates/memory-layout/src/lib.rs\<close>: the sorted fixed-capacity
  array of mappings, its insertion with the overlap and alias checks, translation, and the
  validation of the transition and final plans. The lemmas give the invariant of every plan that
  the insertions can build, the functional meaning of insertion and translation, and what a
  validated plan guarantees.
\<close>

section \<open>The mapping plan\<close>

datatype mapping_kind =
    KernelText
  | KernelRodata
  | KernelData
  | BootstrapStack
  | BootInfo
  | BootMemoryMap
  | PageTable
  | DirectMap
  | Framebuffer
  | Mmio
  | TransitionIdentity
  | Guard

datatype entry_backing = Mapped physical_range | UnmappedBacking

record plan_entry =
  virtual_range :: virtual_range
  backing :: entry_backing
  permissions :: "mapping_permissions option"
  cache :: "cache_policy option"
  kind :: mapping_kind

definition PlanEntry_EMPTY :: plan_entry where
  "PlanEntry_EMPTY =
     \<lparr>virtual_range = \<lparr>vr_start = VirtualAddress 0, vr_end = PAGE_SIZE\<rparr>,
      backing = UnmappedBacking, permissions = None, cache = None, kind = Guard\<rparr>"

fun is_guard :: "plan_entry \<Rightarrow> bool" where
  "is_guard entry = (case backing entry of UnmappedBacking \<Rightarrow> True | Mapped _ \<Rightarrow> False)"

text \<open>\<^verbatim>\<open>MappingPlan<CAPACITY>\<close>: \<open>mp_entries\<close> is the whole array, its length the capacity.\<close>

record mapping_plan =
  mp_entries :: "plan_entry list"
  mp_len :: nat

definition MappingPlan_new :: "nat \<Rightarrow> mapping_plan" where
  "MappingPlan_new capacity = \<lparr>mp_entries = replicate capacity PlanEntry_EMPTY, mp_len = 0\<rparr>"

definition plan_entries :: "mapping_plan \<Rightarrow> plan_entry list" where
  "plan_entries plan = take (mp_len plan) (mp_entries plan)"

text \<open>The region, permissions and cache policy that a mapping kind with one fixed policy has.\<close>

definition kernel_permission :: "mapping_permissions \<Rightarrow> bool" where
  "kernel_permission p \<longleftrightarrow> p = KERNEL_RX \<or> p = KERNEL_R \<or> p = KERNEL_RW"

definition check_expected ::
    "virtual_range \<Rightarrow> mapping_permissions \<Rightarrow> cache_policy \<Rightarrow>
     address_region \<Rightarrow> mapping_permissions \<Rightarrow> cache_policy \<Rightarrow> (unit, layout_error) result" where
  "check_expected v perms c region expected_permissions expected_cache =
     (if \<not> vr_contains_range (region_range region) v then Err OutsideDeclaredRegion
      else if perms \<noteq> expected_permissions then Err InvalidRegionPermissions
      else if c \<noteq> expected_cache then Err InvalidCachePolicy
      else Ok ())"

definition validate_mapping_policy ::
    "virtual_range \<Rightarrow> physical_range \<Rightarrow> mapping_permissions \<Rightarrow> cache_policy \<Rightarrow> mapping_kind \<Rightarrow>
     (unit, layout_error) result" where
  "validate_mapping_policy v p perms c knd =
     and_then (MappingPermissions_from_bits (mp_bits perms)) (\<lambda>_.
     if mp_user perms then Err UserMappingForbidden
     else if knd \<in> {KernelText, KernelRodata, KernelData}
       \<and> (pr_base p < BOOTSTRAP_PHYSICAL_START \<or> pr_end p > BOOTSTRAP_PHYSICAL_END)
     then Err OutsideBootstrapPhysicalWindow
     else if knd \<in> {DirectMap, BootInfo, BootMemoryMap, PageTable}
       \<and> (checked_add DIRECT_MAP_START (pr_base p) \<noteq> Some (vr_base v)
          \<or> checked_add DIRECT_MAP_START (pr_end p) \<noteq> Some (vr_end v))
     then Err DirectMapAddressMismatch
     else if knd = BootstrapStack
       \<and> (pr_length p \<noteq> BOOTSTRAP_STACK_BYTES \<or> pr_end p > TRANSITION_IDENTITY_END)
     then Err InvalidBootstrapStack
     else case knd of
       KernelText \<Rightarrow> check_expected v perms c RegionKernelImage KERNEL_RX WriteBack
     | KernelRodata \<Rightarrow> check_expected v perms c RegionKernelImage KERNEL_R WriteBack
     | KernelData \<Rightarrow> check_expected v perms c RegionKernelImage KERNEL_RW WriteBack
     | BootstrapStack \<Rightarrow> check_expected v perms c RegionKernelLocal KERNEL_RW WriteBack
     | BootInfo \<Rightarrow> check_expected v perms c RegionDirectMap KERNEL_R WriteBack
     | BootMemoryMap \<Rightarrow> check_expected v perms c RegionDirectMap KERNEL_R WriteBack
     | PageTable \<Rightarrow> check_expected v perms c RegionDirectMap KERNEL_RW WriteBack
     | DirectMap \<Rightarrow>
         if \<not> kernel_permission perms then Err InvalidRegionPermissions
         else if c \<noteq> WriteBack then Err InvalidCachePolicy
         else if \<not> vr_contains_range (region_range RegionDirectMap) v
         then Err OutsideDeclaredRegion
         else Ok ()
     | Framebuffer \<Rightarrow> check_expected v perms c RegionFramebuffer KERNEL_RW Uncached
     | Mmio \<Rightarrow> check_expected v perms c RegionMmio KERNEL_RW Uncached
     | TransitionIdentity \<Rightarrow>
         if vr_base v \<noteq> pr_base p \<or> vr_end v \<noteq> pr_end p then Err IdentityAddressMismatch
         else if vr_end v > TRANSITION_IDENTITY_END then Err TransitionIdentityAboveLimit
         else if \<not> kernel_permission perms then Err InvalidRegionPermissions
         else if c \<noteq> WriteBack then Err InvalidCachePolicy
         else Ok ()
     | Guard \<Rightarrow> Err InvalidRegionPermissions)"

text \<open>
  \<^verbatim>\<open>MappingPlan::insert\<close>: the loop over the existing entries, the search for the position,
  the loop that moves the tail one place up, and the write. \<^verbatim>\<open>self\<close> is only written once no
  error is possible any more, so an error leaves the caller's plan as it was.
\<close>

definition insert_check :: "plan_entry \<Rightarrow> plan_entry \<Rightarrow> (unit, layout_error) result" where
  "insert_check entry existing =
     (if vr_overlaps (virtual_range existing) (virtual_range entry) then Err VirtualOverlap
      else case (backing existing, backing entry) of
        (Mapped left, Mapped right) \<Rightarrow>
          if pr_overlaps left right then
            and_then (expect (permissions existing)) (\<lambda>left_permissions.
            and_then (expect (permissions entry)) (\<lambda>right_permissions.
            if mp_writable left_permissions \<and> mp_executable right_permissions
               \<or> mp_writable right_permissions \<and> mp_executable left_permissions
            then Err PhysicalAliasWriteExecute
            else if mp_writable left_permissions \<noteq> mp_writable right_permissions
            then Err PhysicalAliasPermissionEscalation
            else Ok ()))
          else Ok ()
      | _ \<Rightarrow> Ok ())"

function insert_position :: "plan_entry list \<Rightarrow> nat \<Rightarrow> u64 \<Rightarrow> nat \<Rightarrow> (nat, layout_error) result" where
  "insert_position entries len start pos =
     (if pos < len then
        and_then (arr_get entries pos) (\<lambda>e.
          if vr_base (virtual_range e) < start then insert_position entries len start (Suc pos)
          else Ok pos)
      else Ok pos)"
  by pat_completeness auto
termination by (relation "measure (\<lambda>(entries, len, start, pos). len - pos)") auto

fun insert_shift :: "plan_entry list \<Rightarrow> nat \<Rightarrow> nat \<Rightarrow> (plan_entry list, layout_error) result" where
  "insert_shift entries pos 0 = Ok entries"
| "insert_shift entries pos (Suc i) =
     (if Suc i > pos then
        and_then (arr_get entries i) (\<lambda>e.
        and_then (arr_set entries (Suc i) e) (\<lambda>entries'. insert_shift entries' pos i))
      else Ok entries)"

definition plan_insert :: "mapping_plan \<Rightarrow> plan_entry \<Rightarrow> (mapping_plan, layout_error) result" where
  "plan_insert plan entry =
     and_then (try_fold (\<lambda>_. insert_check entry) () (plan_entries plan)) (\<lambda>_.
     if mp_len plan = length (mp_entries plan) then Err PlanExhausted
     else
       and_then (insert_position (mp_entries plan) (mp_len plan) (vr_base (virtual_range entry)) 0)
         (\<lambda>pos.
       and_then (insert_shift (mp_entries plan) pos (mp_len plan)) (\<lambda>shifted.
       and_then (arr_set shifted pos entry) (\<lambda>written.
       Ok \<lparr>mp_entries = written, mp_len = mp_len plan + 1\<rparr>))))"

definition insert_mapping ::
    "mapping_plan \<Rightarrow> virtual_range \<Rightarrow> physical_range \<Rightarrow> mapping_permissions \<Rightarrow> cache_policy \<Rightarrow>
     mapping_kind \<Rightarrow> (mapping_plan, layout_error) result" where
  "insert_mapping plan v p perms c knd =
     (if vr_length v \<noteq> pr_length p then Err RangeLengthMismatch
      else and_then (validate_mapping_policy v p perms c knd) (\<lambda>_.
        plan_insert plan
          \<lparr>virtual_range = v, backing = Mapped p, permissions = Some perms, cache = Some c,
           kind = knd\<rparr>))"

definition insert_guard ::
    "mapping_plan \<Rightarrow> virtual_range \<Rightarrow> (mapping_plan, layout_error) result" where
  "insert_guard plan guard_range =
     (if \<not> vr_contains_range (region_range RegionKernelLocal) guard_range then Err OutsideDeclaredRegion
      else plan_insert plan
        \<lparr>virtual_range = guard_range, backing = UnmappedBacking, permissions = None, cache = None,
         kind = Guard\<rparr>)"

definition translate ::
    "mapping_plan \<Rightarrow> virtual_address \<Rightarrow> (physical_address, layout_error) result" where
  "translate plan address =
     and_then
       (ok_or (List.find (\<lambda>entry. vr_contains (virtual_range entry) address) (plan_entries plan))
          Unmapped) (\<lambda>entry.
     case backing entry of
       UnmappedBacking \<Rightarrow> Err Unmapped
     | Mapped physical \<Rightarrow>
         and_then (ok_or (checked_sub (va_get address) (vr_base (virtual_range entry)))
                    RangeOverflow) (\<lambda>offset.
         and_then (ok_or (checked_add (pr_base physical) offset) RangeOverflow) (\<lambda>translated.
         PhysicalAddress_new translated)))"

text \<open>The mutable locals of \<^verbatim>\<open>validate_transition\<close>.\<close>

record transition_count =
  identity_bytes :: u64
  trampoline_count :: u8
  stack_count :: u8

definition transition_step ::
    "transition_count \<Rightarrow> plan_entry \<Rightarrow> (transition_count, layout_error) result" where
  "transition_step c entry =
     (if vr_base (virtual_range entry) < HIGH_CANONICAL_START then
        if kind entry \<noteq> TransitionIdentity then Err IdentityAddressMismatch
        else
          and_then (ok_or (checked_add (identity_bytes c) (vr_length (virtual_range entry)))
                     TransitionIdentityTooLarge) (\<lambda>bytes.
          if bytes > MAX_TRANSITION_IDENTITY_BYTES then Err TransitionIdentityTooLarge
          else
            and_then (expect (permissions entry)) (\<lambda>perms.
            if perms = KERNEL_RX \<and> vr_length (virtual_range entry) = PAGE_SIZE then
              and_then (ok_or (checked_add (trampoline_count c) 1) InvalidTransitionComposition)
                (\<lambda>n. Ok (c\<lparr>identity_bytes := bytes, trampoline_count := n\<rparr>))
            else if perms = KERNEL_RW \<and> vr_length (virtual_range entry) = BOOTSTRAP_STACK_BYTES
            then
              and_then (ok_or (checked_add (stack_count c) 1) InvalidTransitionComposition)
                (\<lambda>n. Ok (c\<lparr>identity_bytes := bytes, stack_count := n\<rparr>))
            else Err InvalidTransitionComposition))
      else Ok c)"

definition validate_transition :: "mapping_plan \<Rightarrow> (unit, layout_error) result" where
  "validate_transition plan =
     and_then
       (try_fold transition_step \<lparr>identity_bytes = 0, trampoline_count = 0, stack_count = 0\<rparr>
         (plan_entries plan)) (\<lambda>c.
     if trampoline_count c \<noteq> 1 \<or> stack_count c \<noteq> 1 then Err InvalidTransitionComposition
     else Ok ())"

definition final_entry_check :: "plan_entry \<Rightarrow> (unit, layout_error) result" where
  "final_entry_check entry =
     (if kind entry = TransitionIdentity then Err TransitionMappingInFinalPlan
      else if vr_base (virtual_range entry) < HIGH_CANONICAL_START then Err LowMappingInFinalPlan
      else Ok ())"

definition final_guard_check :: "mapping_plan \<Rightarrow> plan_entry \<Rightarrow> (unit, layout_error) result" where
  "final_guard_check plan entry =
     (if kind entry = BootstrapStack then
        and_then (ok_or (checked_sub (vr_base (virtual_range entry)) PAGE_SIZE) MissingStackGuard)
          (\<lambda>guard_start.
        if \<not> list_ex (\<lambda>candidate.
              kind candidate = Guard
              \<and> vr_base (virtual_range candidate) = guard_start
              \<and> vr_end (virtual_range candidate) = vr_base (virtual_range entry))
            (plan_entries plan)
        then Err MissingStackGuard else Ok ())
      else Ok ())"

definition validate_final :: "mapping_plan \<Rightarrow> (unit, layout_error) result" where
  "validate_final plan =
     and_then (try_fold (\<lambda>_. final_entry_check) () (plan_entries plan)) (\<lambda>_.
     try_fold (\<lambda>_. final_guard_check plan) () (plan_entries plan))"

section \<open>The insertion loops\<close>

abbreviation live_below :: "u64 \<Rightarrow> plan_entry \<Rightarrow> bool" where
  "live_below start e \<equiv> vr_base (virtual_range e) < start"

definition insert_sorted :: "plan_entry \<Rightarrow> plan_entry list \<Rightarrow> plan_entry list" where
  "insert_sorted e es =
     takeWhile (live_below (vr_base (virtual_range e))) es
     @ e # dropWhile (live_below (vr_base (virtual_range e))) es"

declare insert_position.simps [simp del]

lemma insert_position_eq:
  assumes "pos \<le> len" and "len \<le> length entries"
  shows "insert_position entries len start pos =
    Ok (pos + length (takeWhile (live_below start) (drop pos (take len entries))))"
  using assms
proof (induction entries len start pos rule: insert_position.induct)
  case (1 entries len start pos)
  show ?case
  proof (cases "pos < len")
    case True
    then have "drop pos (take len entries) = entries ! pos # drop (Suc pos) (take len entries)"
      using "1.prems" by (subst Cons_nth_drop_Suc [symmetric]) simp_all
    then show ?thesis
      using "1.IH" [OF True, of "entries ! pos"] "1.prems" True
      by (subst insert_position.simps) simp
  next
    case False
    then show ?thesis using "1.prems" by (subst insert_position.simps) simp
  qed
qed

lemma insert_shift_eq:
  assumes "pos \<le> i" and "i < length xs"
  shows "insert_shift xs pos i = Ok (take (Suc pos) xs @ take (i - pos) (drop pos xs) @ drop (Suc i) xs)"
  using assms
proof (induction i arbitrary: xs)
  case 0
  then show ?case by simp
next
  case (Suc i)
  show ?case
  proof (cases "pos = Suc i")
    case True
    then show ?thesis by simp
  next
    case False
    with Suc.prems have le: "pos \<le> i" by simp
    have "take (Suc i - pos) (drop pos xs) = take (i - pos) (drop pos xs) @ [xs ! i]"
      using le Suc.prems take_Suc_conv_app_nth [of "i - pos" "drop pos xs"]
      by (simp add: Suc_diff_le)
    moreover have "drop (Suc i) (xs[Suc i := xs ! i]) = xs ! i # drop (Suc (Suc i)) xs"
      using Suc.prems by (subst Cons_nth_drop_Suc [symmetric]) simp_all
    ultimately show ?thesis
      using Suc.IH [of "xs[Suc i := xs ! i]"] le Suc.prems
      by (simp add: drop_update_swap)
  qed
qed

lemma mset_insert_sorted [simp]: "mset (insert_sorted e es) = add_mset e (mset es)"
  unfolding insert_sorted_def
  by simp (metis mset_append takeWhile_dropWhile_id)

lemma length_insert_sorted [simp]: "length (insert_sorted e es) = Suc (length es)"
  using mset_insert_sorted [THEN arg_cong, of size] by (metis size_add_mset size_mset)

lemma set_insert_sorted [simp]: "set (insert_sorted e es) = insert e (set es)"
  using mset_insert_sorted [THEN arg_cong, of set_mset] by (metis set_mset_add_mset_insert set_mset_mset)

text \<open>What the two loops and the write leave in the array.\<close>

lemma insert_loops:
  assumes "mp_len plan < length (mp_entries plan)"
  shows "\<exists>shifted pos written.
     insert_position (mp_entries plan) (mp_len plan) (vr_base (virtual_range entry)) 0 = Ok pos
     \<and> insert_shift (mp_entries plan) pos (mp_len plan) = Ok shifted
     \<and> (arr_set shifted pos entry :: (plan_entry list, layout_error) result) = Ok written
     \<and> length written = length (mp_entries plan)
     \<and> take (mp_len plan + 1) written = insert_sorted entry (plan_entries plan)"
proof -
  let ?xs = "mp_entries plan" and ?n = "mp_len plan"
  define pos where "pos = length (takeWhile (live_below (vr_base (virtual_range entry))) (take ?n ?xs))"
  have pos: "pos \<le> ?n"
    unfolding pos_def using assms by (metis length_take length_takeWhile_le min.bounded_iff)
  define shifted where
    "shifted = take (Suc pos) ?xs @ take (?n - pos) (drop pos ?xs) @ drop (Suc ?n) ?xs"
  have len: "length shifted = length ?xs"
    using pos assms by (simp add: shifted_def)
  have "shifted[pos := entry]
      = take pos (take ?n ?xs) @ entry # drop pos (take ?n ?xs) @ drop (Suc ?n) ?xs"
    using pos assms
    by (simp add: shifted_def take_Suc_conv_app_nth list_update_append drop_take min_absorb1)
  moreover have "take pos (take ?n ?xs) = takeWhile (live_below (vr_base (virtual_range entry))) (take ?n ?xs)"
    unfolding pos_def by (metis takeWhile_eq_take)
  moreover have "drop pos (take ?n ?xs) = dropWhile (live_below (vr_base (virtual_range entry))) (take ?n ?xs)"
    unfolding pos_def by (metis dropWhile_eq_drop)
  ultimately have "shifted[pos := entry] = insert_sorted entry (plan_entries plan) @ drop (Suc ?n) ?xs"
    by (simp add: insert_sorted_def plan_entries_def)
  then have "take (?n + 1) (shifted[pos := entry]) = insert_sorted entry (plan_entries plan)"
    using assms by (simp add: plan_entries_def)
  then show ?thesis
    using insert_position_eq [of 0 ?n ?xs] insert_shift_eq [of pos ?n ?xs] pos assms len
    by (intro exI [of _ shifted] exI [of _ pos] exI [of _ "shifted[pos := entry]"])
      (simp add: pos_def shifted_def)
qed

lemma plan_insert_Ok:
  assumes "mp_len plan \<le> length (mp_entries plan)"
  shows "plan_insert plan e = Ok plan' \<longrightarrow>
     (\<forall>x \<in> set (plan_entries plan). insert_check e x = Ok ())
     \<and> mp_len plan < length (mp_entries plan)
     \<and> length (mp_entries plan') = length (mp_entries plan) \<and> mp_len plan' = mp_len plan + 1
     \<and> plan_entries plan' = insert_sorted e (plan_entries plan)"
proof (cases "mp_len plan < length (mp_entries plan)")
  case True
  from insert_loops [OF this, of e] show ?thesis
    using True
    by (auto simp: plan_insert_def try_fold_unit_Ok plan_entries_def)
next
  case False
  with assms show ?thesis by (auto simp: plan_insert_def)
qed

lemma plan_insert_total:
  assumes "mp_len plan \<le> length (mp_entries plan)"
  shows "(\<exists>plan'. plan_insert plan e = Ok plan') \<longleftrightarrow>
     (\<forall>x \<in> set (plan_entries plan). insert_check e x = Ok ())
     \<and> mp_len plan < length (mp_entries plan)"
proof (cases "mp_len plan < length (mp_entries plan)")
  case True
  from insert_loops [OF this, of e] show ?thesis
    using True by (auto simp: plan_insert_def try_fold_unit_Ok)
next
  case False
  with assms show ?thesis by (auto simp: plan_insert_def)
qed

section \<open>The plan invariant\<close>

definition entry_ok :: "plan_entry \<Rightarrow> bool" where
  "entry_ok e \<longleftrightarrow> vr_ok (virtual_range e) \<and>
     (case backing e of
        Mapped p \<Rightarrow> pr_ok p \<and> vr_length (virtual_range e) = pr_length p \<and>
          (case (permissions e, cache e) of
             (Some perms, Some c) \<Rightarrow>
               validate_mapping_policy (virtual_range e) p perms c (kind e) = Ok ()
           | _ \<Rightarrow> False)
      | UnmappedBacking \<Rightarrow> kind e = Guard \<and> permissions e = None \<and> cache e = None
          \<and> vr_contains_range (region_range RegionKernelLocal) (virtual_range e))"

definition plan_ok :: "mapping_plan \<Rightarrow> bool" where
  "plan_ok plan \<longleftrightarrow>
     mp_len plan \<le> length (mp_entries plan)
     \<and> list_all entry_ok (plan_entries plan)
     \<and> sorted_wrt (\<lambda>a b. vr_end (virtual_range a) \<le> vr_base (virtual_range b)) (plan_entries plan)
     \<and> sorted_wrt (\<lambda>a b. insert_check b a = Ok ()) (plan_entries plan)"

text \<open>Plans are built from \<^verbatim>\<open>new\<close> by the two public insertions; the ranges come from their \<^verbatim>\<open>new\<close>.\<close>

inductive plan_built :: "mapping_plan \<Rightarrow> bool" where
  new: "plan_built (MappingPlan_new capacity)"
| mapping: "plan_built plan \<Longrightarrow> vr_ok v \<Longrightarrow> pr_ok p \<Longrightarrow>
    insert_mapping plan v p perms c knd = Ok plan' \<Longrightarrow> plan_built plan'"
| guard: "plan_built plan \<Longrightarrow> vr_ok v \<Longrightarrow> insert_guard plan v = Ok plan' \<Longrightarrow> plan_built plan'"

lemma insert_check_Ok:
  "insert_check e x = Ok () \<longleftrightarrow>
     \<not> vr_overlaps (virtual_range x) (virtual_range e) \<and>
     (\<forall>p q. backing x = Mapped p \<longrightarrow> backing e = Mapped q \<longrightarrow> pr_overlaps p q \<longrightarrow>
       (\<exists>l r. permissions x = Some l \<and> permissions e = Some r
         \<and> \<not> (mp_writable l \<and> mp_executable r) \<and> \<not> (mp_writable r \<and> mp_executable l)
         \<and> mp_writable l = mp_writable r))"
  by (cases "backing x"; cases "backing e"; cases "permissions x"; cases "permissions e")
    (auto simp: insert_check_def)

lemma insert_check_swap: "insert_check e x = Ok () \<Longrightarrow> insert_check x e = Ok ()"
  unfolding insert_check_Ok
  using vr.overlaps_sym [of "virtual_range x" "virtual_range e"] pr.overlaps_sym by fastforce

lemma insert_check_sym: "insert_check e x = Ok () \<longleftrightarrow> insert_check x e = Ok ()"
  using insert_check_swap by blast

lemma insert_sorted_ordered:
  assumes "sorted_wrt (\<lambda>a b. vr_end (virtual_range a) \<le> vr_base (virtual_range b)) es"
    and "list_all entry_ok es" and "entry_ok e"
    and "\<forall>x \<in> set es. insert_check e x = Ok ()"
  shows "sorted_wrt (\<lambda>a b. vr_end (virtual_range a) \<le> vr_base (virtual_range b)) (insert_sorted e es)"
  using assms
proof (induction es)
  case Nil
  then show ?case by (simp add: insert_sorted_def)
next
  case (Cons x xs)
  have ok: "vr_base (virtual_range x) < vr_end (virtual_range x)"
      "vr_base (virtual_range e) < vr_end (virtual_range e)"
      "\<not> vr_overlaps (virtual_range x) (virtual_range e)"
    using Cons.prems by (auto simp: entry_ok_def vr_ok_iff insert_check_Ok)
  show ?case
  proof (cases "live_below (vr_base (virtual_range e)) x")
    case True
    then have "insert_sorted e (x # xs) = x # insert_sorted e xs"
      by (simp add: insert_sorted_def)
    moreover have "vr_end (virtual_range x) \<le> vr_base (virtual_range e)"
      using True ok by (auto simp: vr_overlaps_def not_less)
    ultimately show ?thesis using Cons by auto
  next
    case False
    then have "insert_sorted e (x # xs) = e # x # xs"
      by (simp add: insert_sorted_def)
    moreover have le: "vr_end (virtual_range e) \<le> vr_base (virtual_range x)"
      using False ok by (auto simp: vr_overlaps_def not_less)
    moreover have "vr_end (virtual_range e) \<le> vr_base (virtual_range y)" if "y \<in> set xs" for y
      using le ok(1) Cons.prems(1) that by (auto intro: order_trans less_imp_le)
    ultimately show ?thesis using Cons.prems by auto
  qed
qed

lemma insert_sorted_compatible:
  assumes "sorted_wrt (\<lambda>a b. insert_check b a = Ok ()) es" and "\<forall>x \<in> set es. insert_check e x = Ok ()"
  shows "sorted_wrt (\<lambda>a b. insert_check b a = Ok ()) (insert_sorted e es)"
  using assms
proof (induction es)
  case Nil
  then show ?case by (simp add: insert_sorted_def)
next
  case (Cons x xs)
  show ?case
  proof (cases "live_below (vr_base (virtual_range e)) x")
    case True
    then have "insert_sorted e (x # xs) = x # insert_sorted e xs"
      by (simp add: insert_sorted_def)
    with Cons show ?thesis by auto
  next
    case False
    then have "insert_sorted e (x # xs) = e # x # xs"
      by (simp add: insert_sorted_def)
    with Cons.prems show ?thesis by (auto simp: insert_check_sym [of _ e])
  qed
qed

lemma plan_insert_plan_ok:
  assumes "plan_insert plan e = Ok plan'" and "plan_ok plan" and "entry_ok e"
  shows "plan_ok plan'"
  using assms plan_insert_Ok [of plan e plan'] insert_sorted_ordered insert_sorted_compatible
  by (auto simp: plan_ok_def list_all_iff)

lemma insert_mapping_plan_ok:
  assumes "plan_ok plan" and "vr_ok v" and "pr_ok p" and "insert_mapping plan v p perms c knd = Ok plan'"
  shows "plan_ok plan'"
  using assms by (auto simp: insert_mapping_def entry_ok_def elim!: plan_insert_plan_ok split: if_splits)

lemma insert_guard_plan_ok:
  assumes "plan_ok plan" and "vr_ok v" and "insert_guard plan v = Ok plan'"
  shows "plan_ok plan'"
  using assms by (auto simp: insert_guard_def entry_ok_def elim!: plan_insert_plan_ok split: if_splits)

lemma plan_built_ok: "plan_built plan \<Longrightarrow> plan_ok plan"
proof (induction rule: plan_built.induct)
  case (new capacity)
  then show ?case by (simp add: plan_ok_def MappingPlan_new_def plan_entries_def)
qed (auto intro: insert_mapping_plan_ok insert_guard_plan_ok)
section \<open>The address space a plan denotes\<close>

definition plan_maps ::
    "mapping_plan \<Rightarrow> u64 \<Rightarrow> u64 \<Rightarrow> mapping_permissions \<Rightarrow> cache_policy \<Rightarrow> bool" where
  "plan_maps plan va pa perms c \<longleftrightarrow>
     list_ex (\<lambda>e. vr_contains (virtual_range e) (VirtualAddress va) \<and>
       (case backing e of
          Mapped p \<Rightarrow> pa = pr_base p + (va - vr_base (virtual_range e))
            \<and> permissions e = Some perms \<and> cache e = Some c
        | UnmappedBacking \<Rightarrow> False)) (plan_entries plan)"

lemma plan_maps_iff:
  "plan_maps plan va pa perms c \<longleftrightarrow>
     (\<exists>e p. e \<in> set (plan_entries plan) \<and> vr_contains (virtual_range e) (VirtualAddress va)
       \<and> backing e = Mapped p \<and> pa = pr_base p + (va - vr_base (virtual_range e))
       \<and> permissions e = Some perms \<and> cache e = Some c)"
  by (auto simp: plan_maps_def list_ex_iff split: entry_backing.splits) (metis entry_backing.exhaust)

lemma plan_entry_ok: "plan_ok plan \<Longrightarrow> e \<in> set (plan_entries plan) \<Longrightarrow> entry_ok e"
  by (auto simp: plan_ok_def list_all_iff)

lemma entry_ok_Mapped:
  assumes "entry_ok e" and "backing e = Mapped p"
  obtains perms c where "permissions e = Some perms" "cache e = Some c"
    "validate_mapping_policy (virtual_range e) p perms c (kind e) = Ok ()"
    "vr_ok (virtual_range e)" "pr_ok p" "vr_length (virtual_range e) = pr_length p"
  using assms by (auto simp: entry_ok_def split: option.splits)

text \<open>The offset arithmetic of \<^verbatim>\<open>translate\<close> stays inside the physical range of the entry.\<close>

lemma entry_offset:
  assumes "vr_ok v" and "pr_ok p" and "vr_length v = pr_length p"
    and "vr_contains v (VirtualAddress va)"
  shows "unat (pr_base p + (va - vr_base v)) = unat (pr_base p) + (unat va - unat (vr_base v))"
    and "unat (pr_base p) + (unat va - unat (vr_base v)) < unat (pr_end p)"
    and "unat (va - vr_base v) = unat va - unat (vr_base v)"
proof -
  have le: "vr_base v \<le> va" "unat va < unat (vr_end v)"
    using assms(4) by (auto simp: vr_contains_def word_nat)
  show off: "unat (va - vr_base v) = unat va - unat (vr_base v)"
    using le(1) by (rule unat_sub)
  have len: "unat (vr_end v) - unat (vr_base v) = unat (pr_end p) - unat (pr_base p)"
    using assms(1-3) unat_vr_length unat_pr_length by metis
  show bound: "unat (pr_base p) + (unat va - unat (vr_base v)) < unat (pr_end p)"
    using len le vr_okD [OF assms(1)] pr_okD [OF assms(2)] by (simp add: word_nat) 
  then have "unat (pr_base p) + unat (va - vr_base v) < 2 ^ LENGTH(64)"
    using off unat_bound [of "pr_end p"] by simp
  then show "unat (pr_base p + (va - vr_base v)) = unat (pr_base p) + (unat va - unat (vr_base v))"
    using off unat_add_lem by metis
qed

lemma plan_entry_unique:
  assumes "plan_ok plan" "a \<in> set (plan_entries plan)" "b \<in> set (plan_entries plan)"
    and "vr_contains (virtual_range a) va" "vr_contains (virtual_range b) va"
  shows "a = b"
proof (rule ccontr)
  assume "a \<noteq> b"
  then have "insert_check a b = Ok ()"
    using assms(1-3)
      sorted_wrt_symD [of "\<lambda>a b. insert_check b a = Ok ()" "plan_entries plan" b a]
    by (auto simp: plan_ok_def dest: insert_check_swap)
  then have "\<not> vr_overlaps (virtual_range b) (virtual_range a)"
    by (simp add: insert_check_Ok)
  with assms(4,5) show False
    by (auto simp: vr_contains_def vr_overlaps_def word_nat)
qed

lemma translate_entry:
  assumes "plan_ok plan" and "e \<in> set (plan_entries plan)" and "vr_contains (virtual_range e) va"
  shows "translate plan va =
    (case backing e of
       UnmappedBacking \<Rightarrow> Err Unmapped
     | Mapped p \<Rightarrow> Ok (PhysicalAddress (pr_base p + (va_get va - vr_base (virtual_range e)))))"
proof -
  have "List.find (\<lambda>entry. vr_contains (virtual_range entry) va) (plan_entries plan) = Some e"
    using assms plan_entry_unique by (intro find_unique) blast+
  moreover have "entry_ok e" using assms plan_entry_ok by blast
  ultimately show ?thesis
  proof (cases "backing e")
    case (Mapped p)
    with \<open>entry_ok e\<close> obtain ok: "vr_ok (virtual_range e)" "pr_ok p"
        "vr_length (virtual_range e) = pr_length p"
      by (rule entry_ok_Mapped)
    let ?pa = "pr_base p + (va_get va - vr_base (virtual_range e))"
    have in_range: "vr_contains (virtual_range e) (VirtualAddress (va_get va))"
      using assms(3) by simp
    note off = entry_offset [OF ok in_range]
    have sub: "checked_sub (va_get va) (vr_base (virtual_range e))
        = Some (va_get va - vr_base (virtual_range e))"
      using assms(3) by (simp add: checked_sub_def vr_contains_def del: checked_sub_Some)
    have add: "checked_add (pr_base p) (va_get va - vr_base (virtual_range e)) = Some ?pa"
      using off by simp
    have "?pa < SUPPORTED_PHYSICAL_END"
      using off ok(2) by (simp add: pr_ok_iff word_nat)
    then show ?thesis
      using \<open>List.find _ _ = _\<close> Mapped
      by (simp add: translate_def sub add PhysicalAddress_new_def
          del: checked_sub_Some checked_add_Some)
  qed (simp add: translate_def)
qed

lemma translate_none:
  "(\<And>e. e \<in> set (plan_entries plan) \<Longrightarrow> \<not> vr_contains (virtual_range e) va) \<Longrightarrow>
   translate plan va = Err Unmapped"
  by (simp add: translate_def find_None_iff [THEN iffD2])

lemma translate_Ok:
  assumes "plan_ok plan"
  shows "translate plan va = Ok pa \<longleftrightarrow> (\<exists>perms c. plan_maps plan (va_get va) (pa_get pa) perms c)"
proof
  assume t: "translate plan va = Ok pa"
  then obtain e where e: "e \<in> set (plan_entries plan)" "vr_contains (virtual_range e) va"
    using translate_none by fastforce
  then obtain p where p: "backing e = Mapped p"
      "pa_get pa = pr_base p + (va_get va - vr_base (virtual_range e))"
    using t translate_entry [OF assms e] by (auto split: entry_backing.splits)
  with e show "\<exists>perms c. plan_maps plan (va_get va) (pa_get pa) perms c"
    using entry_ok_Mapped [OF plan_entry_ok [OF assms e(1)] p(1)]
    unfolding plan_maps_iff by (metis virtual_address.collapse)
next
  assume "\<exists>perms c. plan_maps plan (va_get va) (pa_get pa) perms c"
  then obtain e p where e: "e \<in> set (plan_entries plan)" "vr_contains (virtual_range e) va"
      "backing e = Mapped p" "pa_get pa = pr_base p + (va_get va - vr_base (virtual_range e))"
    by (auto simp: plan_maps_iff)
  then show "translate plan va = Ok pa"
    using translate_entry [OF assms e(1,2)] by (simp add: physical_address.expand)
qed
section \<open>What every plan guarantees\<close>

lemma plan_maps_entry:
  assumes "plan_ok plan" and "plan_maps plan va pa perms c"
  obtains e p where "e \<in> set (plan_entries plan)" "vr_contains (virtual_range e) (VirtualAddress va)"
    "backing e = Mapped p" "pr_contains p (PhysicalAddress pa)" "permissions e = Some perms"
    "cache e = Some c" "validate_mapping_policy (virtual_range e) p perms c (kind e) = Ok ()"
    "vr_ok (virtual_range e)" "pr_ok p" "vr_length (virtual_range e) = pr_length p"
    "unat pa = unat (pr_base p) + (unat va - unat (vr_base (virtual_range e)))"
proof -
  from assms(2) obtain e p where e: "e \<in> set (plan_entries plan)"
      "vr_contains (virtual_range e) (VirtualAddress va)" "backing e = Mapped p"
      "pa = pr_base p + (va - vr_base (virtual_range e))" "permissions e = Some perms" "cache e = Some c"
    by (auto simp: plan_maps_iff)
  from entry_ok_Mapped [OF plan_entry_ok [OF assms(1) e(1)] e(3)] e(5,6)
  have ok: "validate_mapping_policy (virtual_range e) p perms c (kind e) = Ok ()"
      "vr_ok (virtual_range e)" "pr_ok p" "vr_length (virtual_range e) = pr_length p"
    by auto
  note off = entry_offset [OF ok(2-4) e(2)]
  have "pr_contains p (PhysicalAddress pa)"
    using off e(4) by (simp add: pr_contains_def word_nat)
  with e ok off show thesis by (intro that) auto
qed

lemma policy_permissions:
  assumes "validate_mapping_policy v p perms c knd = Ok ()"
  shows "\<not> mp_user perms" and "\<not> (mp_writable perms \<and> mp_executable perms)"
    and "kernel_permission perms"
proof -
  show kp: "kernel_permission perms"
    using assms
    by (auto simp: validate_mapping_policy_def check_expected_def kernel_permission_def
        split: if_splits mapping_kind.splits)
  show "\<not> mp_user perms" using assms by (auto simp: validate_mapping_policy_def)
  show "\<not> (mp_writable perms \<and> mp_executable perms)"
    using kp by (auto simp: kernel_permission_def mp_writable_def mp_executable_def const_defs)
qed

text \<open>
  C2. Write-xor-execute over physical memory. In every plan that the insertions can build, if two
  virtual addresses map to the same physical address, then neither makes it writable while the
  other makes it executable, both agree on writability, and neither is accessible to user mode.
\<close>
theorem plan_write_xor_execute:
  assumes "plan_built plan"
    and "plan_maps plan v1 pa perms1 c1" and "plan_maps plan v2 pa perms2 c2"
  shows "\<not> (mp_writable perms1 \<and> mp_executable perms2)
    \<and> mp_writable perms1 = mp_writable perms2 \<and> \<not> mp_user perms1"
proof -
  have ok: "plan_ok plan" using assms(1) by (rule plan_built_ok)
  obtain a p where a: "a \<in> set (plan_entries plan)" "backing a = Mapped p"
      "pr_contains p (PhysicalAddress pa)" "permissions a = Some perms1"
      "validate_mapping_policy (virtual_range a) p perms1 c1 (kind a) = Ok ()"
    using plan_maps_entry [OF ok assms(2)] by metis
  obtain b q where b: "b \<in> set (plan_entries plan)" "backing b = Mapped q"
      "pr_contains q (PhysicalAddress pa)" "permissions b = Some perms2"
    using plan_maps_entry [OF ok assms(3)] by metis
  have overlap: "pr_overlaps p q"
    using a(3) b(3) by (auto simp: pr_contains_def pr_overlaps_def word_nat)
  show ?thesis
  proof (cases "a = b")
    case True
    with a b have "perms1 = perms2" by simp
    with policy_permissions [OF a(5)] show ?thesis by simp
  next
    case False
    then have "insert_check b a = Ok ()"
      using ok a(1) b(1)
        sorted_wrt_symD [of "\<lambda>a b. insert_check b a = Ok ()" "plan_entries plan" a b]
      by (auto simp: plan_ok_def dest: insert_check_swap)
    with overlap a b policy_permissions [OF a(5)] show ?thesis
      by (auto simp: insert_check_Ok)
  qed
qed

lemma translate_total:
  assumes "plan_ok plan"
  shows "(\<exists>pa. translate plan va = Ok pa) \<or> translate plan va = Err Unmapped"
proof (cases "\<exists>e \<in> set (plan_entries plan). vr_contains (virtual_range e) va")
  case True
  then obtain e where "e \<in> set (plan_entries plan)" "vr_contains (virtual_range e) va" by blast
  from translate_entry [OF assms this] show ?thesis by (simp split: entry_backing.splits)
next
  case False
  then show ?thesis using translate_none by blast
qed

text \<open>
  C6. Translation. On every plan that the insertions can build, \<^verbatim>\<open>translate\<close> returns the
  physical address at the same offset exactly when an entry maps the address, and otherwise
  reports \<^verbatim>\<open>Unmapped\<close>: its overflow errors and the physical-limit error never occur, and an
  address has at most one translation.
\<close>
theorem translate_correct:
  assumes "plan_built plan"
  shows "(translate plan va = Ok pa \<longleftrightarrow> (\<exists>perms c. plan_maps plan (va_get va) (pa_get pa) perms c))
    \<and> ((\<exists>pa. translate plan va = Ok pa) \<or> translate plan va = Err Unmapped)"
  using translate_Ok translate_total plan_built_ok [OF assms] by blast

lemma insert_check_no_panic: "entry_ok e \<Longrightarrow> entry_ok x \<Longrightarrow> insert_check e x \<noteq> Panic"
  by (auto simp: insert_check_def entry_ok_def split: entry_backing.splits option.splits if_splits)

lemma plan_insert_outcome:
  assumes "plan_ok plan" and "entry_ok e"
  shows "case plan_insert plan e of
      Ok plan' \<Rightarrow> True
    | Err err \<Rightarrow> list_ex (\<lambda>x. insert_check e x = Err err) (plan_entries plan)
        \<or> err = PlanExhausted \<and> mp_len plan = length (mp_entries plan)
    | Panic \<Rightarrow> False"
proof (cases "try_fold (\<lambda>_. insert_check e) () (plan_entries plan)")
  case (Ok u)
  show ?thesis
  proof (cases "mp_len plan < length (mp_entries plan)")
    case True
    from insert_loops [OF this, of e] Ok True show ?thesis by (auto simp: plan_insert_def)
  next
    case False
    with assms(1) Ok show ?thesis by (auto simp: plan_insert_def plan_ok_def)
  qed
next
  case (Err err)
  then show ?thesis by (auto simp: plan_insert_def list_ex_iff dest: try_fold_unit_Err)
next
  case Panic
  moreover have "try_fold (\<lambda>_. insert_check e) () (plan_entries plan) \<noteq> Panic"
    using assms plan_entry_ok insert_check_no_panic by (intro try_fold_not_Panic) blast
  ultimately show ?thesis by simp
qed

text \<open>
  C7. Insertion. On a plan that the insertions have built, inserting a well-formed entry never
  panics; it succeeds exactly when no existing entry conflicts and there is room, and the live
  entries of the result are the old ones with the new entry at its place in address order; the
  result satisfies the plan invariant again. Every error names a conflict with a live entry, or
  a full array.
\<close>
theorem plan_insert_refines:
  assumes "plan_built plan" and "entry_ok e"
  shows "case plan_insert plan e of
      Ok plan' \<Rightarrow> plan_entries plan' = insert_sorted e (plan_entries plan) \<and> plan_ok plan'
        \<and> length (mp_entries plan') = length (mp_entries plan)
        \<and> mp_len plan < length (mp_entries plan)
        \<and> list_all (\<lambda>x. insert_check e x = Ok ()) (plan_entries plan)
    | Err err \<Rightarrow> list_ex (\<lambda>x. insert_check e x = Err err) (plan_entries plan)
        \<or> err = PlanExhausted \<and> mp_len plan = length (mp_entries plan)
    | Panic \<Rightarrow> False"
proof -
  have ok: "plan_ok plan" using assms(1) by (rule plan_built_ok)
  then have le: "mp_len plan \<le> length (mp_entries plan)" by (simp add: plan_ok_def)
  show ?thesis
  proof (cases "plan_insert plan e")
    case (Ok plan')
    with plan_insert_Ok [OF le, of e plan'] plan_insert_plan_ok [OF Ok ok assms(2)]
    show ?thesis by (simp add: list_all_iff)
  next
    case (Err err)
    then have "list_ex (\<lambda>x. insert_check e x = Err err) (plan_entries plan)
        \<or> err = PlanExhausted \<and> mp_len plan = length (mp_entries plan)"
      using plan_insert_outcome [OF ok assms(2)] by simp
    with Err show ?thesis by simp
  next
    case Panic
    then show ?thesis using plan_insert_outcome [OF ok assms(2)] by simp
  qed
qed

abbreviation in_region :: "address_region \<Rightarrow> u64 \<Rightarrow> bool" where
  "in_region r va \<equiv> vr_contains (region_range r) (VirtualAddress va)"

lemma contains_range_address:
  "vr_contains_range r v \<Longrightarrow> vr_contains v a \<Longrightarrow> vr_contains r a"
  by (auto simp: vr_contains_range_def vr_contains_def word_nat)

text \<open>What the policy of each kind says about one mapped address.\<close>

lemma policy_region:
  assumes "validate_mapping_policy v p perms c knd = Ok ()" and "vr_contains v (VirtualAddress va)"
  shows "(knd \<in> {KernelText, KernelRodata, KernelData} \<and> in_region RegionKernelImage va
            \<and> BOOTSTRAP_PHYSICAL_START \<le> pr_base p \<and> pr_end p \<le> BOOTSTRAP_PHYSICAL_END \<and> c = WriteBack)
    \<or> (knd = BootstrapStack \<and> in_region RegionKernelLocal va \<and> c = WriteBack)
    \<or> (knd \<in> {BootInfo, BootMemoryMap, PageTable, DirectMap} \<and> in_region RegionDirectMap va
        \<and> unat (vr_base v) = unat DIRECT_MAP_START + unat (pr_base p) \<and> c = WriteBack)
    \<or> (knd = Framebuffer \<and> in_region RegionFramebuffer va \<and> c = Uncached)
    \<or> (knd = Mmio \<and> in_region RegionMmio va \<and> c = Uncached)
    \<or> (knd = TransitionIdentity \<and> vr_base v = pr_base p \<and> va < TRANSITION_IDENTITY_END \<and> c = WriteBack)"
proof -
  have in_v: "va < vr_end v" using assms(2) by (simp add: vr_contains_def)
  have inr: "in_region r va" if "vr_contains_range (region_range r) v" for r
    using that assms(2) by (rule contains_range_address)
  show ?thesis
  proof (cases knd)
    case TransitionIdentity
    with assms(1) in_v show ?thesis
      by (auto simp: validate_mapping_policy_def split: if_splits intro: less_le_trans)
  qed (use assms(1) inr in
      \<open>auto simp: validate_mapping_policy_def check_expected_def simp del: region_range.simps
        split: if_splits\<close>)
qed

text \<open>
  C8. Region discipline. In every plan that the insertions can build, a mapped address below the
  upper canonical half is an identity mapping below 4 GiB; a mapped address of the upper half
  lies in the direct-map, MMIO, framebuffer, kernel-image or kernel-local region; a direct-map
  address is the physical address plus the start of the direct map; a kernel-image address maps
  into the bootstrap physical window; and exactly the MMIO and framebuffer regions are uncached.
\<close>
theorem plan_region_discipline:
  assumes "plan_built plan" and "plan_maps plan va pa perms c"
  shows "(va < HIGH_CANONICAL_START \<longrightarrow> va = pa \<and> va < TRANSITION_IDENTITY_END)
    \<and> (va \<ge> HIGH_CANONICAL_START \<longrightarrow>
         list_ex (\<lambda>r. in_region r va)
           [RegionDirectMap, RegionMmio, RegionFramebuffer, RegionKernelImage, RegionKernelLocal])
    \<and> (in_region RegionDirectMap va \<longrightarrow> unat va = unat DIRECT_MAP_START + unat pa)
    \<and> (in_region RegionKernelImage va \<longrightarrow>
         BOOTSTRAP_PHYSICAL_START \<le> pa \<and> pa < BOOTSTRAP_PHYSICAL_END)
    \<and> (c = Uncached \<longleftrightarrow> in_region RegionMmio va \<or> in_region RegionFramebuffer va)"
proof -
  have ok: "plan_ok plan" using assms(1) by (rule plan_built_ok)
  obtain e :: plan_entry and p where e: "vr_contains (virtual_range e) (VirtualAddress va)"
      "pr_contains p (PhysicalAddress pa)"
      "validate_mapping_policy (virtual_range e) p perms c (kind e) = Ok ()"
      "unat pa = unat (pr_base p) + (unat va - unat (vr_base (virtual_range e)))"
    by (rule plan_maps_entry [OF ok assms(2)]) blast
  have va: "unat (vr_base (virtual_range e)) \<le> unat va"
    using e(1) by (simp add: vr_contains_def word_nat)
  from policy_region [OF e(3) e(1)] show ?thesis
    using e(2,4) va
    by (elim disjE conjE)
      (simp_all add: vr_contains_def pr_contains_def declared_def const_defs word_nat word_eq_nat)
qed

section \<open>The transition and the final plan\<close>

abbreviation low_entry :: "plan_entry \<Rightarrow> bool" where
  "low_entry e \<equiv> vr_base (virtual_range e) < HIGH_CANONICAL_START"

definition trampoline_entry :: "plan_entry \<Rightarrow> bool" where
  "trampoline_entry e \<longleftrightarrow> kind e = TransitionIdentity \<and> permissions e = Some KERNEL_RX
     \<and> vr_length (virtual_range e) = PAGE_SIZE"

definition stack_entry :: "plan_entry \<Rightarrow> bool" where
  "stack_entry e \<longleftrightarrow> kind e = TransitionIdentity \<and> permissions e = Some KERNEL_RW
     \<and> vr_length (virtual_range e) = BOOTSTRAP_STACK_BYTES"

lemma trampoline_not_stack: "trampoline_entry e \<Longrightarrow> \<not> stack_entry e"
  by (auto simp: trampoline_entry_def stack_entry_def const_defs)

lemma transition_fold_low:
  "try_fold transition_step c es = try_fold transition_step c (filter low_entry es)"
  by (induction es arbitrary: c) (auto simp: transition_step_def)

lemma transition_step_low:
  assumes "low_entry e" and "transition_step c e = Ok c'"
  shows "(trampoline_entry e \<and> unat (trampoline_count c') = unat (trampoline_count c) + 1
      \<and> stack_count c' = stack_count c)
    \<or> (stack_entry e \<and> trampoline_count c' = trampoline_count c
      \<and> unat (stack_count c') = unat (stack_count c) + 1)"
  using assms
  by (auto simp: transition_step_def trampoline_entry_def stack_entry_def split: if_splits)

lemma transition_fold_counts:
  assumes "try_fold transition_step c es = Ok c'" and "list_all low_entry es"
  shows "list_all (\<lambda>e. trampoline_entry e \<or> stack_entry e) es
    \<and> unat (trampoline_count c') = unat (trampoline_count c) + length (filter trampoline_entry es)
    \<and> unat (stack_count c') = unat (stack_count c) + length (filter stack_entry es)"
  using assms
proof (induction es arbitrary: c)
  case (Cons e es)
  then obtain d where d: "transition_step c e = Ok d" "try_fold transition_step d es = Ok c'" by auto
  with Cons.IH [OF d(2)] transition_step_low [OF _ d(1)] Cons.prems show ?case
    by (auto dest: trampoline_not_stack)
qed simp

lemma transition_step_accepts:
  assumes "low_entry e" "trampoline_entry e"
    "unat (identity_bytes c) + 4096 \<le> 17 * 4096" "unat (trampoline_count c) < 255"
  shows "transition_step c e = Ok (c\<lparr>identity_bytes := identity_bytes c + PAGE_SIZE,
    trampoline_count := trampoline_count c + 1\<rparr>)"
  using assms
  by (simp add: transition_step_def trampoline_entry_def checked_add_def const_defs word_nat
      unat_add_lem [THEN iffD1])

lemma transition_step_accepts_stack:
  assumes "low_entry e" "stack_entry e"
    "unat (identity_bytes c) + 65536 \<le> 17 * 4096" "unat (stack_count c) < 255"
  shows "transition_step c e = Ok (c\<lparr>identity_bytes := identity_bytes c + BOOTSTRAP_STACK_BYTES,
    stack_count := stack_count c + 1\<rparr>)"
  using assms
  by (simp add: transition_step_def stack_entry_def checked_add_def const_defs word_nat
      unat_add_lem [THEN iffD1])

lemma filter_two:
  assumes "list_all (\<lambda>x. P x \<or> Q x) xs" and "\<And>x. P x \<Longrightarrow> \<not> Q x"
    and "length (filter P xs) = 1" and "length (filter Q xs) = 1"
  shows "\<exists>t s. P t \<and> Q s \<and> (xs = [t, s] \<or> xs = [s, t])"
proof -
  have "length xs = length (filter P xs) + length (filter Q xs)"
    using assms(1,2) by (induction xs) auto
  then have "length xs = 2" using assms(3,4) by simp
  then obtain a b where "xs = [a, b]" by (auto simp: length_Suc_conv numeral_2_eq_2)
  with assms show ?thesis by (auto split: if_splits)
qed

text \<open>
  C15. A plan passes \<^verbatim>\<open>validate_transition\<close> exactly when its mappings below the upper canonical
  half are two transition identity mappings: one executable page (the trampoline) and one
  writable mapping of the size of the bootstrap stack, in either order. The byte budget never
  rejects such a plan.
\<close>
theorem validate_transition_correct:
  "validate_transition plan = Ok () \<longleftrightarrow>
     (\<exists>t s. trampoline_entry t \<and> stack_entry s
       \<and> (filter low_entry (plan_entries plan) = [t, s] \<or> filter low_entry (plan_entries plan) = [s, t]))"
proof -
  let ?low = "filter low_entry (plan_entries plan)"
  let ?c = "\<lparr>identity_bytes = 0, trampoline_count = 0, stack_count = 0\<rparr>"
  have fold: "validate_transition plan = and_then (try_fold transition_step ?c ?low)
      (\<lambda>c. if trampoline_count c \<noteq> 1 \<or> stack_count c \<noteq> 1 then Err InvalidTransitionComposition
           else Ok ())"
    unfolding validate_transition_def transition_fold_low [symmetric] ..
  have low: "list_all low_entry ?low" by (simp add: list_all_iff)
  show ?thesis
  proof
    assume "validate_transition plan = Ok ()"
    then obtain c where c: "try_fold transition_step ?c ?low = Ok c" "trampoline_count c = 1"
        "stack_count c = 1"
      unfolding fold by (auto split: if_splits)
    from transition_fold_counts [OF c(1) low] c(2,3)
    show "\<exists>t s. trampoline_entry t \<and> stack_entry s \<and> (?low = [t, s] \<or> ?low = [s, t])"
      by (intro filter_two) (auto dest: trampoline_not_stack)
  next
    assume "\<exists>t s. trampoline_entry t \<and> stack_entry s \<and> (?low = [t, s] \<or> ?low = [s, t])"
    then obtain t s where ts: "trampoline_entry t" "stack_entry s" "?low = [t, s] \<or> ?low = [s, t]"
      by blast
    then have "low_entry t" "low_entry s" using low by auto
    with ts show "validate_transition plan = Ok ()"
      unfolding fold
      by (auto simp: transition_step_accepts transition_step_accepts_stack const_defs simp del: and_then_Ok)
  qed
qed

definition guard_below :: "plan_entry \<Rightarrow> plan_entry \<Rightarrow> bool" where
  "guard_below s g \<longleftrightarrow> kind g = Guard
     \<and> unat (vr_base (virtual_range g)) + 4096 = unat (vr_base (virtual_range s))
     \<and> vr_end (virtual_range g) = vr_base (virtual_range s)"

lemma final_guard_check_Ok:
  "final_guard_check plan e = Ok () \<longleftrightarrow>
     (kind e = BootstrapStack \<longrightarrow> (\<exists>g \<in> set (plan_entries plan). guard_below e g))"
proof (cases "checked_sub (vr_base (virtual_range e)) PAGE_SIZE")
  case None
  then show ?thesis
    by (auto simp: final_guard_check_def guard_below_def checked_sub_None PAGE_SIZE_def)
next
  case (Some start)
  then have "unat (vr_base (virtual_range e)) = unat start + 4096" by (simp add: PAGE_SIZE_def)
  then show ?thesis
    using Some
    by (auto simp: final_guard_check_def guard_below_def list_ex_iff word_eq_nat
        simp del: checked_sub_Some)
qed

lemma validate_final_Ok:
  "validate_final plan = Ok () \<longleftrightarrow>
     (\<forall>e \<in> set (plan_entries plan). kind e \<noteq> TransitionIdentity \<and> \<not> low_entry e)
     \<and> (\<forall>e \<in> set (plan_entries plan). kind e = BootstrapStack \<longrightarrow>
          (\<exists>g \<in> set (plan_entries plan). guard_below e g))"
  by (auto simp: validate_final_def try_fold_unit_Ok final_guard_check_Ok final_entry_check_def)

lemma policy_not_guard: "validate_mapping_policy v p perms c Guard \<noteq> Ok ()"
  by (simp add: validate_mapping_policy_def)

text \<open>
  C12. A final plan that passes \<^verbatim>\<open>validate_final\<close> maps nothing below the upper canonical half,
  and the page below every bootstrap stack is unmapped: every address of it translates to
  \<^verbatim>\<open>Unmapped\<close>, so that running off the end of the stack faults.
\<close>
theorem validate_final_guards_stack:
  assumes "plan_built plan" and "validate_final plan = Ok ()"
  shows "(plan_maps plan va pa perms c \<longrightarrow> va \<ge> HIGH_CANONICAL_START)
    \<and> (\<forall>s \<in> set (plan_entries plan). kind s = BootstrapStack \<longrightarrow>
         unat (vr_base (virtual_range s)) \<le> unat va + 4096 \<longrightarrow> va < vr_base (virtual_range s) \<longrightarrow>
         translate plan (VirtualAddress va) = Err Unmapped)"
proof (intro conjI impI ballI)
  have ok: "plan_ok plan" using assms(1) by (rule plan_built_ok)
  note final = assms(2) [unfolded validate_final_Ok]
  show "va \<ge> HIGH_CANONICAL_START" if "plan_maps plan va pa perms c"
    using that final by (auto simp: plan_maps_iff vr_contains_def word_nat)
  fix s
  assume s: "s \<in> set (plan_entries plan)" "kind s = BootstrapStack"
    "unat (vr_base (virtual_range s)) \<le> unat va + 4096" "va < vr_base (virtual_range s)"
  with final obtain g where g: "g \<in> set (plan_entries plan)" "guard_below s g" by blast
  then have "vr_contains (virtual_range g) (VirtualAddress va)"
    using s by (simp add: guard_below_def vr_contains_def word_nat)
  moreover have "backing g = UnmappedBacking"
  proof (cases "backing g")
    case (Mapped p)
    obtain perms c where
      "validate_mapping_policy (virtual_range g) p perms c (kind g) = Ok ()"
      by (rule entry_ok_Mapped [OF plan_entry_ok [OF ok g(1)] Mapped])
    with g(2) show ?thesis by (simp add: guard_below_def policy_not_guard)
  qed simp
  ultimately show "translate plan (VirtualAddress va) = Err Unmapped"
    using translate_entry [OF ok g(1)] by simp
qed

section \<open>Concrete plans\<close>

text \<open>A read-only kernel page aliased in the direct map, and a guarded bootstrap stack.\<close>

definition alias_range :: physical_range where
  "alias_range = \<lparr>pr_start = PhysicalAddress 0x200000, pr_end = 0x201000\<rparr>"

definition rodata_entry :: plan_entry where
  "rodata_entry =
     \<lparr>virtual_range = \<lparr>vr_start = VirtualAddress 0xffffffff80000000, vr_end = 0xffffffff80001000\<rparr>,
      backing = Mapped alias_range, permissions = Some KERNEL_R, cache = Some WriteBack,
      kind = KernelRodata\<rparr>"

definition direct_entry :: plan_entry where
  "direct_entry =
     \<lparr>virtual_range = \<lparr>vr_start = VirtualAddress 0xffff800000200000, vr_end = 0xffff800000201000\<rparr>,
      backing = Mapped alias_range, permissions = Some KERNEL_R, cache = Some WriteBack,
      kind = DirectMap\<rparr>"

definition alias_plan :: mapping_plan where
  "alias_plan = \<lparr>mp_entries = [direct_entry, rodata_entry, PlanEntry_EMPTY], mp_len = 2\<rparr>"

definition guard_entry :: plan_entry where
  "guard_entry =
     \<lparr>virtual_range = \<lparr>vr_start = VirtualAddress 0xffffffffc0000000, vr_end = 0xffffffffc0001000\<rparr>,
      backing = UnmappedBacking, permissions = None, cache = None, kind = Guard\<rparr>"

definition bootstrap_stack_entry :: plan_entry where
  "bootstrap_stack_entry =
     \<lparr>virtual_range = \<lparr>vr_start = VirtualAddress 0xffffffffc0001000, vr_end = 0xffffffffc0011000\<rparr>,
      backing = Mapped \<lparr>pr_start = PhysicalAddress 0x400000, pr_end = 0x410000\<rparr>,
      permissions = Some KERNEL_RW, cache = Some WriteBack, kind = BootstrapStack\<rparr>"

definition guarded_plan :: mapping_plan where
  "guarded_plan = \<lparr>mp_entries = [guard_entry, bootstrap_stack_entry, PlanEntry_EMPTY], mp_len = 2\<rparr>"

lemmas plan_eval =
  MappingPlan_new_def plan_entries_def insert_check_def insert_position.simps numeral_3_eq_3
  validate_mapping_policy_def check_expected_def kernel_permission_def
  MappingPermissions_from_bits_def mp_user_def mp_writable_def mp_executable_def
  vr_length_def pr_length_def vr_overlaps_def pr_overlaps_def vr_contains_range_def
  declared_def checked_add_def arr_get_def arr_set_def const_defs

lemmas range_eval =
  vr_ok_iff pr_ok_iff is_canonical_def canonical_half_def const_defs word_nat

lemma alias_plan_built: "plan_built alias_plan"
proof (rule plan_built.mapping [where v = "virtual_range direct_entry" and p = alias_range])
  show "plan_built \<lparr>mp_entries = [rodata_entry, PlanEntry_EMPTY, PlanEntry_EMPTY], mp_len = 1\<rparr>"
  proof (rule plan_built.mapping [where v = "virtual_range rodata_entry" and p = alias_range])
    show "plan_built (MappingPlan_new 3)" by (rule plan_built.new)
    show "vr_ok (virtual_range rodata_entry)" by (simp add: rodata_entry_def range_eval)
    show "pr_ok alias_range" by (simp add: alias_range_def range_eval)
    show "insert_mapping (MappingPlan_new 3) (virtual_range rodata_entry) alias_range KERNEL_R WriteBack
        KernelRodata = Ok \<lparr>mp_entries = [rodata_entry, PlanEntry_EMPTY, PlanEntry_EMPTY], mp_len = 1\<rparr>"
      by (simp add: insert_mapping_def plan_insert_def plan_eval rodata_entry_def alias_range_def)
  qed
  show "vr_ok (virtual_range direct_entry)" by (simp add: direct_entry_def range_eval)
  show "pr_ok alias_range" by (simp add: alias_range_def range_eval)
  show "insert_mapping \<lparr>mp_entries = [rodata_entry, PlanEntry_EMPTY, PlanEntry_EMPTY], mp_len = 1\<rparr>
      (virtual_range direct_entry) alias_range KERNEL_R WriteBack DirectMap = Ok alias_plan"
    by (simp add: insert_mapping_def plan_insert_def plan_eval rodata_entry_def direct_entry_def
        alias_range_def alias_plan_def)
qed

lemma guarded_plan_built: "plan_built guarded_plan"
proof (rule plan_built.guard [where v = "virtual_range guard_entry"])
  show "plan_built \<lparr>mp_entries = [bootstrap_stack_entry, PlanEntry_EMPTY, PlanEntry_EMPTY], mp_len = 1\<rparr>"
  proof (rule plan_built.mapping [where v = "virtual_range bootstrap_stack_entry"
        and p = "\<lparr>pr_start = PhysicalAddress 0x400000, pr_end = 0x410000\<rparr>"])
    show "plan_built (MappingPlan_new 3)" by (rule plan_built.new)
    show "vr_ok (virtual_range bootstrap_stack_entry)"
      by (simp add: bootstrap_stack_entry_def range_eval)
    show "pr_ok \<lparr>pr_start = PhysicalAddress 0x400000, pr_end = 0x410000\<rparr>" by (simp add: range_eval)
    show "insert_mapping (MappingPlan_new 3) (virtual_range bootstrap_stack_entry)
        \<lparr>pr_start = PhysicalAddress 0x400000, pr_end = 0x410000\<rparr> KERNEL_RW WriteBack BootstrapStack
        = Ok \<lparr>mp_entries = [bootstrap_stack_entry, PlanEntry_EMPTY, PlanEntry_EMPTY], mp_len = 1\<rparr>"
      by (simp add: insert_mapping_def plan_insert_def plan_eval bootstrap_stack_entry_def)
  qed
  show "vr_ok (virtual_range guard_entry)" by (simp add: guard_entry_def range_eval)
  show "insert_guard \<lparr>mp_entries = [bootstrap_stack_entry, PlanEntry_EMPTY, PlanEntry_EMPTY], mp_len = 1\<rparr>
      (virtual_range guard_entry) = Ok guarded_plan"
    by (simp add: insert_guard_def plan_insert_def plan_eval bootstrap_stack_entry_def guard_entry_def
        guarded_plan_def)
qed

lemma alias_plan_maps:
  "plan_maps alias_plan 0xffffffff80000800 0x200800 KERNEL_R WriteBack"
  "plan_maps alias_plan 0xffff800000200800 0x200800 KERNEL_R WriteBack"
  by (simp_all add: plan_maps_def plan_entries_def alias_plan_def direct_entry_def rodata_entry_def
      alias_range_def vr_contains_def word_nat)

theorem plan_write_xor_execute_witness:
  "plan_built alias_plan
   \<and> plan_maps alias_plan 0xffffffff80000800 0x200800 KERNEL_R WriteBack
   \<and> plan_maps alias_plan 0xffff800000200800 0x200800 KERNEL_R WriteBack
   \<and> \<not> (mp_writable KERNEL_R \<and> mp_executable KERNEL_R) \<and> \<not> mp_user KERNEL_R"
  using plan_write_xor_execute [OF alias_plan_built alias_plan_maps(1) alias_plan_maps(2)]
    alias_plan_built alias_plan_maps
  by simp

theorem translate_correct_witness:
  "translate alias_plan (VirtualAddress 0xffff800000200800) = Ok (PhysicalAddress 0x200800)"
  using translate_correct [OF alias_plan_built, of "VirtualAddress 0xffff800000200800"
      "PhysicalAddress 0x200800"] alias_plan_maps(2)
  by auto

theorem plan_region_discipline_witness:
  "plan_built alias_plan
   \<and> plan_maps alias_plan 0xffff800000200800 0x200800 KERNEL_R WriteBack
   \<and> plan_maps alias_plan 0xffffffff80000800 0x200800 KERNEL_R WriteBack
   \<and> in_region RegionDirectMap 0xffff800000200800
   \<and> unat (0xffff800000200800 :: u64) = unat DIRECT_MAP_START + unat (0x200800 :: u64)
   \<and> in_region RegionKernelImage 0xffffffff80000800
   \<and> BOOTSTRAP_PHYSICAL_START \<le> 0x200800 \<and> 0x200800 < BOOTSTRAP_PHYSICAL_END
   \<and> \<not> in_region RegionMmio 0xffff800000200800 \<and> \<not> in_region RegionFramebuffer 0xffff800000200800"
proof -
  have regions: "in_region RegionDirectMap 0xffff800000200800" "in_region RegionKernelImage 0xffffffff80000800"
    by (simp_all add: vr_contains_def declared_def const_defs word_nat)
  note direct = plan_region_discipline [OF alias_plan_built alias_plan_maps(2)]
    and image = plan_region_discipline [OF alias_plan_built alias_plan_maps(1)]
  have "\<not> in_region RegionMmio 0xffff800000200800 \<and> \<not> in_region RegionFramebuffer 0xffff800000200800"
    using direct by blast
  with direct image regions alias_plan_built alias_plan_maps show ?thesis by blast
qed

theorem plan_insert_refines_witness:
  "plan_built (MappingPlan_new 3) \<and> entry_ok guard_entry
   \<and> is_ok (plan_insert (MappingPlan_new 3) guard_entry)"
proof -
  have ok: "entry_ok guard_entry"
    by (simp add: entry_ok_def guard_entry_def range_eval vr_contains_range_def declared_def)
  show ?thesis
    using plan_insert_refines [OF plan_built.new ok, of 3] ok plan_built.new [of 3]
    by (auto simp: plan_entries_def MappingPlan_new_def split: result.splits)
qed

theorem validate_final_guards_stack_witness:
  "validate_final guarded_plan = Ok ()
   \<and> translate guarded_plan (VirtualAddress 0xffffffffc0000ff8) = Err Unmapped"
proof -
  have "validate_final guarded_plan = Ok ()"
    by (simp add: validate_final_def final_entry_check_def final_guard_check_def guarded_plan_def
        plan_entries_def guard_entry_def bootstrap_stack_entry_def checked_sub_def const_defs)
  with validate_final_guards_stack [OF guarded_plan_built this,
      where va = "0xffffffffc0000ff8"]
  show ?thesis
    by (simp add: guarded_plan_def plan_entries_def bootstrap_stack_entry_def word_nat)
qed
end
