(* ===== verification/Page_Table.thy ===== *)
theory Page_Table
  imports Mapping_Plan
begin

text \<open>
  \<^verbatim>\<open>crates/memory-layout/src/page_table.rs\<close>: the construction plan of the four-level page
  tables. The plan is a list of tables, a list of entries that refer to tables by slot, and the
  root entries to remove after the transition. A fixed-capacity array with its count is the list
  of its live elements together with the capacity (the const generic): every access of the code
  goes through the live slices, and every push is guarded by the capacity.
\<close>

section \<open>Levels, indices, slots, frames and flags\<close>

datatype table_level = Pt | Pd | Pdpt | Pml4

fun level_code :: "table_level \<Rightarrow> u8" where
  "level_code Pt = 1"
| "level_code Pd = 2"
| "level_code Pdpt = 3"
| "level_code Pml4 = 4"

fun level_child :: "table_level \<Rightarrow> table_level option" where
  "level_child Pml4 = Some Pdpt"
| "level_child Pdpt = Some Pd"
| "level_child Pd = Some Pt"
| "level_child Pt = None"

datatype page_table_error =
    Layout layout_error
  | InvalidTableIndex
  | UnalignedPhysicalFrame
  | ZeroPhysicalFrame
  | InvalidEntryFlags
  | PtUserMappingForbidden
  | WritableExecutableLeaf
  | UnsupportedGuardLocation
  | DuplicateLeaf
  | IncompatibleRemap
  | MissingParent
  | TableCapacityExhausted
  | EntryCapacityExhausted
  | RemovalCapacityExhausted
  | FrameSlotOverflow
  | MissingFrameAssignment
  | FrameAssignmentCountMismatch
  | OutputTooSmall
  | ArithmeticOverflow

datatype table_index = TableIndex (ti_get: u16)

definition TableIndex_COUNT :: u16 where
  [const_defs]: "TableIndex_COUNT = 512"

definition TableIndex_new :: "u16 \<Rightarrow> (table_index, page_table_error) result" where
  "TableIndex_new value =
     (if value < TableIndex_COUNT then Ok (TableIndex value) else Err InvalidTableIndex)"

datatype frame_slot = FrameSlot (fs_get: u32)

definition FrameSlot_ROOT :: frame_slot where
  [const_defs]: "FrameSlot_ROOT = FrameSlot 0"

definition FrameSlot_NONE :: frame_slot where
  [const_defs]: "FrameSlot_NONE = FrameSlot 0xffffffff"

definition FrameSlot_from_index :: "nat \<Rightarrow> (frame_slot, page_table_error) result" where
  "FrameSlot_from_index index =
     (if index < 2 ^ 32 then Ok (FrameSlot (of_nat index)) else Err FrameSlotOverflow)"

definition fs_as_index :: "frame_slot \<Rightarrow> nat" where
  "fs_as_index slot = unat (fs_get slot)"

datatype physical_frame = PhysicalFrame (pf_address: u64)

definition PhysicalFrame_EMPTY :: physical_frame where
  "PhysicalFrame_EMPTY = PhysicalFrame 0"

definition PhysicalFrame_new :: "u64 \<Rightarrow> (physical_frame, page_table_error) result" where
  "PhysicalFrame_new address =
     (if address = 0 then Err ZeroPhysicalFrame
      else and_then (map_err Layout (PhysicalAddress_new address)) (\<lambda>_.
        if \<not> is_multiple_of address PAGE_SIZE then Err UnalignedPhysicalFrame
        else Ok (PhysicalFrame address)))"

datatype entry_flags = EntryFlags (ef_bits: u64)

definition EF_PRESENT :: u64 where [const_defs]: "EF_PRESENT = 0x1"
definition EF_WRITABLE :: u64 where [const_defs]: "EF_WRITABLE = 0x2"
definition EF_USER :: u64 where [const_defs]: "EF_USER = 0x4"
definition EF_WRITE_THROUGH :: u64 where [const_defs]: "EF_WRITE_THROUGH = 0x8"
definition EF_CACHE_DISABLE :: u64 where [const_defs]: "EF_CACHE_DISABLE = 0x10"
definition EF_HUGE_PAGE :: u64 where [const_defs]: "EF_HUGE_PAGE = 0x80"
definition EF_GLOBAL :: u64 where [const_defs]: "EF_GLOBAL = 0x100"
definition EF_NO_EXECUTE :: u64 where [const_defs]: "EF_NO_EXECUTE = 0x8000000000000000"

definition EF_KNOWN :: u64 where
  [const_defs]: "EF_KNOWN = EF_PRESENT OR EF_WRITABLE OR EF_USER OR EF_WRITE_THROUGH
     OR EF_CACHE_DISABLE OR EF_GLOBAL OR EF_NO_EXECUTE"

definition EF_INTERMEDIATE :: entry_flags where
  [const_defs]: "EF_INTERMEDIATE = EntryFlags (EF_PRESENT OR EF_WRITABLE)"

definition EntryFlags_from_bits :: "u64 \<Rightarrow> (entry_flags, page_table_error) result" where
  "EntryFlags_from_bits bits =
     (if bits AND NOT EF_KNOWN \<noteq> 0 \<or> bits AND EF_PRESENT = 0 then Err InvalidEntryFlags
      else if bits AND EF_USER \<noteq> 0 \<or> bits AND EF_HUGE_PAGE \<noteq> 0 then Err InvalidEntryFlags
      else Ok (EntryFlags bits))"

definition EntryFlags_for_leaf ::
    "mapping_permissions \<Rightarrow> cache_policy \<Rightarrow> (entry_flags, page_table_error) result" where
  "EntryFlags_for_leaf perms c =
     (if mp_user perms then Err PtUserMappingForbidden
      else if mp_writable perms \<and> mp_executable perms then Err WritableExecutableLeaf
      else
        let bits0 = EF_PRESENT OR EF_GLOBAL;
            bits1 = (if mp_writable perms then bits0 OR EF_WRITABLE else bits0);
            bits2 = (if \<not> mp_executable perms then bits1 OR EF_NO_EXECUTE else bits1);
            bits3 = (case c of
                WriteBack \<Rightarrow> bits2
              | Uncached \<Rightarrow> bits2 OR (EF_WRITE_THROUGH OR EF_CACHE_DISABLE))
        in EntryFlags_from_bits bits3)"

definition ef_writable :: "entry_flags \<Rightarrow> bool" where
  "ef_writable f \<longleftrightarrow> ef_bits f AND EF_WRITABLE \<noteq> 0"

definition ef_executable :: "entry_flags \<Rightarrow> bool" where
  "ef_executable f \<longleftrightarrow> ef_bits f AND EF_NO_EXECUTE = 0"

section \<open>Planned tables, entries and removals\<close>

datatype entry_target_kind = TableSlot | PhysicalFrameTarget

record entry_target =
  et_kind :: entry_target_kind
  et_value :: u64

definition EntryTarget_table :: "frame_slot \<Rightarrow> entry_target" where
  "EntryTarget_table slot = \<lparr>et_kind = TableSlot, et_value = ucast (fs_get slot)\<rparr>"

definition EntryTarget_physical :: "physical_frame \<Rightarrow> entry_target" where
  "EntryTarget_physical frame = \<lparr>et_kind = PhysicalFrameTarget, et_value = pf_address frame\<rparr>"

definition et_frame_slot :: "entry_target \<Rightarrow> frame_slot option" where
  "et_frame_slot t =
     (if et_kind t = TableSlot then Some (FrameSlot (ucast (et_value t))) else None)"

definition et_physical_frame :: "entry_target \<Rightarrow> physical_frame option" where
  "et_physical_frame t =
     (if et_kind t = PhysicalFrameTarget then Some (PhysicalFrame (et_value t)) else None)"

record planned_table =
  pt_level :: table_level
  pt_frame_slot :: frame_slot
  pt_parent_slot :: frame_slot
  pt_parent_index :: table_index

definition pt_parent :: "planned_table \<Rightarrow> (frame_slot \<times> table_index) option" where
  "pt_parent t =
     (if fs_get (pt_parent_slot t) = fs_get FrameSlot_NONE then None
      else Some (pt_parent_slot t, pt_parent_index t))"

record planned_entry =
  pe_table_slot :: frame_slot
  pe_index :: table_index
  pe_target :: entry_target
  pe_flags :: entry_flags

record transition_removal =
  tr_table_slot :: frame_slot
  tr_index :: table_index
  tr_expected_target :: frame_slot
  tr_expected_flags :: entry_flags

datatype plan_mode = Transitional | Final

fun mode_code :: "plan_mode \<Rightarrow> u8" where
  "mode_code Transitional = 1"
| "mode_code Final = 2"

record frame_assignments =
  fa_frames :: "physical_frame list"
  fa_len :: nat

definition assigned_frame ::
    "frame_assignments \<Rightarrow> frame_slot \<Rightarrow> (physical_frame, page_table_error) result" where
  "assigned_frame a slot =
     (if fs_as_index slot \<ge> fa_len a then Err MissingFrameAssignment
      else arr_get (fa_frames a) (fs_as_index slot))"

definition encoded_value ::
    "planned_entry \<Rightarrow> frame_assignments \<Rightarrow> (u64, page_table_error) result" where
  "encoded_value e assignments =
     and_then
       (case et_kind (pe_target e) of
          PhysicalFrameTarget \<Rightarrow> Ok (et_value (pe_target e))
        | TableSlot \<Rightarrow>
            and_then (assigned_frame assignments (FrameSlot (ucast (et_value (pe_target e)))))
              (\<lambda>frame. Ok (pf_address frame)))
       (\<lambda>address. Ok (address OR ef_bits (pe_flags e)))"

definition encoded_leaf_value :: "planned_entry \<Rightarrow> u64 option" where
  "encoded_leaf_value e =
     (if et_kind (pe_target e) = PhysicalFrameTarget
      then Some (et_value (pe_target e) OR ef_bits (pe_flags e)) else None)"

definition expected_value ::
    "transition_removal \<Rightarrow> frame_assignments \<Rightarrow> (u64, page_table_error) result" where
  "expected_value r assignments =
     and_then (assigned_frame assignments (tr_expected_target r))
       (\<lambda>frame. Ok (pf_address frame OR ef_bits (tr_expected_flags r)))"

definition virtual_address_indices :: "virtual_address \<Rightarrow> table_index list" where
  "virtual_address_indices address =
     [TableIndex (ucast (drop_bit 39 (va_get address) AND 0x1ff)),
      TableIndex (ucast (drop_bit 30 (va_get address) AND 0x1ff)),
      TableIndex (ucast (drop_bit 21 (va_get address) AND 0x1ff)),
      TableIndex (ucast (drop_bit 12 (va_get address) AND 0x1ff))]"

section \<open>The construction plan\<close>

record construction_plan =
  cp_mode :: plan_mode
  cp_tables :: "planned_table list"
  cp_tables_capacity :: nat
  cp_entries :: "planned_entry list"
  cp_entries_capacity :: nat
  cp_removals :: "transition_removal list"
  cp_removals_capacity :: nat

definition find_entry ::
    "construction_plan \<Rightarrow> frame_slot \<Rightarrow> table_index \<Rightarrow> planned_entry option" where
  "find_entry plan slot index =
     List.find (\<lambda>entry. pe_table_slot entry = slot \<and> pe_index entry = index) (cp_entries plan)"

definition push_entry ::
    "construction_plan \<Rightarrow> planned_entry \<Rightarrow> (construction_plan, page_table_error) result" where
  "push_entry plan entry =
     (if length (cp_entries plan) = cp_entries_capacity plan then Err EntryCapacityExhausted
      else Ok (plan\<lparr>cp_entries := cp_entries plan @ [entry]\<rparr>))"

definition push_removal ::
    "construction_plan \<Rightarrow> planned_entry \<Rightarrow> (construction_plan, page_table_error) result" where
  "push_removal plan entry =
     (if length (cp_removals plan) = cp_removals_capacity plan then Err RemovalCapacityExhausted
      else and_then (ok_or (et_frame_slot (pe_target entry)) MissingParent) (\<lambda>slot.
        Ok (plan\<lparr>cp_removals := cp_removals plan @
          [\<lparr>tr_table_slot = pe_table_slot entry, tr_index = pe_index entry,
            tr_expected_target = slot, tr_expected_flags = pe_flags entry\<rparr>]\<rparr>)))"

definition ensure_child ::
    "construction_plan \<Rightarrow> frame_slot \<Rightarrow> table_level \<Rightarrow> table_index \<Rightarrow> virtual_address \<Rightarrow>
     (construction_plan \<times> frame_slot, page_table_error) result" where
  "ensure_child plan parent_slot parent_level index address =
     (case find_entry plan parent_slot index of
        Some existing \<Rightarrow>
          and_then (ok_or (et_frame_slot (pe_target existing)) IncompatibleRemap)
            (\<lambda>slot. Ok (plan, slot))
      | None \<Rightarrow>
          if length (cp_tables plan) = cp_tables_capacity plan then Err TableCapacityExhausted
          else
            and_then (FrameSlot_from_index (length (cp_tables plan))) (\<lambda>child_slot.
            and_then (ok_or (level_child parent_level) MissingParent) (\<lambda>child_level.
            let plan1 = plan\<lparr>cp_tables := cp_tables plan @
                  [\<lparr>pt_level = child_level, pt_frame_slot = child_slot,
                    pt_parent_slot = parent_slot, pt_parent_index = index\<rparr>]\<rparr>;
                intermediate = \<lparr>pe_table_slot = parent_slot, pe_index = index,
                  pe_target = EntryTarget_table child_slot, pe_flags = EF_INTERMEDIATE\<rparr>
            in and_then (push_entry plan1 intermediate) (\<lambda>plan2.
               and_then
                 (if parent_level = Pml4 \<and> va_get address < HIGH_CANONICAL_START
                  then push_removal plan2 intermediate else Ok plan2)
                 (\<lambda>plan3. Ok (plan3, child_slot))))))"

definition insert_page ::
    "construction_plan \<Rightarrow> virtual_address \<Rightarrow> physical_frame \<Rightarrow> mapping_permissions \<Rightarrow>
     cache_policy \<Rightarrow> (construction_plan, page_table_error) result" where
  "insert_page plan address frame perms c =
     (let indices = virtual_address_indices address in
      and_then
        (try_fold (\<lambda>(plan, slot) (level, index). ensure_child plan slot level index address)
          (plan, FrameSlot_ROOT) (zip [Pml4, Pdpt, Pd] (take 3 indices)))
        (\<lambda>(plan, table_slot).
      and_then (EntryFlags_for_leaf perms c) (\<lambda>flags.
      let leaf = \<lparr>pe_table_slot = table_slot, pe_index = indices ! 3,
            pe_target = EntryTarget_physical frame, pe_flags = flags\<rparr>
      in case find_entry plan table_slot (indices ! 3) of
           Some existing \<Rightarrow> if existing = leaf then Err DuplicateLeaf else Err IncompatibleRemap
         | None \<Rightarrow> push_entry plan leaf)))"

definition add_page ::
    "plan_entry \<Rightarrow> physical_range \<Rightarrow> mapping_permissions \<Rightarrow> cache_policy \<Rightarrow> construction_plan \<Rightarrow>
     u64 \<Rightarrow> (construction_plan, page_table_error) result" where
  "add_page mapping physical perms c plan page =
     and_then (ok_or (checked_mul page PAGE_SIZE) ArithmeticOverflow) (\<lambda>offset.
     and_then (ok_or (checked_add (vr_base (virtual_range mapping)) offset) ArithmeticOverflow)
       (\<lambda>virtual_address.
     and_then (ok_or (checked_add (pr_base physical) offset) ArithmeticOverflow)
       (\<lambda>physical_address.
     and_then (map_err Layout (VirtualAddress_new virtual_address)) (\<lambda>va.
     and_then (PhysicalFrame_new physical_address) (\<lambda>frame.
     insert_page plan va frame perms c)))))"

definition add_mapping ::
    "construction_plan \<Rightarrow> plan_entry \<Rightarrow> (construction_plan, page_table_error) result" where
  "add_mapping plan mapping =
     (if cp_mode plan = Final
         \<and> (vr_base (virtual_range mapping) < HIGH_CANONICAL_START
            \<or> kind mapping = TransitionIdentity)
      then Err (Layout LowMappingInFinalPlan)
      else case backing mapping of
        UnmappedBacking \<Rightarrow>
          if kind mapping \<noteq> Guard then Err UnsupportedGuardLocation else Ok plan
      | Mapped physical \<Rightarrow>
          and_then (ok_or (permissions mapping) InvalidEntryFlags) (\<lambda>perms.
          and_then (ok_or (cache mapping) InvalidEntryFlags) (\<lambda>c.
          try_fold (add_page mapping physical perms c) plan
            (map of_nat [0 ..< unat (vr_length (virtual_range mapping) div PAGE_SIZE)]))))"

definition ConstructionPlan_begin ::
    "nat \<Rightarrow> nat \<Rightarrow> nat \<Rightarrow> plan_mode \<Rightarrow> (construction_plan, page_table_error) result" where
  "ConstructionPlan_begin tables entries removals mode =
     (if tables = 0 then Err TableCapacityExhausted
      else Ok \<lparr>cp_mode = mode,
        cp_tables = [\<lparr>pt_level = Pml4, pt_frame_slot = FrameSlot_ROOT,
          pt_parent_slot = FrameSlot_NONE, pt_parent_index = TableIndex 0\<rparr>],
        cp_tables_capacity = tables,
        cp_entries = [], cp_entries_capacity = entries,
        cp_removals = [], cp_removals_capacity = removals\<rparr>)"

definition structure_check ::
    "construction_plan \<Rightarrow> planned_table \<Rightarrow> (unit, page_table_error) result" where
  "structure_check plan t =
     and_then (ok_or (pt_parent t) MissingParent) (\<lambda>(parent, index).
     and_then (ok_or (find_entry plan parent index) MissingParent) (\<lambda>entry.
     if et_frame_slot (pe_target entry) \<noteq> Some (pt_frame_slot t) \<or> pe_flags entry \<noteq> EF_INTERMEDIATE
     then Err MissingParent else Ok ()))"

definition validate_structure :: "construction_plan \<Rightarrow> (unit, page_table_error) result" where
  "validate_structure plan = try_fold (\<lambda>_. structure_check plan) () (drop 1 (cp_tables plan))"

definition finish :: "construction_plan \<Rightarrow> (construction_plan, page_table_error) result" where
  "finish plan = and_then (validate_structure plan) (\<lambda>_. Ok plan)"

definition ConstructionPlan_build ::
    "nat \<Rightarrow> nat \<Rightarrow> nat \<Rightarrow> mapping_plan \<Rightarrow> plan_mode \<Rightarrow>
     (construction_plan, page_table_error) result" where
  "ConstructionPlan_build tables entries removals mappings mode =
     and_then
       (map_err Layout
         (case mode of
            Transitional \<Rightarrow> validate_transition mappings
          | Final \<Rightarrow> validate_final mappings)) (\<lambda>_.
     and_then (ConstructionPlan_begin tables entries removals mode) (\<lambda>plan.
     and_then (try_fold add_mapping plan (plan_entries mappings)) (\<lambda>plan'.
     finish plan')))"

fun leaf_walk :: "construction_plan \<Rightarrow> frame_slot \<Rightarrow> table_index list \<Rightarrow> frame_slot option" where
  "leaf_walk plan slot [] = Some slot"
| "leaf_walk plan slot (index # indices) =
     (case find_entry plan slot index of
        None \<Rightarrow> None
      | Some entry \<Rightarrow>
          (case et_frame_slot (pe_target entry) of
             None \<Rightarrow> None
           | Some child \<Rightarrow> leaf_walk plan child indices))"

definition leaf_entry :: "construction_plan \<Rightarrow> virtual_address \<Rightarrow> planned_entry option" where
  "leaf_entry plan address =
     (let indices = virtual_address_indices address in
      case leaf_walk plan FrameSlot_ROOT (take 3 indices) of
        None \<Rightarrow> None
      | Some slot \<Rightarrow>
          (case find_entry plan slot (indices ! 3) of
             None \<Rightarrow> None
           | Some entry \<Rightarrow>
               if et_kind (pe_target entry) = PhysicalFrameTarget then Some entry else None))"

section \<open>Checked constructors\<close>

instantiation table_index :: linorder
begin

definition less_eq_table_index :: "table_index \<Rightarrow> table_index \<Rightarrow> bool" where
  "less_eq_table_index a b \<longleftrightarrow> ti_get a \<le> ti_get b"

definition less_table_index :: "table_index \<Rightarrow> table_index \<Rightarrow> bool" where
  "less_table_index a b \<longleftrightarrow> ti_get a < ti_get b"

instance
  by standard (auto simp: less_eq_table_index_def less_table_index_def table_index.expand)

end

instantiation frame_slot :: linorder
begin

definition less_eq_frame_slot :: "frame_slot \<Rightarrow> frame_slot \<Rightarrow> bool" where
  "less_eq_frame_slot a b \<longleftrightarrow> fs_get a \<le> fs_get b"

definition less_frame_slot :: "frame_slot \<Rightarrow> frame_slot \<Rightarrow> bool" where
  "less_frame_slot a b \<longleftrightarrow> fs_get a < fs_get b"

instance
  by standard (auto simp: less_eq_frame_slot_def less_frame_slot_def frame_slot.expand)

end

instantiation physical_frame :: linorder
begin

definition less_eq_physical_frame :: "physical_frame \<Rightarrow> physical_frame \<Rightarrow> bool" where
  "less_eq_physical_frame a b \<longleftrightarrow> pf_address a \<le> pf_address b"

definition less_physical_frame :: "physical_frame \<Rightarrow> physical_frame \<Rightarrow> bool" where
  "less_physical_frame a b \<longleftrightarrow> pf_address a < pf_address b"

instance
  by standard (auto simp: less_eq_physical_frame_def less_physical_frame_def physical_frame.expand)

end

interpretation ti_new: checked_newtype TableIndex_new ti_get "\<lambda>v. v < TableIndex_COUNT"
  by unfold_locales (auto simp: TableIndex_new_def table_index.expand split: if_splits)

interpretation pf_new: checked_newtype PhysicalFrame_new pf_address
    "\<lambda>a. a \<noteq> 0 \<and> a < SUPPORTED_PHYSICAL_END \<and> is_multiple_of a PAGE_SIZE"
  by unfold_locales
    (auto simp: PhysicalFrame_new_def PhysicalAddress_new_def physical_frame.expand split: if_splits)

interpretation ef_new: checked_newtype EntryFlags_from_bits ef_bits
    "\<lambda>b. b AND NOT EF_KNOWN = 0 \<and> b AND EF_PRESENT \<noteq> 0 \<and> b AND EF_USER = 0 \<and> b AND EF_HUGE_PAGE = 0"
  by unfold_locales (auto simp: EntryFlags_from_bits_def entry_flags.expand split: if_splits)

interpretation fs_new: checked_newtype FrameSlot_from_index fs_as_index "\<lambda>i. i < 2 ^ 32"
proof
  fix r v assume "FrameSlot_from_index r = Ok v"
  then show "fs_as_index v = r \<and> r < 2 ^ 32"
    by (auto simp: FrameSlot_from_index_def fs_as_index_def unat_of_nat split: if_splits)
qed (auto simp: FrameSlot_from_index_def fs_as_index_def frame_slot.expand word_eq_nat)

lemma ucast_u32_u64 [simp]: "ucast (ucast (x :: u32) :: u64) = x"
  by (rule bit_word_eqI) (auto simp: bit_simps)

end
