(* ===== verification/Page_Table_Invariant.thy ===== *)
theory Page_Table_Invariant
  imports Page_Table
begin

text \<open>
  The structural invariant of the page-table construction plan: every table has one path of
  indices from the root, every entry extends the path of its table, and a lookup finds exactly
  the leaves with the given path. Inserting a page is a map update on the leaves.
\<close>

section \<open>The structural invariant\<close>

abbreviation entry_key :: "planned_entry \<Rightarrow> frame_slot \<times> table_index" where
  "entry_key e \<equiv> (pe_table_slot e, pe_index e)"

abbreviation slot_at :: "nat \<Rightarrow> frame_slot" where
  "slot_at i \<equiv> FrameSlot (of_nat i)"

definition level_at :: "nat \<Rightarrow> table_level" where
  "level_at depth = [Pml4, Pdpt, Pd, Pt] ! depth"

definition entry_fits :: "table_index list list \<Rightarrow> planned_entry \<Rightarrow> bool" where
  "entry_fits paths e \<longleftrightarrow>
     fs_as_index (pe_table_slot e) < length paths \<and>
     (case et_kind (pe_target e) of
        TableSlot \<Rightarrow> (\<exists>i < length paths. pe_target e = EntryTarget_table (slot_at i)
          \<and> paths ! i = paths ! fs_as_index (pe_table_slot e) @ [pe_index e]
          \<and> fs_as_index (pe_table_slot e) < i) \<and> pe_flags e = EF_INTERMEDIATE
      | PhysicalFrameTarget \<Rightarrow> length (paths ! fs_as_index (pe_table_slot e)) = 3)"

text \<open>
  \<open>paths ! i\<close> is the list of indices that leads from the root to table \<open>i\<close>. Tables have
  distinct paths of length at most three, every entry leads to the table with the extended path,
  and every table but the root has the entry its parent fields name.
\<close>

definition cp_inv :: "construction_plan \<Rightarrow> table_index list list \<Rightarrow> bool" where
  "cp_inv cp paths \<longleftrightarrow>
     length paths = length (cp_tables cp) \<and> 0 < length paths \<and> length paths \<le> 2 ^ 32
     \<and> paths ! 0 = [] \<and> distinct paths
     \<and> (\<forall>i < length paths. length (paths ! i) \<le> 3 \<and> pt_frame_slot (cp_tables cp ! i) = slot_at i
         \<and> pt_level (cp_tables cp ! i) = level_at (length (paths ! i)))
     \<and> distinct (map entry_key (cp_entries cp))
     \<and> (\<forall>e \<in> set (cp_entries cp). entry_fits paths e)
     \<and> (\<forall>i < length paths. 0 < i \<longrightarrow> (\<exists>e \<in> set (cp_entries cp).
          pe_target e = EntryTarget_table (slot_at i)
          \<and> entry_key e = (pt_parent_slot (cp_tables cp ! i), pt_parent_index (cp_tables cp ! i))))"

lemma fs_as_index_slot_at [simp]: "i < 2 ^ 32 \<Longrightarrow> fs_as_index (slot_at i) = i"
  by (simp add: fs_as_index_def unat_of_nat)

lemma slot_at_fs_as_index [simp]: "slot_at (fs_as_index s) = s"
  by (cases s) (simp add: fs_as_index_def)

lemma et_frame_slot_table [simp]: "et_frame_slot (EntryTarget_table s) = Some s"
  by (cases s) (simp add: et_frame_slot_def EntryTarget_table_def)

lemma et_kind_simps [simp]:
  "et_kind (EntryTarget_table s) = TableSlot" "et_kind (EntryTarget_physical f) = PhysicalFrameTarget"
  "et_value (EntryTarget_physical f) = pf_address f" "et_frame_slot (EntryTarget_physical f) = None"
  by (simp_all add: EntryTarget_table_def EntryTarget_physical_def et_frame_slot_def)

lemma find_entry_Some:
  "find_entry cp s i = Some e \<Longrightarrow> e \<in> set (cp_entries cp) \<and> entry_key e = (s, i)"
  unfolding find_entry_def by (auto dest: find_SomeD)

lemma find_entry_None:
  "find_entry cp s i = None \<longleftrightarrow> (s, i) \<notin> set (map entry_key (cp_entries cp))"
  unfolding find_entry_def by (auto simp: find_None_iff)

lemma cp_invD:
  assumes "cp_inv cp paths"
  shows "length paths = length (cp_tables cp)" "0 < length paths" "length paths \<le> 2 ^ 32"
    "paths ! 0 = []" "distinct paths" "distinct (map entry_key (cp_entries cp))"
    "i < length paths \<Longrightarrow> length (paths ! i) \<le> 3"
    "i < length paths \<Longrightarrow> i < 2 ^ 32"
    "e \<in> set (cp_entries cp) \<Longrightarrow> entry_fits paths e"
  using assms unfolding cp_inv_def by auto

lemma entry_fits_child:
  assumes "entry_fits paths e" and "length paths \<le> 2 ^ 32" and "et_frame_slot (pe_target e) = Some c"
  shows "fs_as_index c < length paths" "fs_as_index (pe_table_slot e) < fs_as_index c"
    "paths ! fs_as_index c = paths ! fs_as_index (pe_table_slot e) @ [pe_index e]"
    "pe_target e = EntryTarget_table c" "pe_flags e = EF_INTERMEDIATE"
proof -
  have "et_kind (pe_target e) = TableSlot"
    using assms(3) by (simp add: et_frame_slot_def split: if_splits)
  then obtain i where i: "i < length paths" "pe_target e = EntryTarget_table (slot_at i)"
      "paths ! i = paths ! fs_as_index (pe_table_slot e) @ [pe_index e]"
      "fs_as_index (pe_table_slot e) < i" "pe_flags e = EF_INTERMEDIATE"
    using assms(1) by (auto simp: entry_fits_def)
  moreover have "c = slot_at i" using i(2) assms(3) by simp
  moreover have "fs_as_index (slot_at i) = i" using i(1) assms(2) by simp
  ultimately show "fs_as_index c < length paths" "fs_as_index (pe_table_slot e) < fs_as_index c"
    "paths ! fs_as_index c = paths ! fs_as_index (pe_table_slot e) @ [pe_index e]"
    "pe_target e = EntryTarget_table c" "pe_flags e = EF_INTERMEDIATE" by simp_all
qed

lemma find_entry_eq:
  assumes "cp_inv cp paths" and "e \<in> set (cp_entries cp)"
  shows "find_entry cp (pe_table_slot e) (pe_index e) = Some e"
  unfolding find_entry_def
proof (rule find_unique)
  fix y assume "y \<in> set (cp_entries cp)" "pe_table_slot y = pe_table_slot e \<and> pe_index y = pe_index e"
  then show "y = e"
    using assms inj_onD [of entry_key "set (cp_entries cp)" y e]
    by (auto simp: cp_inv_def distinct_map)
qed (use assms in simp_all)

lemma leaf_walk_append:
  "leaf_walk cp s (is @ [i]) =
     (case leaf_walk cp s is of
        None \<Rightarrow> None
      | Some t \<Rightarrow> (case find_entry cp t i of
            None \<Rightarrow> None | Some e \<Rightarrow> et_frame_slot (pe_target e)))"
  by (induction "is" arbitrary: s) (auto split: option.splits)

text \<open>The walk from the root follows exactly the paths.\<close>

lemma leaf_walk_sound:
  assumes "cp_inv cp paths"
  shows "fs_as_index s < length paths \<Longrightarrow> leaf_walk cp s is = Some t \<Longrightarrow>
    fs_as_index t < length paths \<and> paths ! fs_as_index t = paths ! fs_as_index s @ is"
proof (induction "is" arbitrary: s)
  case (Cons i "is")
  then obtain e c where e: "find_entry cp s i = Some e" "et_frame_slot (pe_target e) = Some c"
      "leaf_walk cp c is = Some t"
    by (auto split: option.splits)
  from find_entry_Some [OF e(1)] have "e \<in> set (cp_entries cp)" "entry_key e = (s, i)" by simp_all
  with entry_fits_child [OF cp_invD(9) [OF assms] cp_invD(3) [OF assms] e(2)]
  have "fs_as_index c < length paths \<and> paths ! fs_as_index c = paths ! fs_as_index s @ [i]"
    by auto
  with Cons.IH [OF _ e(3)] show ?case by simp
qed simp

lemma leaf_walk_complete:
  assumes "cp_inv cp paths" and "t < length paths"
  shows "leaf_walk cp FrameSlot_ROOT (paths ! t) = Some (slot_at t)"
  using assms(2)
proof (induction t rule: less_induct)
  case (less t)
  show ?case
  proof (cases "t = 0")
    case True
    then show ?thesis using assms(1) by (simp add: cp_inv_def FrameSlot_ROOT_def)
  next
    case False
    then obtain e where e: "e \<in> set (cp_entries cp)" "pe_target e = EntryTarget_table (slot_at t)"
      using assms(1) less.prems by (auto simp: cp_inv_def)
    note child = entry_fits_child [OF cp_invD(9) [OF assms(1) e(1)] cp_invD(3) [OF assms(1)]]
    have t: "fs_as_index (slot_at t) = t" using cp_invD(8) [OF assms(1) less.prems] by simp
    have "et_frame_slot (pe_target e) = Some (slot_at t)" using e(2) by simp
    from child(2,3) [OF this] have "fs_as_index (pe_table_slot e) < t"
        "paths ! t = paths ! fs_as_index (pe_table_slot e) @ [pe_index e]"
      unfolding t by blast+
    then show ?thesis
      using less.IH less.prems find_entry_eq [OF assms(1) e(1)] e(2)
      by (simp add: leaf_walk_append)
  qed
qed

definition leaf_at :: "construction_plan \<Rightarrow> table_index list \<Rightarrow> planned_entry option" where
  "leaf_at cp ixs =
     (case leaf_walk cp FrameSlot_ROOT (take 3 ixs) of
        None \<Rightarrow> None
      | Some slot \<Rightarrow>
          (case find_entry cp slot (ixs ! 3) of
             None \<Rightarrow> None
           | Some e \<Rightarrow> if et_kind (pe_target e) = PhysicalFrameTarget then Some e else None))"

lemma leaf_entry_leaf_at: "leaf_entry cp va = leaf_at cp (virtual_address_indices va)"
  by (simp add: leaf_entry_def leaf_at_def Let_def)

lemma split_four: "length ixs = 4 \<Longrightarrow> ixs = take 3 ixs @ [ixs ! 3]"
  by (simp flip: take_Suc_conv_app_nth)

lemma fs_as_index_ROOT [simp]: "fs_as_index FrameSlot_ROOT = 0"
  by (simp add: fs_as_index_def FrameSlot_ROOT_def)

text \<open>A lookup finds exactly the leaf entries whose path is the list of indices.\<close>

lemma leaf_at_iff:
  assumes inv: "cp_inv cp paths" and "length ixs = 4"
  shows "leaf_at cp ixs = Some e \<longleftrightarrow>
    e \<in> set (cp_entries cp) \<and> et_kind (pe_target e) = PhysicalFrameTarget
    \<and> paths ! fs_as_index (pe_table_slot e) @ [pe_index e] = ixs"
proof
  assume "leaf_at cp ixs = Some e"
  then obtain slot where slot: "leaf_walk cp FrameSlot_ROOT (take 3 ixs) = Some slot"
      "find_entry cp slot (ixs ! 3) = Some e" "et_kind (pe_target e) = PhysicalFrameTarget"
    by (auto simp: leaf_at_def split: option.splits if_splits)
  have "paths ! fs_as_index slot = take 3 ixs"
    using leaf_walk_sound [OF inv _ slot(1)] cp_invD(2,4) [OF inv] by simp
  then show "e \<in> set (cp_entries cp) \<and> et_kind (pe_target e) = PhysicalFrameTarget
      \<and> paths ! fs_as_index (pe_table_slot e) @ [pe_index e] = ixs"
    using find_entry_Some [OF slot(2)] slot(3) split_four [OF assms(2)] by auto
next
  assume e: "e \<in> set (cp_entries cp) \<and> et_kind (pe_target e) = PhysicalFrameTarget
      \<and> paths ! fs_as_index (pe_table_slot e) @ [pe_index e] = ixs"
  then have ixs: "take 3 ixs = paths ! fs_as_index (pe_table_slot e)" "ixs ! 3 = pe_index e"
    using split_four [OF assms(2)] by (metis append1_eq_conv)+
  have "fs_as_index (pe_table_slot e) < length paths"
    using e cp_invD(9) [OF inv] by (simp add: entry_fits_def)
  then have "leaf_walk cp FrameSlot_ROOT (take 3 ixs) = Some (pe_table_slot e)"
    using leaf_walk_complete [OF inv] by (simp add: ixs(1))
  then show "leaf_at cp ixs = Some e"
    using e find_entry_eq [OF inv] by (simp add: leaf_at_def ixs(2))
qed

subsection \<open>Adding a table or a leaf keeps the invariant\<close>

lemma entry_fits_append: "entry_fits paths e \<Longrightarrow> entry_fits (paths @ ext) e"
  by (auto simp: entry_fits_def nth_append split: entry_target_kind.splits)

lemma path_fresh:
  assumes inv: "cp_inv cp paths" and s: "fs_as_index s < length paths"
    and none: "find_entry cp s i = None"
  shows "paths ! fs_as_index s @ [i] \<notin> set paths"
proof
  assume "paths ! fs_as_index s @ [i] \<in> set paths"
  then obtain j where j: "j < length paths" "paths ! j = paths ! fs_as_index s @ [i]"
    by (auto simp: in_set_conv_nth)
  then have "0 < j" using cp_invD(4) [OF inv] by (cases j) auto
  then obtain e where e: "e \<in> set (cp_entries cp)" "pe_target e = EntryTarget_table (slot_at j)"
    using inv j(1) by (auto simp: cp_inv_def)
  have "et_frame_slot (pe_target e) = Some (slot_at j)" using e(2) by simp
  from entry_fits_child(3) [OF cp_invD(9) [OF inv e(1)] cp_invD(3) [OF inv] this]
  have "paths ! j = paths ! fs_as_index (pe_table_slot e) @ [pe_index e]"
    using cp_invD(8) [OF inv j(1)] by simp
  with j(2) have eq: "paths ! fs_as_index (pe_table_slot e) = paths ! fs_as_index s" "pe_index e = i"
    by simp_all
  have "fs_as_index (pe_table_slot e) < length paths"
    using cp_invD(9) [OF inv e(1)] by (simp add: entry_fits_def)
  then have "fs_as_index (pe_table_slot e) = fs_as_index s"
    using eq(1) s cp_invD(5) [OF inv] by (simp add: nth_eq_iff_index_eq)
  then have "pe_table_slot e = s" by (metis slot_at_fs_as_index)
  with e(1) eq(2) none show False by (force simp: find_entry_None)
qed

lemma cp_inv_new_leaf:
  assumes inv: "cp_inv cp paths" and s: "fs_as_index s < length paths"
    and "length (paths ! fs_as_index s) = 3" and none: "find_entry cp s i = None"
    and cp': "cp_tables cp' = cp_tables cp"
      "cp_entries cp' = cp_entries cp @
        [\<lparr>pe_table_slot = s, pe_index = i, pe_target = EntryTarget_physical f, pe_flags = fl\<rparr>]"
  shows "cp_inv cp' paths"
  using inv s assms(3) none
  by (auto simp: cp_inv_def cp' find_entry_None entry_fits_def)

lemma cp_inv_new_table:
  assumes inv: "cp_inv cp paths" and s: "fs_as_index s < length paths"
    and d: "length (paths ! fs_as_index s) = d" "d < 3" and none: "find_entry cp s i = None"
    and n: "length (cp_tables cp) = n" "n < 2 ^ 32"
    and cp': "cp_tables cp' = cp_tables cp @
        [\<lparr>pt_level = level_at (Suc d), pt_frame_slot = slot_at n, pt_parent_slot = s,
          pt_parent_index = i\<rparr>]"
      "cp_entries cp' = cp_entries cp @
        [\<lparr>pe_table_slot = s, pe_index = i, pe_target = EntryTarget_table (slot_at n),
          pe_flags = EF_INTERMEDIATE\<rparr>]"
  shows "cp_inv cp' (paths @ [paths ! fs_as_index s @ [i]])"
proof -
  let ?new = "\<lparr>pe_table_slot = s, pe_index = i, pe_target = EntryTarget_table (slot_at n),
          pe_flags = EF_INTERMEDIATE\<rparr>"
  let ?paths = "paths @ [paths ! fs_as_index s @ [i]]"
  have len: "length paths = n" using cp_invD(1) [OF inv] n(1) by simp
  have "entry_fits ?paths ?new"
    using s len by (auto simp: entry_fits_def nth_append intro!: exI [of _ n])
  moreover have "entry_fits ?paths e" if "e \<in> set (cp_entries cp)" for e
    using cp_invD(9) [OF inv that] by (rule entry_fits_append)
  moreover have "distinct ?paths"
    using path_fresh [OF inv s none] cp_invD(5) [OF inv] by simp
  moreover have "distinct (map entry_key (cp_entries cp'))"
    using cp_invD(6) [OF inv] none by (auto simp: cp' find_entry_None)
  moreover have "\<exists>e \<in> set (cp_entries cp'). pe_target e = EntryTarget_table (slot_at j)
      \<and> entry_key e = (pt_parent_slot (cp_tables cp' ! j), pt_parent_index (cp_tables cp' ! j))"
    if "j < length ?paths" "0 < j" for j
  proof (cases "j < n")
    case True
    then show ?thesis using inv that(2) len n(1) by (auto simp: cp_inv_def cp' nth_append)
  next
    case False
    then have "j = n" using that(1) len by simp
    then show ?thesis using len n(1) by (simp add: cp' nth_append)
  qed
  moreover have "length (?paths ! j) \<le> 3 \<and> pt_frame_slot (cp_tables cp' ! j) = slot_at j
      \<and> pt_level (cp_tables cp' ! j) = level_at (length (?paths ! j))" if "j < length ?paths" for j
  proof (cases "j < n")
    case True
    then show ?thesis using inv len n(1) by (auto simp: cp_inv_def cp' nth_append)
  next
    case False
    then have "j = n" using that len by simp
    then show ?thesis using d len n(1) by (simp add: cp' nth_append)
  qed
  ultimately show ?thesis
    unfolding cp_inv_def using cp_invD(2,4) [OF inv] len n by (auto simp: cp' nth_append)
qed

subsection \<open>What one step of the construction adds\<close>

text \<open>The root entries of the lower half, as the removal records they give.\<close>

definition low_root_entry :: "planned_entry \<Rightarrow> bool" where
  "low_root_entry e \<longleftrightarrow> pe_table_slot e = FrameSlot_ROOT \<and> ti_get (pe_index e) < 256"

definition removal_of :: "planned_entry \<Rightarrow> transition_removal" where
  "removal_of e = \<lparr>tr_table_slot = pe_table_slot e, tr_index = pe_index e,
     tr_expected_target = FrameSlot (ucast (et_value (pe_target e))), tr_expected_flags = pe_flags e\<rparr>"

definition removals_inv :: "construction_plan \<Rightarrow> bool" where
  "removals_inv cp \<longleftrightarrow> cp_removals cp = map removal_of (filter low_root_entry (cp_entries cp))"

text \<open>
  One state extends another by tables with longer paths and by intermediate entries only.
\<close>

definition cp_extends ::
    "construction_plan \<Rightarrow> table_index list list \<Rightarrow> construction_plan \<Rightarrow> table_index list list \<Rightarrow> bool"
where
  "cp_extends cp paths cp' paths' \<longleftrightarrow>
     cp_inv cp' paths' \<and> (\<exists>ext. paths' = paths @ ext) \<and> cp_mode cp' = cp_mode cp
     \<and> (removals_inv cp \<longrightarrow> removals_inv cp')
     \<and> (\<exists>new. cp_entries cp' = cp_entries cp @ new
         \<and> list_all (\<lambda>e. et_kind (pe_target e) = TableSlot) new)"

lemma cp_extends_refl: "cp_inv cp paths \<Longrightarrow> cp_extends cp paths cp paths"
  by (simp add: cp_extends_def)

lemma cp_extends_trans:
  "cp_extends a pa b pb \<Longrightarrow> cp_extends b pb c pc \<Longrightarrow> cp_extends a pa c pc"
  unfolding cp_extends_def by (auto simp: list_all_iff)

lemma removals_inv_push:
  assumes "removals_inv cp" and "cp_entries cp' = cp_entries cp @ [e]"
    and "cp_removals cp' = cp_removals cp @ (if low_root_entry e then [removal_of e] else [])"
  shows "removals_inv cp'"
  using assms by (simp add: removals_inv_def)

lemma root_iff_no_path:
  assumes "cp_inv cp paths" and "fs_as_index s < length paths"
  shows "s = FrameSlot_ROOT \<longleftrightarrow> paths ! fs_as_index s = []"
proof
  assume "paths ! fs_as_index s = []"
  then have "fs_as_index s = 0"
    using assms cp_invD(2,4,5) [OF assms(1)] nth_eq_iff_index_eq [of paths 0 "fs_as_index s"] by simp
  then show "s = FrameSlot_ROOT" by (metis fs_as_index_ROOT slot_at_fs_as_index)
qed (use assms cp_invD(4) in simp)

lemma level_child_at: "d < 3 \<Longrightarrow> level_child (level_at d) = Some (level_at (Suc d))"
  by (auto simp: level_at_def less_Suc_eq numeral_3_eq_3)

lemma level_at_Pml4: "d < 3 \<Longrightarrow> level_at d = Pml4 \<longleftrightarrow> d = 0"
  by (auto simp: level_at_def less_Suc_eq numeral_3_eq_3)

lemma ensure_child_new:
  assumes inv: "cp_inv cp paths" and s: "fs_as_index s < length paths"
    and d: "length (paths ! fs_as_index s) = d" "d < 3"
    and low: "d = 0 \<Longrightarrow> ti_get i < 256 \<longleftrightarrow> va_get va < HIGH_CANONICAL_START"
    and none: "find_entry cp s i = None"
    and run: "ensure_child cp s (level_at d) i va = Ok (cp', t)"
  shows "cp_extends cp paths cp' (paths @ [paths ! fs_as_index s @ [i]])
    \<and> fs_as_index t = length paths"
proof -
  let ?n = "length (cp_tables cp)"
  let ?e = "\<lparr>pe_table_slot = s, pe_index = i, pe_target = EntryTarget_table (slot_at ?n),
          pe_flags = EF_INTERMEDIATE\<rparr>"
  have run': "?n < 2 ^ 32" "t = slot_at ?n"
      "cp_tables cp' = cp_tables cp @ [\<lparr>pt_level = level_at (Suc d), pt_frame_slot = slot_at ?n,
         pt_parent_slot = s, pt_parent_index = i\<rparr>]"
      "cp_entries cp' = cp_entries cp @ [?e]" "cp_mode cp' = cp_mode cp"
      "cp_removals cp' = cp_removals cp
         @ (if d = 0 \<and> va_get va < HIGH_CANONICAL_START then [removal_of ?e] else [])"
    using run none d(2)
    by (auto simp: ensure_child_def FrameSlot_from_index_def level_child_at level_at_Pml4 Let_def
        push_entry_def push_removal_def removal_of_def EntryTarget_table_def et_frame_slot_def
        split: if_splits)
  have "low_root_entry ?e \<longleftrightarrow> d = 0 \<and> va_get va < HIGH_CANONICAL_START"
    using low root_iff_no_path [OF inv s] d(1) by (auto simp: low_root_entry_def)
  then have "removals_inv cp \<longrightarrow> removals_inv cp'"
    using removals_inv_push [OF _ run'(4)] run'(6) by simp
  moreover have "cp_inv cp' (paths @ [paths ! fs_as_index s @ [i]])"
    by (rule cp_inv_new_table [OF inv s d none refl run'(1,3,4)])
  ultimately show ?thesis
    using run' cp_invD(1) [OF inv] by (simp add: cp_extends_def)
qed

lemma ensure_child_step:
  assumes inv: "cp_inv cp paths" and s: "fs_as_index s < length paths"
    and d: "length (paths ! fs_as_index s) = d" "d < 3"
    and low: "d = 0 \<Longrightarrow> ti_get i < 256 \<longleftrightarrow> va_get va < HIGH_CANONICAL_START"
    and run: "ensure_child cp s (level_at d) i va = Ok (cp', t)"
  shows "\<exists>paths'. cp_extends cp paths cp' paths' \<and> fs_as_index t < length paths'
    \<and> paths' ! fs_as_index t = paths ! fs_as_index s @ [i]"
proof (cases "find_entry cp s i")
  case None
  from ensure_child_new [OF assms(1-4) low None run] show ?thesis
    by (intro exI [of _ "paths @ [paths ! fs_as_index s @ [i]]"]) (simp add: nth_append)
next
  case (Some e)
  with run have e: "cp' = cp" "et_frame_slot (pe_target e) = Some t"
    by (auto simp: ensure_child_def)
  from find_entry_Some [OF Some] have "e \<in> set (cp_entries cp)" "pe_table_slot e = s" "pe_index e = i"
    by simp_all
  with entry_fits_child(1,3) [OF cp_invD(9) [OF inv] cp_invD(3) [OF inv] e(2)] e(1) show ?thesis
    by (intro exI [of _ paths]) (simp add: cp_extends_refl [OF inv])
qed

lemma ensure_child_outcome:
  assumes inv: "cp_inv cp paths" and s: "fs_as_index s < length paths"
    and d: "length (paths ! fs_as_index s) = d" "d < 3"
  shows "case ensure_child cp s (level_at d) i va of
      Ok _ \<Rightarrow> True
    | Err e \<Rightarrow> e \<in> {TableCapacityExhausted, EntryCapacityExhausted, RemovalCapacityExhausted,
        FrameSlotOverflow}
    | Panic \<Rightarrow> False"
proof (cases "find_entry cp s i")
  case None
  then show ?thesis
    using d(2)
    by (auto simp: ensure_child_def FrameSlot_from_index_def level_child_at Let_def push_entry_def
        push_removal_def split: result.splits if_splits)
next
  case (Some e)
  then have e: "e \<in> set (cp_entries cp)" "pe_table_slot e = s"
    using find_entry_Some by auto
  then have "et_kind (pe_target e) = TableSlot"
    using cp_invD(9) [OF inv e(1)] d
    by (cases "et_kind (pe_target e)") (auto simp: entry_fits_def)
  then show ?thesis using Some by (simp add: ensure_child_def et_frame_slot_def)
qed

subsection \<open>Index arithmetic\<close>

lemma unat_table_index:
  "unat (ti_get (TableIndex (ucast (drop_bit k (a :: u64) AND 0x1ff)))) = unat a div 2 ^ k mod 512"
proof -
  have m: "(0x1ff :: u64) = mask 9" by (simp add: mask_eq_exp_minus_1)
  have "unat (drop_bit k a AND 0x1ff) = unat a div 2 ^ k mod 2 ^ 9"
    unfolding m take_bit_eq_mask [symmetric]
    by (subst unsigned_take_bit_eq, subst unat_drop_bit_eq)
      (simp only: take_bit_eq_mod drop_bit_eq_div)
  then show ?thesis
    by (simp add: unsigned_ucast_eq take_bit_nat_eq_self)
qed

text \<open>
  A canonical number has its upper bits determined by the bits below: with \<open>m * n\<close> the range
  of the lower bits, the residue is the number itself or the number less the sign extension.
\<close>

lemma canonical_mod:
  assumes "x < h \<or> l \<le> x" and "x < t" and "t = m * n" and "h \<le> m" and "l + h = t" and "0 < n"
  shows "(x :: nat) mod m = (if x < h then x else x - (t - m))"
proof (cases "x < h")
  case True
  with assms(4) show ?thesis by simp
next
  case False
  obtain k where k: "n = Suc k" using assms(6) by (cases n) auto
  then have t: "t = m * k + m" using assms(3) by simp
  then have "m * k \<le> x" "x - m * k < m" using False assms by auto
  then have "x mod m = (m * k + (x - m * k)) mod m" by simp
  also have "\<dots> = x - m * k" using \<open>x - m * k < m\<close> by (simp only: mod_mult_self4 mod_less)
  finally show ?thesis using False t by simp
qed

lemma index_low_iff:
  assumes "is_canonical (va_get va)"
  shows "ti_get (virtual_address_indices va ! 0) < 256 \<longleftrightarrow> va_get va < HIGH_CANONICAL_START"
proof -
  let ?x = "unat (va_get va) div 2 ^ 39"
  have c: "unat (va_get va) < 2 ^ 47 \<or> 2 ^ 64 - 2 ^ 47 \<le> unat (va_get va)"
    using assms by (auto simp: is_canonical_def const_defs word_nat)
  then have x: "?x < 256 \<longleftrightarrow> va_get va < HIGH_CANONICAL_START" "?x < 256 \<or> 2 ^ 25 - 256 \<le> ?x"
    by (auto simp: const_defs word_nat div_less_iff_less_mult less_eq_div_iff_mult_less_eq)
  have "?x < 2 ^ 25" using unat_less_64 [of "va_get va"] by (simp add: div_less_iff_less_mult)
  then have "?x mod 512 = (if ?x < 256 then ?x else ?x - (2 ^ 25 - 512))"
    using x(2) by (intro canonical_mod [where l = "2 ^ 25 - 256" and n = "2 ^ 16"]) auto
  then have "?x mod 512 < 256 \<longleftrightarrow> ?x < 256" using x(2) by auto
  then show ?thesis
    using x(1) unat_table_index [of 39 "va_get va"]
    by (simp add: virtual_address_indices_def word_less_nat_alt [of _ 256])
qed

lemma page_number_mod:
  "(p :: nat) mod 2 ^ 36 =
     p mod 512 + 512 * (p div 512 mod 512 + 512 * (p div 512 div 512 mod 512
       + 512 * (p div 512 div 512 div 512 mod 512)))"
proof -
  have step: "x mod (512 * m) = 512 * (x div 512 mod m) + x mod 512" for x m :: nat
    by (rule mod_mult2_eq)
  have "p mod (512 * (512 * (512 * 512)))
      = p mod 512 + 512 * (p div 512 mod 512 + 512 * (p div 512 div 512 mod 512
          + 512 * (p div 512 div 512 div 512 mod 512)))"
    by (simp only: step) simp
  then show ?thesis by simp
qed

text \<open>Canonical page addresses with the same indices are equal.\<close>

lemma indices_inj:
  assumes "is_canonical a" "is_canonical b" "is_multiple_of a PAGE_SIZE" "is_multiple_of b PAGE_SIZE"
    and "virtual_address_indices (VirtualAddress a) = virtual_address_indices (VirtualAddress b)"
  shows "a = b"
proof -
  have eq: "unat a div 2 ^ k mod 512 = unat b div 2 ^ k mod 512" if "k \<in> {12, 21, 30, 39}" for k
    using that assms(5) unat_table_index [of k a] unat_table_index [of k b]
    by (auto simp: virtual_address_indices_def)
  have "unat a div 4096 mod 2 ^ 36 = unat b div 4096 mod 2 ^ 36"
    unfolding page_number_mod using eq [of 12] eq [of 21] eq [of 30] eq [of 39]
    by (simp add: div_mult2_eq [symmetric])
  moreover have page: "unat x div 4096 mod 2 ^ 36
      = (if unat x div 4096 < 2 ^ 35 then unat x div 4096 else unat x div 4096 - (2 ^ 52 - 2 ^ 36))"
      "unat x div 4096 < 2 ^ 35 \<or> 2 ^ 52 - 2 ^ 35 \<le> unat x div 4096"
    if "is_canonical x" for x
  proof -
    show c: "unat x div 4096 < 2 ^ 35 \<or> 2 ^ 52 - 2 ^ 35 \<le> unat x div 4096"
      using that by (auto simp: is_canonical_def const_defs word_nat div_less_iff_less_mult
          less_eq_div_iff_mult_less_eq)
    have "unat x div 4096 < 2 ^ 52" using unat_less_64 [of x] by (simp add: div_less_iff_less_mult)
    with c show "unat x div 4096 mod 2 ^ 36
      = (if unat x div 4096 < 2 ^ 35 then unat x div 4096 else unat x div 4096 - (2 ^ 52 - 2 ^ 36))"
      by (intro canonical_mod [where l = "2 ^ 52 - 2 ^ 35" and n = "2 ^ 16"]) auto
  qed
  ultimately have "unat a div 4096 = unat b div 4096"
    using page [OF assms(1)] page [OF assms(2)] by (auto simp: eq_diff_iff split: if_splits)
  moreover have "unat a mod 4096 = 0" "unat b mod 4096 = 0"
    using assms(3,4) by (simp_all add: word_nat PAGE_SIZE_def)
  ultimately have "unat a = unat b" by (metis div_mult_mod_eq)
  then show ?thesis by (simp add: word_eq_nat)
qed

lemma indices_page:
  "virtual_address_indices (VirtualAddress a) = virtual_address_indices (VirtualAddress (a AND NOT 0xfff))"
proof -
  have m: "(0xfff :: u64) = mask 12" by (simp add: mask_eq_exp_minus_1)
  have "drop_bit k (a AND NOT (mask 12)) = drop_bit k a" if "12 \<le> k" for k
    using that by (auto simp: bit_eq_iff bit_simps dest: bit_imp_le_length)
  then show ?thesis by (simp add: virtual_address_indices_def m del: mask_numeral)
qed

subsection \<open>Inserting a page\<close>

abbreviation descend_step ::
    "virtual_address \<Rightarrow> construction_plan \<times> frame_slot \<Rightarrow> table_level \<times> table_index \<Rightarrow>
     (construction_plan \<times> frame_slot, page_table_error) result" where
  "descend_step va \<equiv> \<lambda>(cp, slot) (level, index). ensure_child cp slot level index va"

lemma zip_levels: "d < 3 \<Longrightarrow> zip (map level_at [d ..< 3]) (i # is)
    = (level_at d, i) # zip (map level_at [Suc d ..< 3]) is"
  by (simp add: upt_conv_Cons)

lemma descend:
  assumes "cp_inv cp paths" and "fs_as_index s < length paths"
    and "length (paths ! fs_as_index s) = d" and "d + length is = 3"
    and "d = 0 \<Longrightarrow> ti_get (hd is) < 256 \<longleftrightarrow> va_get va < HIGH_CANONICAL_START"
    and "try_fold (descend_step va) (cp, s) (zip (map level_at [d ..< 3]) is) = Ok (cp', t)"
  shows "\<exists>paths'. cp_extends cp paths cp' paths' \<and> fs_as_index t < length paths'
    \<and> paths' ! fs_as_index t = paths ! fs_as_index s @ is"
  using assms
proof (induction "is" arbitrary: cp paths s d)
  case Nil
  then show ?case by (auto intro!: exI [of _ paths] cp_extends_refl)
next
  case (Cons i "is")
  then have d: "d < 3" by simp
  from Cons.prems(6) obtain cp1 u where run: "ensure_child cp s (level_at d) i va = Ok (cp1, u)"
      "try_fold (descend_step va) (cp1, u) (zip (map level_at [Suc d ..< 3]) is) = Ok (cp', t)"
    by (auto simp: zip_levels [OF d])
  obtain paths1 where p1: "cp_extends cp paths cp1 paths1" "fs_as_index u < length paths1"
      "paths1 ! fs_as_index u = paths ! fs_as_index s @ [i]"
    using ensure_child_step [OF Cons.prems(1,2,3) d _ run(1)] Cons.prems(5) by auto
  moreover have "cp_inv cp1 paths1" using p1(1) by (simp add: cp_extends_def)
  ultimately obtain paths2 where "cp_extends cp1 paths1 cp' paths2" "fs_as_index t < length paths2"
      "paths2 ! fs_as_index t = paths1 ! fs_as_index u @ is"
    using Cons.IH [of cp1 paths1 u "Suc d"] Cons.prems(3,4) run(2) by auto
  with p1 show ?case by (intro exI [of _ paths2]) (auto intro: cp_extends_trans)
qed

lemma descend_outcome:
  assumes "cp_inv cp paths" and "fs_as_index s < length paths"
    and "length (paths ! fs_as_index s) = d" and "d + length is = 3"
    and "d = 0 \<Longrightarrow> ti_get (hd is) < 256 \<longleftrightarrow> va_get va < HIGH_CANONICAL_START"
  shows "case try_fold (descend_step va) (cp, s) (zip (map level_at [d ..< 3]) is) of
      Ok _ \<Rightarrow> True
    | Err e \<Rightarrow> e \<in> {TableCapacityExhausted, EntryCapacityExhausted, RemovalCapacityExhausted,
        FrameSlotOverflow}
    | Panic \<Rightarrow> False"
  using assms
proof (induction "is" arbitrary: cp paths s d)
  case (Cons i "is")
  then have d: "d < 3" by simp
  note out = ensure_child_outcome [OF Cons.prems(1,2,3) d, of i va]
  show ?case
  proof (cases "ensure_child cp s (level_at d) i va")
    case (Ok r)
    obtain cp1 u where r: "r = (cp1, u)" by (cases r)
    obtain paths1 where "cp_extends cp paths cp1 paths1" "fs_as_index u < length paths1"
        "paths1 ! fs_as_index u = paths ! fs_as_index s @ [i]"
      using ensure_child_step [OF Cons.prems(1,2,3) d _ Ok [unfolded r]] Cons.prems(5) by auto
    then show ?thesis
      using Cons.IH [of cp1 paths1 u "Suc d"] Cons.prems(3,4) Ok r
      by (simp add: zip_levels [OF d] cp_extends_def)
  qed (use out in \<open>auto simp: zip_levels [OF d]\<close>)
qed simp

lemma levels_eq: "[Pml4, Pdpt, Pd] = map level_at [0 ..< 3]"
  by (simp add: level_at_def upt_rec numeral_3_eq_3)

abbreviation root_path :: "virtual_address \<Rightarrow> table_index list" where
  "root_path va \<equiv> take 3 (virtual_address_indices va)"

lemma length_indices [simp]: "length (virtual_address_indices va) = 4"
  by (simp add: virtual_address_indices_def)

lemma hd_root_path: "hd (root_path va) = virtual_address_indices va ! 0"
  by (simp add: virtual_address_indices_def numeral_3_eq_3)

text \<open>A successful insertion of a page adds one leaf at the indices of the address.\<close>

lemma insert_page_runs:
  assumes inv: "cp_inv cp paths" and can: "is_canonical (va_get va)"
    and run: "insert_page cp va frame perms c = Ok cp'"
  obtains cp1 paths1 slot flags where
    "cp_extends cp paths cp1 paths1" "fs_as_index slot < length paths1"
    "paths1 ! fs_as_index slot = root_path va" "EntryFlags_for_leaf perms c = Ok flags"
    "find_entry cp1 slot (virtual_address_indices va ! 3) = None"
    "cp' = cp1\<lparr>cp_entries := cp_entries cp1 @ [\<lparr>pe_table_slot = slot,
       pe_index = virtual_address_indices va ! 3, pe_target = EntryTarget_physical frame,
       pe_flags = flags\<rparr>]\<rparr>"
proof -
  from run obtain cp1 slot flags where r:
      "try_fold (descend_step va) (cp, FrameSlot_ROOT) (zip (map level_at [0 ..< 3]) (root_path va))
        = Ok (cp1, slot)"
      "EntryFlags_for_leaf perms c = Ok flags"
      "find_entry cp1 slot (virtual_address_indices va ! 3) = None"
      "cp' = cp1\<lparr>cp_entries := cp_entries cp1 @ [\<lparr>pe_table_slot = slot,
         pe_index = virtual_address_indices va ! 3, pe_target = EntryTarget_physical frame,
         pe_flags = flags\<rparr>]\<rparr>"
    unfolding insert_page_def Let_def levels_eq
    by (auto simp: push_entry_def split: option.splits if_splits)
  from descend [OF inv _ _ _ _ r(1)] cp_invD(2,4) [OF inv] index_low_iff [OF can]
  obtain paths1 where "cp_extends cp paths cp1 paths1" "fs_as_index slot < length paths1"
      "paths1 ! fs_as_index slot = root_path va"
    by (auto simp: hd_root_path)
  with r(2-4) show thesis by (intro that)
qed

text \<open>
  After the walk to the page table of an address, the entry at its last index is the leaf the
  address had before the walk added any table.
\<close>

lemma leaf_slot_eq:
  assumes inv: "cp_inv cp paths" and ext: "cp_extends cp paths cp1 paths1"
    and slot: "fs_as_index slot < length paths1" "paths1 ! fs_as_index slot = root_path va"
  shows "find_entry cp1 slot (virtual_address_indices va ! 3) = leaf_at cp (virtual_address_indices va)"
proof -
  let ?ixs = "virtual_address_indices va"
  have inv1: "cp_inv cp1 paths1" using ext by (simp add: cp_extends_def)
  have va: "root_path va @ [?ixs ! 3] = ?ixs" using split_four [of ?ixs] by simp
  have old: "paths1 ! fs_as_index (pe_table_slot e) = paths ! fs_as_index (pe_table_slot e)"
      "fs_as_index (pe_table_slot e) < length paths1" "e \<in> set (cp_entries cp1)"
    if "e \<in> set (cp_entries cp)" for e
    using cp_invD(9) [OF inv that] ext that by (auto simp: cp_extends_def nth_append entry_fits_def)
  have "leaf_at cp ?ixs = Some e" if found: "find_entry cp1 slot (?ixs ! 3) = Some e" for e
  proof -
    from find_entry_Some [OF found] have e: "e \<in> set (cp_entries cp1)" "pe_table_slot e = slot"
        "pe_index e = ?ixs ! 3"
      by simp_all
    have phys: "et_kind (pe_target e) = PhysicalFrameTarget"
      using entry_fits_child(1,3) [OF cp_invD(9) [OF inv1 e(1)] cp_invD(3) [OF inv1]] slot(2) e(2)
        cp_invD(7) [OF inv1]
      by (cases "et_kind (pe_target e)") (fastforce simp: et_frame_slot_def)+
    with ext e(1) have "e \<in> set (cp_entries cp)" by (auto simp: cp_extends_def list_all_iff)
    with phys e old(1) [of e] slot(2) va show ?thesis by (subst leaf_at_iff [OF inv]) simp_all
  qed
  moreover have "find_entry cp1 slot (?ixs ! 3) = Some e" if "leaf_at cp ?ixs = Some e" for e
  proof -
    from that have e: "e \<in> set (cp_entries cp)"
        "paths ! fs_as_index (pe_table_slot e) @ [pe_index e] = ?ixs"
      by (simp_all add: leaf_at_iff [OF inv])
    then have eq: "paths1 ! fs_as_index (pe_table_slot e) = paths1 ! fs_as_index slot"
        and i: "pe_index e = ?ixs ! 3"
      using old(1) [OF e(1)] slot(2) va by (metis append1_eq_conv)+
    then have "fs_as_index (pe_table_slot e) = fs_as_index slot"
      using slot(1) old(2) [OF e(1)] cp_invD(5) [OF inv1] by (simp add: nth_eq_iff_index_eq)
    then have "pe_table_slot e = slot" by (metis slot_at_fs_as_index)
    with find_entry_eq [OF inv1 old(3) [OF e(1)]] i show ?thesis by simp
  qed
  ultimately show ?thesis by (metis option.exhaust)
qed

lemma insert_page_leaf_at:
  assumes inv: "cp_inv cp paths" and can: "is_canonical (va_get va)"
    and run: "insert_page cp va frame perms c = Ok cp'"
  obtains paths' leaf flags where "cp_inv cp' paths'" "cp_mode cp' = cp_mode cp"
    "removals_inv cp \<longrightarrow> removals_inv cp'"
    "EntryFlags_for_leaf perms c = Ok flags" "pe_flags leaf = flags"
    "pe_target leaf = EntryTarget_physical frame"
    "leaf_at cp (virtual_address_indices va) = None"
    "\<And>ixs. length ixs = 4 \<Longrightarrow>
      leaf_at cp' ixs = (if ixs = virtual_address_indices va then Some leaf else leaf_at cp ixs)"
proof -
  obtain cp1 paths1 slot flags where ext: "cp_extends cp paths cp1 paths1"
      "fs_as_index slot < length paths1" "paths1 ! fs_as_index slot = root_path va"
    and fl: "EntryFlags_for_leaf perms c = Ok flags"
    and none: "find_entry cp1 slot (virtual_address_indices va ! 3) = None"
    and cp': "cp' = cp1\<lparr>cp_entries := cp_entries cp1 @ [\<lparr>pe_table_slot = slot,
       pe_index = virtual_address_indices va ! 3, pe_target = EntryTarget_physical frame,
       pe_flags = flags\<rparr>]\<rparr>"
    by (rule insert_page_runs [OF inv can run])
  define leaf where "leaf = \<lparr>pe_table_slot = slot, pe_index = virtual_address_indices va ! 3,
    pe_target = EntryTarget_physical frame, pe_flags = flags\<rparr>"
  from ext(1) obtain new pext where cp1: "cp_inv cp1 paths1" "paths1 = paths @ pext"
      "cp_entries cp1 = cp_entries cp @ new" "list_all (\<lambda>e. et_kind (pe_target e) = TableSlot) new"
      "cp_mode cp1 = cp_mode cp" "removals_inv cp \<longrightarrow> removals_inv cp1"
    by (auto simp: cp_extends_def)
  have len3: "length (paths1 ! fs_as_index slot) = 3" by (simp add: ext(3))
  have inv': "cp_inv cp' paths1"
    by (rule cp_inv_new_leaf [OF cp1(1) ext(2) len3 none]) (simp_all add: cp')
  have old: "paths1 ! fs_as_index (pe_table_slot e) = paths ! fs_as_index (pe_table_slot e)"
    if "e \<in> set (cp_entries cp)" for e
    using cp_invD(9) [OF inv that] by (simp add: cp1(2) nth_append entry_fits_def)
  have va: "root_path va @ [virtual_address_indices va ! 3] = virtual_address_indices va"
    using split_four [of "virtual_address_indices va"] by simp
  have step: "leaf_at cp' ixs = Some e \<longleftrightarrow>
      leaf_at cp ixs = Some e \<or> e = leaf \<and> ixs = virtual_address_indices va"
    if "length ixs = 4" for ixs e
    unfolding leaf_at_iff [OF inv' that] leaf_at_iff [OF inv that]
    using cp1(4) old ext(3) va
    by (auto simp: cp' cp1(3) leaf_def list_all_iff)
  have fresh: "leaf_at cp (virtual_address_indices va) = None"
    using leaf_slot_eq [OF inv ext] none by simp
  have "removals_inv cp \<longrightarrow> removals_inv cp'"
  proof
    assume "removals_inv cp"
    moreover have "\<not> low_root_entry leaf"
      using root_iff_no_path [OF cp1(1) ext(2)] len3 by (auto simp: low_root_entry_def leaf_def)
    ultimately show "removals_inv cp'"
      using cp1(6) by (simp add: removals_inv_def cp' leaf_def)
  qed
  moreover have "leaf_at cp' ixs = (if ixs = virtual_address_indices va then Some leaf else leaf_at cp ixs)"
    if "length ixs = 4" for ixs
    using step [OF that] fresh by (cases "leaf_at cp' ixs"; cases "leaf_at cp ixs") auto
  ultimately show thesis
    using inv' fl fresh by (intro that [of paths1 flags leaf]) (simp_all add: cp' cp1(5) leaf_def)
qed

lemma insert_page_outcome:
  assumes inv: "cp_inv cp paths" and can: "is_canonical (va_get va)"
    and fl: "EntryFlags_for_leaf perms c = Ok flags"
    and fresh: "leaf_at cp (virtual_address_indices va) = None"
  shows "case insert_page cp va frame perms c of
      Ok _ \<Rightarrow> True
    | Err e \<Rightarrow> e \<in> {TableCapacityExhausted, EntryCapacityExhausted, RemovalCapacityExhausted,
        FrameSlotOverflow}
    | Panic \<Rightarrow> False"
proof -
  let ?run = "try_fold (descend_step va) (cp, FrameSlot_ROOT) (zip (map level_at [0 ..< 3]) (root_path va))"
  have root: "fs_as_index FrameSlot_ROOT < length paths" "length (paths ! fs_as_index FrameSlot_ROOT) = 0"
      "0 + length (root_path va) = 3"
    using cp_invD(2,4) [OF inv] by simp_all
  have low: "ti_get (hd (root_path va)) < 256 \<longleftrightarrow> va_get va < HIGH_CANONICAL_START"
    using index_low_iff [OF can] by (simp add: hd_root_path)
  have none: "find_entry cp1 slot (virtual_address_indices va ! 3) = None"
    if run: "?run = Ok (cp1, slot)" for cp1 slot
    using descend [OF inv root low run] leaf_slot_eq [OF inv] cp_invD(4) [OF inv] fresh by auto
  show ?thesis
    using descend_outcome [OF inv root low] none fl
    unfolding insert_page_def Let_def levels_eq
    by (cases ?run) (auto simp: push_entry_def)
qed

end
