(* ===== verification/Page_Table_Refinement.thy ===== *)
theory Page_Table_Refinement
  imports Page_Table_Invariant
begin

text \<open>
  The page tables implement the mapping plan: the pages of a plan, the construction loop over
  them, the refinement theorem (the four-level walk and the plan's translation agree), when the
  construction succeeds and which errors it can report, and what the transition removals do.
\<close>

section \<open>The pages of a plan\<close>

type_synonym plan_page = "u64 \<times> u64 \<times> mapping_permissions \<times> cache_policy"

definition entry_pages :: "plan_entry \<Rightarrow> plan_page list" where
  "entry_pages e =
     (case (backing e, permissions e, cache e) of
        (Mapped p, Some perms, Some c) \<Rightarrow>
          map (\<lambda>j. (vr_base (virtual_range e) + of_nat j * PAGE_SIZE, pr_base p + of_nat j * PAGE_SIZE,
              perms, c))
            [0 ..< unat (vr_length (virtual_range e) div PAGE_SIZE)]
      | _ \<Rightarrow> [])"

fun page_leaf :: "plan_page \<Rightarrow> table_index list \<times> u64 \<times> (entry_flags, page_table_error) result" where
  "page_leaf (va, pa, perms, c) =
     (virtual_address_indices (VirtualAddress va), pa, EntryFlags_for_leaf perms c)"

definition leaf_view ::
    "construction_plan \<Rightarrow> table_index list \<Rightarrow> (u64 \<times> (entry_flags, page_table_error) result) option"
where
  "leaf_view cp ixs = map_option (\<lambda>e. (et_value (pe_target e), Ok (pe_flags e))) (leaf_at cp ixs)"

text \<open>The construction plan holds exactly the leaves of a list of pages.\<close>

definition cp_holds :: "construction_plan \<Rightarrow> plan_page list \<Rightarrow> bool" where
  "cp_holds cp pages \<longleftrightarrow> removals_inv cp \<and> (\<exists>paths. cp_inv cp paths)
     \<and> (\<forall>ixs. length ixs = 4 \<longrightarrow> leaf_view cp ixs = map_of (map page_leaf (rev pages)) ixs)"

lemma insert_page_holds:
  assumes "cp_holds cp pages" and "is_canonical va"
    and "insert_page cp (VirtualAddress va) (PhysicalFrame pa) perms c = Ok cp'"
  shows "cp_holds cp' (pages @ [(va, pa, perms, c)]) \<and> cp_mode cp' = cp_mode cp"
proof -
  obtain paths where inv: "cp_inv cp paths" using assms(1) by (auto simp: cp_holds_def)
  obtain paths' leaf flags where "cp_inv cp' paths'" "cp_mode cp' = cp_mode cp"
      "removals_inv cp \<longrightarrow> removals_inv cp'"
      "EntryFlags_for_leaf perms c = Ok flags" "pe_flags leaf = flags"
      "pe_target leaf = EntryTarget_physical (PhysicalFrame pa)"
      "\<And>ixs. length ixs = 4 \<Longrightarrow> leaf_at cp' ixs =
        (if ixs = virtual_address_indices (VirtualAddress va) then Some leaf else leaf_at cp ixs)"
    using insert_page_leaf_at [OF inv _ assms(3)] assms(2) by (metis virtual_address.sel)
  with assms(1) show ?thesis by (auto simp: cp_holds_def leaf_view_def)
qed

section \<open>Mappings and the whole plan\<close>

text \<open>The arithmetic of one page of a well-formed mapping never overflows.\<close>

lemma page_arith:
  assumes ok: "vr_ok v" "pr_ok p" "vr_length v = pr_length p"
    and j: "j < unat (vr_length v div PAGE_SIZE)"
  shows "unat (of_nat j * PAGE_SIZE :: u64) = j * 4096" (is ?off)
    and "unat (vr_base v + of_nat j * PAGE_SIZE) = unat (vr_base v) + j * 4096" (is ?va)
    and "unat (pr_base p + of_nat j * PAGE_SIZE) = unat (pr_base p) + j * 4096" (is ?pa)
    and "unat (vr_base v) + j * 4096 + 4096 \<le> unat (vr_end v)"
    and "unat (pr_base p) + j * 4096 + 4096 \<le> unat (pr_end p)"
proof -
  have len: "unat (vr_length v) = unat (vr_end v) - unat (vr_base v)"
      "unat (vr_length v) = unat (pr_end p) - unat (pr_base p)"
    using unat_vr_length [OF ok(1)] unat_pr_length [OF ok(2)] ok(3) by simp_all
  have "j < unat (vr_length v) div 4096" using j by (simp add: unat_div PAGE_SIZE_def)
  then have jl: "j * 4096 + 4096 \<le> unat (vr_length v)" by linarith
  show "unat (vr_base v) + j * 4096 + 4096 \<le> unat (vr_end v)"
      "unat (pr_base p) + j * 4096 + 4096 \<le> unat (pr_end p)"
    using jl len vr_okD [OF ok(1)] pr_okD [OF ok(2)] by linarith+
  moreover show off: ?off
    using jl unat_less_64 [of "vr_length v"]
    by (simp add: unat_word_ariths unat_of_nat PAGE_SIZE_def)
  ultimately show ?va ?pa
    using unat_less_64 [of "vr_end v"] unat_less_64 [of "pr_end p"]
    by (simp_all add: unat_word_ariths off)
qed

lemma canonical_between:
  assumes "vr_ok v" and "unat (vr_base v) \<le> unat x" and "unat x < unat (vr_end v)"
  shows "is_canonical x"
proof -
  have "unat (vr_end v - 1) = unat (vr_end v) - 1"
    using assms by (intro unat_minus_one) auto
  then show ?thesis
    using assms by (auto simp: vr_ok_iff is_canonical_def canonical_half_def const_defs word_nat
        split: if_splits)
qed

lemma add_page_eq:
  assumes ok: "vr_ok (virtual_range e)" "pr_ok p" "vr_length (virtual_range e) = pr_length p"
    and j: "j < unat (vr_length (virtual_range e) div PAGE_SIZE)"
  shows "is_canonical (vr_base (virtual_range e) + of_nat j * PAGE_SIZE)"
    and "add_page e p perms c cp (of_nat j) =
      (if pr_base p + of_nat j * PAGE_SIZE = 0 then Err ZeroPhysicalFrame
       else insert_page cp (VirtualAddress (vr_base (virtual_range e) + of_nat j * PAGE_SIZE))
         (PhysicalFrame (pr_base p + of_nat j * PAGE_SIZE)) perms c)"
proof -
  let ?off = "of_nat j * PAGE_SIZE :: u64"
  let ?va = "vr_base (virtual_range e) + ?off" and ?pa = "pr_base p + ?off"
  note arith = page_arith [OF ok j]
  show can: "is_canonical ?va"
    using arith(2,4) by (intro canonical_between [OF ok(1)]) simp_all
  have j64: "unat (of_nat j :: u64) = j"
    using arith(4) unat_less_64 [of "vr_end (virtual_range e)"] by (simp add: unat_of_nat)
  have "checked_mul (of_nat j) PAGE_SIZE = Some ?off"
    using arith(1) j64 by (simp add: PAGE_SIZE_def)
  moreover have "checked_add (vr_base (virtual_range e)) ?off = Some ?va"
      "checked_add (pr_base p) ?off = Some ?pa"
    using arith(1-3) by simp_all
  moreover have "?pa < SUPPORTED_PHYSICAL_END" "is_multiple_of ?pa PAGE_SIZE"
    using arith(3,5) ok(2) by (simp_all add: pr_ok_iff word_nat PAGE_SIZE_def mod_add_left_eq)
  ultimately show "add_page e p perms c cp (of_nat j) =
      (if ?pa = 0 then Err ZeroPhysicalFrame
       else insert_page cp (VirtualAddress ?va) (PhysicalFrame ?pa) perms c)"
    using can
    by (simp add: add_page_def VirtualAddress_new_def PhysicalFrame_new_def PhysicalAddress_new_def
        del: checked_mul_Some checked_add_Some)
qed

lemma add_pages_hold:
  assumes ok: "vr_ok (virtual_range e)" "pr_ok p" "vr_length (virtual_range e) = pr_length p"
    and "n \<le> unat (vr_length (virtual_range e) div PAGE_SIZE)"
    and "cp_holds cp pages"
    and "try_fold (add_page e p perms c) cp (map of_nat [0 ..< n]) = Ok cp'"
  shows "cp_holds cp' (pages @ map (\<lambda>j. (vr_base (virtual_range e) + of_nat j * PAGE_SIZE,
      pr_base p + of_nat j * PAGE_SIZE, perms, c)) [0 ..< n]) \<and> cp_mode cp' = cp_mode cp"
  using assms(4-)
proof (induction n arbitrary: cp')
  case (Suc n)
  then obtain cp1 where cp1: "try_fold (add_page e p perms c) cp (map of_nat [0 ..< n]) = Ok cp1"
      "add_page e p perms c cp1 (of_nat n) = Ok cp'"
    by (auto simp: try_fold_append)
  have n: "n < unat (vr_length (virtual_range e) div PAGE_SIZE)" using Suc.prems(1) by simp
  note page = add_page_eq [OF ok n]
  have "cp_holds cp1 (pages @ map (\<lambda>j. (vr_base (virtual_range e) + of_nat j * PAGE_SIZE,
      pr_base p + of_nat j * PAGE_SIZE, perms, c)) [0 ..< n]) \<and> cp_mode cp1 = cp_mode cp"
    using Suc.IH [OF _ Suc.prems(2) cp1(1)] n by simp
  moreover have "insert_page cp1 (VirtualAddress (vr_base (virtual_range e) + of_nat n * PAGE_SIZE))
         (PhysicalFrame (pr_base p + of_nat n * PAGE_SIZE)) perms c = Ok cp'"
    using cp1(2) page(2) [of perms c cp1] by (simp split: if_splits)
  ultimately show ?case
    using insert_page_holds [OF _ page(1)] by fastforce
qed simp

lemma add_mapping_holds:
  assumes "entry_ok e" and "cp_holds cp pages" and "add_mapping cp e = Ok cp'"
  shows "cp_holds cp' (pages @ entry_pages e) \<and> cp_mode cp' = cp_mode cp"
proof (cases "backing e")
  case (Mapped p)
  from assms(1) Mapped obtain perms c where ok: "permissions e = Some perms" "cache e = Some c"
      "vr_ok (virtual_range e)" "pr_ok p" "vr_length (virtual_range e) = pr_length p"
    by (rule entry_ok_Mapped)
  with add_pages_hold [OF ok(3-5) order.refl assms(2)] assms(3) Mapped show ?thesis
    by (auto simp: add_mapping_def entry_pages_def split: if_splits)
next
  case UnmappedBacking
  with assms show ?thesis by (auto simp: add_mapping_def entry_pages_def split: if_splits)
qed

lemma add_mappings_hold:
  assumes "list_all entry_ok es" and "cp_holds cp pages" and "try_fold add_mapping cp es = Ok cp'"
  shows "cp_holds cp' (pages @ concat (map entry_pages es)) \<and> cp_mode cp' = cp_mode cp"
  using assms
proof (induction es arbitrary: cp pages)
  case (Cons e es)
  then obtain cp1 where "add_mapping cp e = Ok cp1" "try_fold add_mapping cp1 es = Ok cp'" by auto
  with Cons.IH [of cp1 "pages @ entry_pages e"] add_mapping_holds [of e cp pages cp1] Cons.prems
  show ?case by simp
qed simp

lemma begin_holds:
  assumes "ConstructionPlan_begin t n r mode = Ok cp"
  shows "cp_holds cp [] \<and> cp_mode cp = mode"
proof -
  have cp: "cp_entries cp = []" "cp_removals cp = []" "cp_mode cp = mode"
    using assms by (auto simp: ConstructionPlan_begin_def split: if_splits)
  have inv: "cp_inv cp [[]]"
    using assms by (auto simp: ConstructionPlan_begin_def cp_inv_def level_at_def FrameSlot_ROOT_def
        split: if_splits)
  have "leaf_at cp ixs = None" if "length ixs = 4" for ixs
    using leaf_at_iff [OF inv that] cp(1) by (cases "leaf_at cp ixs") auto
  with inv cp show ?thesis by (auto simp: cp_holds_def removals_inv_def leaf_view_def)
qed

text \<open>The parent links of every table are intact, so the final structure check never fails.\<close>

lemma validate_structure_Ok:
  assumes inv: "cp_inv cp paths"
  shows "validate_structure cp = Ok ()"
proof -
  have "structure_check cp (cp_tables cp ! i) = Ok ()" if i: "i < length (cp_tables cp)" "0 < i" for i
  proof -
    have i': "i < length paths" using i(1) cp_invD(1) [OF inv] by simp
    obtain e where e: "e \<in> set (cp_entries cp)" "pe_target e = EntryTarget_table (slot_at i)"
        "pe_table_slot e = pt_parent_slot (cp_tables cp ! i)"
        "pe_index e = pt_parent_index (cp_tables cp ! i)"
      using inv i(2) i' by (auto simp: cp_inv_def)
    have slot: "et_frame_slot (pe_target e) = Some (slot_at i)" using e(2) by simp
    note child = entry_fits_child [OF cp_invD(9) [OF inv e(1)] cp_invD(3) [OF inv] slot]
    have "fs_as_index (slot_at i) = i" using cp_invD(8) [OF inv i'] by simp
    with child(2) cp_invD(8) [OF inv i'] have "fs_as_index (pe_table_slot e) < 2 ^ 32 - 1" by simp
    then have "fs_get (pe_table_slot e) \<noteq> fs_get FrameSlot_NONE"
      by (auto simp: fs_as_index_def FrameSlot_NONE_def)
    moreover have "pt_frame_slot (cp_tables cp ! i) = slot_at i"
      using inv i' by (simp add: cp_inv_def)
    ultimately show ?thesis
      using find_entry_eq [OF inv e(1)] child(5) slot e(3,4)
      by (simp add: structure_check_def pt_parent_def)
  qed
  then show ?thesis
    unfolding validate_structure_def try_fold_unit_Ok
    by (auto simp: set_conv_nth)
qed

lemma build_holds:
  assumes "plan_ok mappings" and "ConstructionPlan_build t n r mappings mode = Ok cp"
  shows "cp_holds cp (concat (map entry_pages (plan_entries mappings))) \<and> cp_mode cp = mode"
proof -
  from assms(2) obtain cp0 where cp0: "ConstructionPlan_begin t n r mode = Ok cp0"
      "try_fold add_mapping cp0 (plan_entries mappings) = Ok cp"
    by (auto simp: ConstructionPlan_build_def finish_def)
  with add_mappings_hold [of "plan_entries mappings" cp0 "[]" cp] begin_holds [OF cp0(1)] assms(1)
  show ?thesis by (simp add: plan_ok_def)
qed

section \<open>The page tables implement the mapping plan\<close>

text \<open>The page of an address and the offset in it.\<close>

definition page_of :: "u64 \<Rightarrow> u64" where
  "page_of va = va AND NOT 0xfff"

definition page_offset :: "u64 \<Rightarrow> u64" where
  "page_offset va = va AND 0xfff"

lemma page_base: "unat (page_of va) = unat va - unat va mod 4096"
  using unat_and_not_mask [of va 12] by (simp add: mask_eq_exp_minus_1 page_of_def)

lemma page_split: "va = page_of va + page_offset va"
proof -
  have m: "(0xfff :: u64) = mask 12" by (simp add: mask_eq_exp_minus_1)
  show ?thesis
    unfolding page_of_def page_offset_def m
    by (subst disjunctive_add_eq_or) (auto simp: bit_eq_iff bit_simps)
qed

lemma page_aligned: "is_multiple_of (page_of va) PAGE_SIZE"
  by (simp add: word_nat page_base PAGE_SIZE_def minus_mod_eq_mult_div)

lemma indices_page_of:
  "virtual_address_indices (VirtualAddress (page_of va)) = virtual_address_indices (VirtualAddress va)"
  unfolding page_of_def by (rule indices_page [symmetric])

lemma round_down_le:
  assumes "0 < (m :: nat)" and "a mod m = 0"
  shows "a \<le> x - x mod m \<longleftrightarrow> a \<le> x"
proof -
  obtain q where "a = m * q" using assms(2) by (auto simp: mod_eq_0_iff_dvd elim: dvdE)
  moreover have "x - x mod m = m * (x div m)" by (simp add: minus_mod_eq_mult_div)
  ultimately show ?thesis
    using assms(1) by (simp add: less_eq_div_iff_mult_less_eq mult.commute)
qed

lemma vr_contains_page:
  assumes "vr_ok v"
  shows "vr_contains v (VirtualAddress (page_of va)) \<longleftrightarrow> vr_contains v (VirtualAddress va)"
proof -
  have al: "unat (vr_base v) mod 4096 = 0" "unat (vr_end v) mod 4096 = 0"
    using assms by (auto simp: vr_ok_iff word_nat PAGE_SIZE_def)
  have "unat (vr_base v) \<le> unat va - unat va mod 4096 \<longleftrightarrow> unat (vr_base v) \<le> unat va"
       "unat va - unat va mod 4096 < unat (vr_end v) \<longleftrightarrow> unat va < unat (vr_end v)"
    using round_down_le [of 4096 _ "unat va"] al by (auto simp flip: not_le)
  then show ?thesis by (simp add: vr_contains_def word_nat page_base)
qed

lemma plan_maps_page:
  assumes "plan_ok plan"
  shows "plan_maps plan va pa perms c \<longleftrightarrow>
    (\<exists>pa0. plan_maps plan (page_of va) pa0 perms c \<and> pa = pa0 + page_offset va)"
proof -
  have "vr_contains (virtual_range e) (VirtualAddress va) \<longleftrightarrow>
      vr_contains (virtual_range e) (VirtualAddress (page_of va))"
    if "e \<in> set (plan_entries plan)" for e
    using vr_contains_page plan_entry_ok [OF assms that] by (auto simp: entry_ok_def)
  moreover have "b + (va - a) = b + (page_of va - a) + page_offset va" for a b :: u64
    using page_split [of va] by (simp add: algebra_simps)
  ultimately show ?thesis unfolding plan_maps_iff by metis
qed

lemma canonical_page: "is_canonical va \<Longrightarrow> is_canonical (page_of va)"
  using round_down_le [of 4096 18446603336221196288 "unat va"]
  by (auto simp: is_canonical_def word_nat page_base const_defs)

text \<open>The pages of the plan are the page-aligned addresses it maps.\<close>

lemma entry_pages_iff:
  assumes "entry_ok e"
  shows "(va, pa, perms, c) \<in> set (entry_pages e) \<longleftrightarrow>
    is_multiple_of va PAGE_SIZE \<and> (\<exists>p. vr_contains (virtual_range e) (VirtualAddress va)
      \<and> backing e = Mapped p \<and> pa = pr_base p + (va - vr_base (virtual_range e))
      \<and> permissions e = Some perms \<and> cache e = Some c)"
proof (cases "backing e")
  case (Mapped p)
  obtain perms' c' where ok: "permissions e = Some perms'" "cache e = Some c'"
      "vr_ok (virtual_range e)" "pr_ok p" "vr_length (virtual_range e) = pr_length p"
    by (rule entry_ok_Mapped [OF assms Mapped])
  let ?v = "virtual_range e" and ?n = "unat (vr_length (virtual_range e) div PAGE_SIZE)"
  have al: "unat (vr_base ?v) mod 4096 = 0" using ok(3) by (simp add: vr_ok_iff word_nat PAGE_SIZE_def)
  have n: "?n = (unat (vr_end ?v) - unat (vr_base ?v)) div 4096"
    by (simp add: unat_div PAGE_SIZE_def unat_vr_length [OF ok(3)])
  have "(\<exists>j < ?n. va = vr_base ?v + of_nat j * PAGE_SIZE) \<longleftrightarrow>
      is_multiple_of va PAGE_SIZE \<and> vr_contains ?v (VirtualAddress va)"
  proof
    assume "\<exists>j < ?n. va = vr_base ?v + of_nat j * PAGE_SIZE"
    then obtain j where j: "j < ?n" "va = vr_base ?v + of_nat j * PAGE_SIZE" by blast
    from page_arith(2,4) [OF ok(3-5) j(1)] j(2) al
    show "is_multiple_of va PAGE_SIZE \<and> vr_contains ?v (VirtualAddress va)"
      by (auto simp: word_nat PAGE_SIZE_def vr_contains_def)
  next
    assume r: "is_multiple_of va PAGE_SIZE \<and> vr_contains ?v (VirtualAddress va)"
    define j where "j = (unat va - unat (vr_base ?v)) div 4096"
    have b: "unat va mod 4096 = 0" "unat (vr_base ?v) \<le> unat va" "unat va < unat (vr_end ?v)"
      using r by (auto simp: word_nat PAGE_SIZE_def vr_contains_def)
    have "unat (vr_end ?v) mod 4096 = 0" using ok(3) by (simp add: vr_ok_iff word_nat PAGE_SIZE_def)
    then have j: "j < ?n" "unat (vr_base ?v) + j * 4096 = unat va"
      unfolding j_def n using b al
      by (auto simp: mod_eq_0_iff_dvd dvd_diff_nat intro!: div_less_mono)
    with page_arith(2) [OF ok(3-5) j(1)] have "va = vr_base ?v + of_nat j * PAGE_SIZE"
      by (simp add: word_eq_nat)
    with j(1) show "\<exists>j < ?n. va = vr_base ?v + of_nat j * PAGE_SIZE" by blast
  qed
  then show ?thesis
    using Mapped ok(1,2) by (auto simp: entry_pages_def image_iff)
qed (simp add: entry_pages_def)

lemma plan_pages_iff:
  assumes "plan_ok plan"
  shows "(va, pa, perms, c) \<in> set (concat (map entry_pages (plan_entries plan))) \<longleftrightarrow>
    is_multiple_of va PAGE_SIZE \<and> plan_maps plan va pa perms c"
  using entry_pages_iff plan_entry_ok [OF assms] unfolding plan_maps_iff by fastforce

lemma for_leaf_flags:
  assumes "EntryFlags_for_leaf perms c = Ok f"
  shows "ef_writable f = mp_writable perms" "ef_executable f = mp_executable perms"
    "ef_bits f AND EF_USER = 0" "ef_bits f AND EF_CACHE_DISABLE \<noteq> 0 \<longleftrightarrow> c = Uncached"
  using assms
  by (auto simp: EntryFlags_for_leaf_def EntryFlags_from_bits_def Let_def ef_writable_def
      ef_executable_def const_defs split: if_splits cache_policy.splits)

lemma for_leaf_total:
  assumes "\<not> mp_user perms" and "\<not> (mp_writable perms \<and> mp_executable perms)"
  shows "\<exists>f. EntryFlags_for_leaf perms c = Ok f"
  using assms
  by (cases c) (auto simp: EntryFlags_for_leaf_def EntryFlags_from_bits_def Let_def const_defs)

lemma plan_maps_canonical: "plan_ok plan \<Longrightarrow> plan_maps plan va pa perms c \<Longrightarrow> is_canonical va"
  by (elim plan_maps_entry) (auto simp: vr_contains_def word_nat intro!: canonical_between)

lemma leaf_at_kind: "leaf_at cp ixs = Some e \<Longrightarrow> et_kind (pe_target e) = PhysicalFrameTarget"
  by (auto simp: leaf_at_def split: option.splits if_splits)

abbreviation plan_pages :: "mapping_plan \<Rightarrow> plan_page list" where
  "plan_pages plan \<equiv> concat (map entry_pages (plan_entries plan))"

lemma cp_holds_view:
  assumes "cp_holds cp pages"
  shows "map_of (map page_leaf (rev pages)) (virtual_address_indices va)
    = leaf_view cp (virtual_address_indices va)"
  using assms unfolding cp_holds_def by (metis length_indices)

lemma holds_None:
  assumes ok: "plan_ok plan" and "cp_holds cp (plan_pages plan)"
    and "leaf_at cp (virtual_address_indices (VirtualAddress va)) = None"
  shows "\<not> plan_maps plan va pa perms c"
proof
  assume "plan_maps plan va pa perms c"
  then obtain pa0 where "plan_maps plan (page_of va) pa0 perms c"
    using plan_maps_page [OF ok] by blast
  then have "(page_of va, pa0, perms, c) \<in> set (plan_pages plan)"
    using plan_pages_iff [OF ok] page_aligned by blast
  then have "page_leaf (page_of va, pa0, perms, c) \<in> set (map page_leaf (rev (plan_pages plan)))"
    by (simp only: set_map set_rev image_eqI)
  moreover have "map_of (map page_leaf (rev (plan_pages plan)))
      (virtual_address_indices (VirtualAddress va)) = None"
    using cp_holds_view [OF assms(2), of "VirtualAddress va"] assms(3) by (simp add: leaf_view_def)
  ultimately show False
    unfolding map_of_eq_None_iff by (metis fst_conv image_eqI indices_page_of page_leaf.simps)
qed

lemma page_leafD:
  "(ixs, pa, f) \<in> set (map page_leaf (rev pages)) \<Longrightarrow>
   \<exists>va perms c. (va, pa, perms, c) \<in> set pages \<and> virtual_address_indices (VirtualAddress va) = ixs
     \<and> EntryFlags_for_leaf perms c = f"
  by auto blast

lemma holds_Some:
  assumes ok: "plan_ok plan" and "cp_holds cp (plan_pages plan)" and can: "is_canonical va"
    and some: "leaf_at cp (virtual_address_indices (VirtualAddress va)) = Some e"
  obtains perms c where
    "plan_maps plan va (et_value (pe_target e) + page_offset va) perms c"
    "EntryFlags_for_leaf perms c = Ok (pe_flags e)"
    "pe_target e = EntryTarget_physical (PhysicalFrame (et_value (pe_target e)))"
proof -
  let ?ixs = "virtual_address_indices (VirtualAddress va)"
  have "map_of (map page_leaf (rev (plan_pages plan))) ?ixs = Some (et_value (pe_target e), Ok (pe_flags e))"
    using cp_holds_view [OF assms(2), of "VirtualAddress va"] some by (simp add: leaf_view_def)
  from page_leafD [OF map_of_SomeD [OF this]] obtain va' perms c where
      page: "(va', et_value (pe_target e), perms, c) \<in> set (plan_pages plan)"
      "virtual_address_indices (VirtualAddress va') = ?ixs" "EntryFlags_for_leaf perms c = Ok (pe_flags e)"
    by blast
  then have maps: "is_multiple_of va' PAGE_SIZE" "plan_maps plan va' (et_value (pe_target e)) perms c"
    using plan_pages_iff [OF ok] by blast+
  then have "va' = page_of va"
    using indices_inj page(2) indices_page_of plan_maps_canonical [OF ok] canonical_page [OF can]
      page_aligned by metis
  then have "plan_maps plan va (et_value (pe_target e) + page_offset va) perms c"
    using maps(2) plan_maps_page [OF ok] by blast
  moreover have "pe_target e = EntryTarget_physical (PhysicalFrame (et_value (pe_target e)))"
    using leaf_at_kind [OF some] by (simp add: EntryTarget_physical_def)
  ultimately show thesis using page(3) by (intro that)
qed

text \<open>
  C1. The page tables implement the plan. For every canonical address, the four-level walk over
  the tables that \<^verbatim>\<open>build\<close> constructs finds a leaf exactly when the mapping plan translates the
  address: the leaf's frame plus the page offset is the translation, and the flag bits of the leaf
  grant writing, execution and caching exactly as the plan's permissions and cache policy do,
  and never user access.
\<close>
theorem build_refines_plan:
  assumes built: "plan_built mappings"
    and run: "ConstructionPlan_build tables entries removals mappings mode = Ok cp"
    and can: "is_canonical va"
  shows "case leaf_entry cp (VirtualAddress va) of
      None \<Rightarrow> translate mappings (VirtualAddress va) = Err Unmapped
    | Some e \<Rightarrow> \<exists>frame perms c. pe_target e = EntryTarget_physical (PhysicalFrame frame)
        \<and> translate mappings (VirtualAddress va) = Ok (PhysicalAddress (frame + page_offset va))
        \<and> plan_maps mappings va (frame + page_offset va) perms c
        \<and> ef_writable (pe_flags e) = mp_writable perms
        \<and> ef_executable (pe_flags e) = mp_executable perms
        \<and> (ef_bits (pe_flags e) AND EF_CACHE_DISABLE \<noteq> 0 \<longleftrightarrow> c = Uncached)
        \<and> ef_bits (pe_flags e) AND EF_USER = 0"
proof (cases "leaf_at cp (virtual_address_indices (VirtualAddress va))")
  case None
  have ok: "plan_ok mappings" using built by (rule plan_built_ok)
  have "translate mappings (VirtualAddress va) = Err Unmapped"
    using translate_total [OF ok] translate_Ok [OF ok, of "VirtualAddress va"]
      holds_None [OF ok _ None] build_holds [OF ok run]
    by (metis virtual_address.sel)
  with None show ?thesis by (simp add: leaf_entry_leaf_at)
next
  case (Some e)
  have ok: "plan_ok mappings" using built by (rule plan_built_ok)
  obtain perms c where e: "plan_maps mappings va (et_value (pe_target e) + page_offset va) perms c"
      "EntryFlags_for_leaf perms c = Ok (pe_flags e)"
      "pe_target e = EntryTarget_physical (PhysicalFrame (et_value (pe_target e)))"
    using holds_Some [OF ok _ can Some] build_holds [OF ok run] by blast
  moreover have "translate mappings (VirtualAddress va)
      = Ok (PhysicalAddress (et_value (pe_target e) + page_offset va))"
    using translate_Ok [OF ok] e(1) by auto
  ultimately show ?thesis
    using Some for_leaf_flags [OF e(2)] by (auto simp: leaf_entry_leaf_at)
qed

section \<open>When the construction succeeds and how it can fail\<close>

lemma pages_within:
  assumes "entry_ok e" and "(va, pg) \<in> set (entry_pages e)"
  shows "vr_base (virtual_range e) \<le> va" "va < vr_end (virtual_range e)" "is_canonical va"
    "is_multiple_of va PAGE_SIZE"
proof -
  obtain pa perms c where "pg = (pa, perms, c)" by (cases pg)
  with assms show "vr_base (virtual_range e) \<le> va" "va < vr_end (virtual_range e)"
      "is_multiple_of va PAGE_SIZE"
    using entry_pages_iff [OF assms(1), of va pa perms c] by (auto simp: vr_contains_def)
  then show "is_canonical va"
    using assms(1) by (intro canonical_between [of "virtual_range e"]) (auto simp: entry_ok_def word_nat)
qed

lemma entry_pages_distinct:
  assumes "entry_ok e"
  shows "distinct (map fst (entry_pages e))"
proof (cases "backing e")
  case (Mapped p)
  obtain perms c where ok: "permissions e = Some perms" "cache e = Some c"
      "vr_ok (virtual_range e)" "pr_ok p" "vr_length (virtual_range e) = pr_length p"
    by (rule entry_ok_Mapped [OF assms Mapped])
  have "inj_on (\<lambda>j. vr_base (virtual_range e) + of_nat j * PAGE_SIZE)
      {0 ..< unat (vr_length (virtual_range e) div PAGE_SIZE)}"
  proof (rule inj_onI)
    fix i j
    assume ij: "i \<in> {0 ..< unat (vr_length (virtual_range e) div PAGE_SIZE)}"
        "j \<in> {0 ..< unat (vr_length (virtual_range e) div PAGE_SIZE)}"
        "vr_base (virtual_range e) + of_nat i * PAGE_SIZE = vr_base (virtual_range e) + of_nat j * PAGE_SIZE"
    have "i < unat (vr_length (virtual_range e) div PAGE_SIZE)"
        "j < unat (vr_length (virtual_range e) div PAGE_SIZE)"
      using ij(1,2) by simp_all
    with arg_cong [OF ij(3), of unat] show "i = j"
      by (simp only: page_arith(2) [OF ok(3-5)])
  qed
  then show ?thesis
    using Mapped ok(1,2) by (simp add: entry_pages_def distinct_map comp_def)
qed (simp add: entry_pages_def)

lemma plan_pages_distinct:
  assumes "plan_ok plan"
  shows "distinct (map (\<lambda>pg. fst (page_leaf pg)) (plan_pages plan))"
proof -
  have "distinct (map fst (concat (map entry_pages es)))"
    if "list_all entry_ok es" "sorted_wrt (\<lambda>a b. vr_end (virtual_range a) \<le> vr_base (virtual_range b)) es"
    for es
    using that
  proof (induction es)
    case (Cons e es)
    have "fst pg \<noteq> fst pg'" if pg: "pg \<in> set (entry_pages e)" "pg' \<in> set (entry_pages e')" "e' \<in> set es"
      for pg pg' e'
    proof -
      obtain va r va' r' where "pg = (va, r)" "pg' = (va', r')" by (cases pg; cases pg')
      then have "va < vr_end (virtual_range e)" "vr_base (virtual_range e') \<le> va'"
        using pages_within [of e va r] pages_within [of e' va' r'] pg Cons.prems(1)
        by (auto simp: list_all_iff)
      moreover have "vr_end (virtual_range e) \<le> vr_base (virtual_range e')"
        using pg(3) Cons.prems(2) by simp
      ultimately show ?thesis using \<open>pg = _\<close> \<open>pg' = _\<close> by auto
    qed
    with Cons entry_pages_distinct [of e] show ?case by fastforce
  qed simp
  then have "distinct (map fst (plan_pages plan))" using assms by (simp add: plan_ok_def)
  moreover have "inj_on (\<lambda>va. virtual_address_indices (VirtualAddress va)) (fst ` set (plan_pages plan))"
  proof (rule inj_onI)
    fix a b assume a: "a \<in> fst ` set (plan_pages plan)" and b: "b \<in> fst ` set (plan_pages plan)"
      and eq: "virtual_address_indices (VirtualAddress a) = virtual_address_indices (VirtualAddress b)"
    have "is_canonical x \<and> is_multiple_of x PAGE_SIZE" if "x \<in> fst ` set (plan_pages plan)" for x
      using that pages_within(3,4) plan_entry_ok [OF assms] by fastforce
    with a b eq show "a = b" using indices_inj by blast
  qed
  ultimately have "distinct (map (\<lambda>va. virtual_address_indices (VirtualAddress va)) (map fst (plan_pages plan)))"
    by (auto simp: distinct_map intro: comp_inj_on)
  moreover have "fst (page_leaf pg) = virtual_address_indices (VirtualAddress (fst pg))" for pg
    by (cases pg) auto
  ultimately show ?thesis by (simp add: comp_def)
qed

text \<open>Room for more tables, entries and removals.\<close>

definition cp_room :: "construction_plan \<Rightarrow> nat \<Rightarrow> nat \<Rightarrow> nat \<Rightarrow> bool" where
  "cp_room cp t e r \<longleftrightarrow>
     length (cp_tables cp) + t \<le> cp_tables_capacity cp \<and> length (cp_tables cp) + t \<le> 2 ^ 32
     \<and> length (cp_entries cp) + e \<le> cp_entries_capacity cp
     \<and> length (cp_removals cp) + r \<le> cp_removals_capacity cp"

lemma ensure_child_room:
  assumes inv: "cp_inv cp paths" and s: "fs_as_index s < length paths"
    and d: "length (paths ! fs_as_index s) = d" "d < 3"
    and room: "cp_room cp (Suc t) (Suc e) (if d = 0 then Suc r else r)"
  shows "\<exists>cp' u. ensure_child cp s (level_at d) i va = Ok (cp', u) \<and> cp_room cp' t e r"
proof (cases "find_entry cp s i")
  case None
  then show ?thesis
    using room d(2)
    by (auto simp: ensure_child_def FrameSlot_from_index_def level_child_at level_at_Pml4 Let_def
        push_entry_def push_removal_def cp_room_def split: if_splits)
next
  case (Some x)
  then have "\<exists>u. ensure_child cp s (level_at d) i va = Ok (cp, u)"
    using ensure_child_outcome [OF inv s d, of i va]
    by (cases "et_frame_slot (pe_target x)") (auto simp: ensure_child_def)
  with room show ?thesis by (auto simp: cp_room_def split: if_splits)
qed

lemma descend_room:
  assumes "cp_inv cp paths" and "fs_as_index s < length paths"
    and "length (paths ! fs_as_index s) = d" and "d + length is = 3"
    and "d = 0 \<Longrightarrow> ti_get (hd is) < 256 \<longleftrightarrow> va_get va < HIGH_CANONICAL_START"
    and "cp_room cp (length is + t) (length is + e) (if d = 0 then Suc r else r)"
  shows "\<exists>cp' u. try_fold (descend_step va) (cp, s) (zip (map level_at [d ..< 3]) is) = Ok (cp', u)
    \<and> cp_room cp' t e r"
  using assms
proof (induction "is" arbitrary: cp paths s d)
  case (Cons i "is")
  then have d: "d < 3" by simp
  obtain cp1 u where run: "ensure_child cp s (level_at d) i va = Ok (cp1, u)"
      "cp_room cp1 (length is + t) (length is + e) r"
    using ensure_child_room [OF Cons.prems(1,2,3) d, of "length is + t" "length is + e" r i va] Cons.prems(6)
    by auto
  obtain paths1 where "cp_extends cp paths cp1 paths1" "fs_as_index u < length paths1"
      "paths1 ! fs_as_index u = paths ! fs_as_index s @ [i]"
    using ensure_child_step [OF Cons.prems(1,2,3) d _ run(1)] Cons.prems(5) by auto
  then show ?case
    using Cons.IH [of cp1 paths1 u "Suc d"] Cons.prems(3,4) run
    by (simp add: zip_levels [OF d] cp_extends_def)
qed simp

lemma insert_page_room:
  assumes inv: "cp_inv cp paths" and can: "is_canonical (va_get va)"
    and fl: "EntryFlags_for_leaf perms c = Ok flags"
    and fresh: "leaf_at cp (virtual_address_indices va) = None"
    and room: "cp_room cp (3 + t) (4 + e) (Suc r)"
  shows "\<exists>cp'. insert_page cp va frame perms c = Ok cp' \<and> cp_room cp' t e r"
proof -
  have root: "fs_as_index FrameSlot_ROOT < length paths" "length (paths ! fs_as_index FrameSlot_ROOT) = 0"
      "0 + length (root_path va) = 3"
    using cp_invD(2,4) [OF inv] by simp_all
  have low: "ti_get (hd (root_path va)) < 256 \<longleftrightarrow> va_get va < HIGH_CANONICAL_START"
    using index_low_iff [OF can] by (simp add: hd_root_path)
  obtain cp1 slot where run: "try_fold (descend_step va) (cp, FrameSlot_ROOT)
        (zip (map level_at [0 ..< 3]) (root_path va)) = Ok (cp1, slot)" "cp_room cp1 t (Suc e) r"
    using descend_room [OF inv root low, of t "Suc e" r] room by auto
  have "find_entry cp1 slot (virtual_address_indices va ! 3) = None"
    using descend [OF inv root low run(1)] leaf_slot_eq [OF inv] cp_invD(4) [OF inv] fresh by auto
  with run fl show ?thesis
    unfolding insert_page_def Let_def levels_eq by (auto simp: push_entry_def cp_room_def)
qed

lemma holds_fresh:
  assumes "cp_holds cp pages" and "distinct (map (\<lambda>pg. fst (page_leaf pg)) (pages @ [(va, pa, perms, c)]))"
  shows "leaf_at cp (virtual_address_indices (VirtualAddress va)) = None"
proof -
  have "virtual_address_indices (VirtualAddress va) \<notin> fst ` set (map page_leaf (rev pages))"
    using assms(2) by (auto simp: image_iff) 
  then have "leaf_view cp (virtual_address_indices (VirtualAddress va)) = None"
    unfolding cp_holds_view [OF assms(1), symmetric] map_of_eq_None_iff .
  then show ?thesis by (simp add: leaf_view_def)
qed

definition build_errors :: "page_table_error set" where
  "build_errors = {TableCapacityExhausted, EntryCapacityExhausted, RemovalCapacityExhausted,
     FrameSlotOverflow, ZeroPhysicalFrame}"

fun only_build_errors :: "('a, page_table_error) result \<Rightarrow> bool" where
  "only_build_errors (Ok x) \<longleftrightarrow> True"
| "only_build_errors (Err e) \<longleftrightarrow> e \<in> build_errors"
| "only_build_errors Panic \<longleftrightarrow> False"

lemma only_build_errors_and_then [intro]:
  "only_build_errors m \<Longrightarrow> (\<And>x. m = Ok x \<Longrightarrow> only_build_errors (f x)) \<Longrightarrow>
   only_build_errors (and_then m f)"
  by (cases m) auto

lemma and_then_Ok_id [simp]: "and_then m Ok = m"
  by (cases m) auto

abbreviation page_keys :: "plan_page list \<Rightarrow> table_index list list" where
  "page_keys pages \<equiv> map (\<lambda>pg. fst (page_leaf pg)) pages"

abbreviation pages_upto ::
    "plan_entry \<Rightarrow> physical_range \<Rightarrow> mapping_permissions \<Rightarrow> cache_policy \<Rightarrow> nat \<Rightarrow> plan_page list" where
  "pages_upto e p perms c n \<equiv>
     map (\<lambda>j. (vr_base (virtual_range e) + of_nat j * PAGE_SIZE, pr_base p + of_nat j * PAGE_SIZE, perms, c))
       [0 ..< n]"

lemma insert_page_fresh_result:
  assumes "cp_holds cp pages" and "is_canonical va" and "EntryFlags_for_leaf perms c = Ok flags"
    and "distinct (page_keys (pages @ [(va, pa, perms, c)]))"
  shows "only_build_errors (insert_page cp (VirtualAddress va) (PhysicalFrame pa) perms c)"
    and "cp_room cp (3 + t) (4 + e) (Suc r) \<Longrightarrow>
      \<exists>cp'. insert_page cp (VirtualAddress va) (PhysicalFrame pa) perms c = Ok cp' \<and> cp_room cp' t e r"
proof -
  obtain paths where inv: "cp_inv cp paths" using assms(1) by (auto simp: cp_holds_def)
  have can: "is_canonical (va_get (VirtualAddress va))" using assms(2) by simp
  note fresh = holds_fresh [OF assms(1,4)]
  show "only_build_errors (insert_page cp (VirtualAddress va) (PhysicalFrame pa) perms c)"
    using insert_page_outcome [OF inv can assms(3) fresh, of "PhysicalFrame pa"]
    by (cases "insert_page cp (VirtualAddress va) (PhysicalFrame pa) perms c")
      (auto simp: build_errors_def)
  show "\<exists>cp'. insert_page cp (VirtualAddress va) (PhysicalFrame pa) perms c = Ok cp' \<and> cp_room cp' t e r"
    if "cp_room cp (3 + t) (4 + e) (Suc r)"
    by (rule insert_page_room [OF inv can assms(3) fresh that])
qed

lemma add_pages_result:
  assumes ok: "vr_ok (virtual_range e)" "pr_ok p" "vr_length (virtual_range e) = pr_length p"
    and fl: "EntryFlags_for_leaf perms c = Ok flags" and holds: "cp_holds cp pages"
    and "n \<le> unat (vr_length (virtual_range e) div PAGE_SIZE)"
    and "distinct (page_keys (pages @ pages_upto e p perms c n))"
  shows "only_build_errors (try_fold (add_page e p perms c) cp (map of_nat [0 ..< n]))
    \<and> (\<forall>t x r. cp_room cp (3 * n + t) (4 * n + x) (n + r) \<longrightarrow>
        (\<forall>pg \<in> set (pages_upto e p perms c n). fst (snd pg) \<noteq> 0) \<longrightarrow>
        (\<exists>cp'. try_fold (add_page e p perms c) cp (map of_nat [0 ..< n]) = Ok cp' \<and> cp_room cp' t x r))"
  using assms(6,7)
proof (induction n)
  case (Suc n)
  let ?run = "try_fold (add_page e p perms c) cp (map of_nat [0 ..< n])"
  have n: "n < unat (vr_length (virtual_range e) div PAGE_SIZE)" using Suc.prems(1) by simp
  let ?va = "vr_base (virtual_range e) + of_nat n * PAGE_SIZE" and ?pa = "pr_base p + of_nat n * PAGE_SIZE"
  have IH: "only_build_errors ?run"
      "cp_room cp (3 * n + t) (4 * n + x) (n + r) \<Longrightarrow>
        (\<forall>pg \<in> set (pages_upto e p perms c n). fst (snd pg) \<noteq> 0) \<Longrightarrow>
        \<exists>cp'. ?run = Ok cp' \<and> cp_room cp' t x r" for t x r
    using Suc.IH Suc.prems by simp_all
  have page: "only_build_errors (add_page e p perms c cp1 (of_nat n))"
      "cp_room cp1 (3 + t) (4 + x) (Suc r) \<Longrightarrow> ?pa \<noteq> 0 \<Longrightarrow>
        \<exists>cp'. add_page e p perms c cp1 (of_nat n) = Ok cp' \<and> cp_room cp' t x r"
    if "?run = Ok cp1" for cp1 t x r
  proof -
    have holds1: "cp_holds cp1 (pages @ pages_upto e p perms c n)"
      using add_pages_hold [OF ok _ holds that] n by simp
    have "distinct (page_keys ((pages @ pages_upto e p perms c n) @ [(?va, ?pa, perms, c)]))"
      using Suc.prems(2) by simp
    note fresh = insert_page_fresh_result [OF holds1 add_page_eq(1) [OF ok n] fl this]
    show "only_build_errors (add_page e p perms c cp1 (of_nat n))"
      using fresh(1) by (simp add: add_page_eq(2) [OF ok n] build_errors_def)
    show "\<exists>cp'. add_page e p perms c cp1 (of_nat n) = Ok cp' \<and> cp_room cp' t x r"
      if "cp_room cp1 (3 + t) (4 + x) (Suc r)" "?pa \<noteq> 0"
      using fresh(2) [OF that(1)] that(2) by (simp only: add_page_eq(2) [OF ok n] if_False)
  qed
  show ?case
  proof (intro conjI allI impI)
    show "only_build_errors (try_fold (add_page e p perms c) cp (map of_nat [0 ..< Suc n]))"
      using IH(1) page(1) by (cases ?run) (auto simp: try_fold_append)
  next
    fix t x r
    assume room: "cp_room cp (3 * Suc n + t) (4 * Suc n + x) (Suc n + r)"
      and nz: "\<forall>pg \<in> set (pages_upto e p perms c (Suc n)). fst (snd pg) \<noteq> 0"
    obtain cp1 where "?run = Ok cp1" "cp_room cp1 (3 + t) (4 + x) (Suc r)"
      using IH(2) [of "3 + t" "4 + x" "Suc r"] room nz by (auto simp: algebra_simps)
    with page(2) nz show "\<exists>cp'. try_fold (add_page e p perms c) cp (map of_nat [0 ..< Suc n]) = Ok cp'
        \<and> cp_room cp' t x r"
      by (auto simp: try_fold_append)
  qed
qed simp

text \<open>A mapping that the mode admits.\<close>

abbreviation admitted :: "plan_mode \<Rightarrow> plan_entry \<Rightarrow> bool" where
  "admitted mode e \<equiv> mode = Final \<longrightarrow> \<not> low_entry e \<and> kind e \<noteq> TransitionIdentity"

lemma add_mapping_result:
  assumes "entry_ok e" and "cp_holds cp pages" and "admitted (cp_mode cp) e"
    and "distinct (page_keys (pages @ entry_pages e))"
  shows "only_build_errors (add_mapping cp e)
    \<and> (\<forall>t x r. cp_room cp (3 * length (entry_pages e) + t) (4 * length (entry_pages e) + x)
          (length (entry_pages e) + r) \<longrightarrow>
        (\<forall>pg \<in> set (entry_pages e). fst (snd pg) \<noteq> 0) \<longrightarrow>
        (\<exists>cp'. add_mapping cp e = Ok cp' \<and> cp_room cp' t x r))"
proof (cases "backing e")
  case (Mapped p)
  obtain perms c where ok: "permissions e = Some perms" "cache e = Some c"
      "vr_ok (virtual_range e)" "pr_ok p" "vr_length (virtual_range e) = pr_length p"
    "validate_mapping_policy (virtual_range e) p perms c (kind e) = Ok ()"
    by (rule entry_ok_Mapped [OF assms(1) Mapped])
  let ?n = "unat (vr_length (virtual_range e) div PAGE_SIZE)"
  have pages: "entry_pages e = pages_upto e p perms c ?n"
    using Mapped ok(1,2) by (simp add: entry_pages_def)
  obtain flags where fl: "EntryFlags_for_leaf perms c = Ok flags"
    using policy_permissions(1,2) [OF ok(6)] for_leaf_total by blast
  have run: "add_mapping cp e = try_fold (add_page e p perms c) cp (map of_nat [0 ..< ?n])"
    using assms(3) Mapped ok(1,2) by (auto simp: add_mapping_def)
  show ?thesis
    using add_pages_result [OF ok(3-5) fl assms(2) order.refl] assms(4) unfolding run pages by simp
next
  case UnmappedBacking
  then show ?thesis using assms by (auto simp: add_mapping_def entry_pages_def entry_ok_def)
qed

lemma add_mappings_result:
  assumes "list_all entry_ok es" and "cp_holds cp pages" and "list_all (admitted (cp_mode cp)) es"
    and "distinct (page_keys (pages @ concat (map entry_pages es)))"
  shows "only_build_errors (try_fold add_mapping cp es)
    \<and> (let n = length (concat (map entry_pages es)) in
       cp_room cp (3 * n) (4 * n) n \<longrightarrow>
        (\<forall>pg \<in> set (concat (map entry_pages es)). fst (snd pg) \<noteq> 0) \<longrightarrow>
        is_ok (try_fold add_mapping cp es))"
  using assms
proof (induction es arbitrary: cp pages)
  case (Cons e es)
  let ?n = "length (concat (map entry_pages es))"
  have e: "entry_ok e" "admitted (cp_mode cp) e" using Cons.prems(1,3) by simp_all
  have "distinct (page_keys ((pages @ entry_pages e) @ concat (map entry_pages es)))"
    using Cons.prems(4) by simp
  then have dist: "distinct (page_keys (pages @ entry_pages e))" by (simp only: map_append distinct_append)
  have res: "only_build_errors (add_mapping cp e)"
      "cp_room cp (3 * length (entry_pages e) + t) (4 * length (entry_pages e) + x)
          (length (entry_pages e) + r) \<Longrightarrow>
        (\<forall>pg \<in> set (entry_pages e). fst (snd pg) \<noteq> 0) \<Longrightarrow>
        \<exists>cp'. add_mapping cp e = Ok cp' \<and> cp_room cp' t x r" for t x r
    using add_mapping_result [OF e(1) Cons.prems(2) e(2) dist] by blast+
  have step: "only_build_errors (try_fold add_mapping cp1 es)
      \<and> (cp_room cp1 (3 * ?n) (4 * ?n) ?n \<longrightarrow>
          (\<forall>pg \<in> set (concat (map entry_pages es)). fst (snd pg) \<noteq> 0) \<longrightarrow>
          is_ok (try_fold add_mapping cp1 es))"
    if "add_mapping cp e = Ok cp1" for cp1
    using add_mapping_holds [OF _ Cons.prems(2) that] Cons.IH [of cp1 "pages @ entry_pages e"] Cons.prems
    by (simp add: Let_def)
  show ?case
  proof (intro conjI, goal_cases)
    case 1
    show ?case using res(1) step by auto
  next
    case 2
    show ?case
      unfolding Let_def
    proof (intro impI)
      assume room: "cp_room cp (3 * length (concat (map entry_pages (e # es))))
          (4 * length (concat (map entry_pages (e # es)))) (length (concat (map entry_pages (e # es))))"
        and nz: "\<forall>pg \<in> set (concat (map entry_pages (e # es))). fst (snd pg) \<noteq> 0"
      obtain cp1 where "add_mapping cp e = Ok cp1" "cp_room cp1 (3 * ?n) (4 * ?n) ?n"
        using res(2) [of "3 * ?n" "4 * ?n" ?n] room nz by (auto simp: algebra_simps)
      with step nz show "is_ok (try_fold add_mapping cp (e # es))" by simp
    qed
  qed
qed simp

lemma validation_admits:
  assumes "(case mode of Transitional \<Rightarrow> validate_transition plan | Final \<Rightarrow> validate_final plan) = Ok ()"
  shows "list_all (admitted mode) (plan_entries plan)"
  using assms by (cases mode) (auto simp: validate_final_Ok list_all_iff)

lemma transition_step_no_panic: "entry_ok e \<Longrightarrow> transition_step c e \<noteq> Panic"
  by (cases "backing e") (auto simp: transition_step_def entry_ok_def split: option.splits)

lemma validation_no_panic:
  assumes "plan_ok plan"
  shows "validate_transition plan \<noteq> Panic" and "validate_final plan \<noteq> Panic"
proof -
  have "try_fold transition_step c (plan_entries plan) \<noteq> Panic" for c
    using plan_entry_ok [OF assms] transition_step_no_panic by (intro try_fold_not_Panic) blast
  then show "validate_transition plan \<noteq> Panic" by (auto simp: validate_transition_def)
  have "final_entry_check e \<noteq> Panic" "final_guard_check plan e \<noteq> Panic" for e
    by (auto simp: final_entry_check_def final_guard_check_def)
  then show "validate_final plan \<noteq> Panic"
    by (auto simp: validate_final_def intro: try_fold_not_Panic [THEN notE, rotated])
qed

lemma finish_holds: "cp_holds cp pages \<Longrightarrow> finish cp = Ok cp"
  using validate_structure_Ok by (auto simp: finish_def cp_holds_def)

abbreviation validation :: "plan_mode \<Rightarrow> mapping_plan \<Rightarrow> (unit, layout_error) result" where
  "validation mode plan \<equiv>
     (case mode of Transitional \<Rightarrow> validate_transition plan | Final \<Rightarrow> validate_final plan)"

lemma begin_result:
  "only_build_errors (ConstructionPlan_begin tables entries removals mode)"
  "0 < tables \<Longrightarrow> \<exists>cp. ConstructionPlan_begin tables entries removals mode = Ok cp
     \<and> length (cp_tables cp) = 1 \<and> cp_entries cp = [] \<and> cp_removals cp = []
     \<and> cp_tables_capacity cp = tables \<and> cp_entries_capacity cp = entries
     \<and> cp_removals_capacity cp = removals"
  by (auto simp: ConstructionPlan_begin_def build_errors_def)

lemma build_result:
  assumes ok: "plan_ok mappings" and v: "validation mode mappings = Ok ()"
    and start: "ConstructionPlan_begin tables entries removals mode = Ok cp"
  shows "ConstructionPlan_build tables entries removals mappings mode
      = try_fold add_mapping cp (plan_entries mappings)"
    and "only_build_errors (try_fold add_mapping cp (plan_entries mappings))"
    and "cp_room cp (3 * length (plan_pages mappings)) (4 * length (plan_pages mappings))
        (length (plan_pages mappings)) \<Longrightarrow>
      \<forall>pg \<in> set (plan_pages mappings). fst (snd pg) \<noteq> 0 \<Longrightarrow>
      is_ok (try_fold add_mapping cp (plan_entries mappings))"
proof -
  have entries: "list_all entry_ok (plan_entries mappings)" using ok by (simp add: plan_ok_def)
  have holds: "cp_holds cp []" "cp_mode cp = mode" using begin_holds [OF start] by simp_all
  have "list_all (admitted (cp_mode cp)) (plan_entries mappings)"
    using validation_admits [OF v] holds(2) by simp
  moreover have "distinct (page_keys ([] @ plan_pages mappings))"
    using plan_pages_distinct [OF ok] by simp
  ultimately show "only_build_errors (try_fold add_mapping cp (plan_entries mappings))"
    "cp_room cp (3 * length (plan_pages mappings)) (4 * length (plan_pages mappings))
        (length (plan_pages mappings)) \<Longrightarrow>
      \<forall>pg \<in> set (plan_pages mappings). fst (snd pg) \<noteq> 0 \<Longrightarrow>
      is_ok (try_fold add_mapping cp (plan_entries mappings))"
    using add_mappings_result [OF entries holds(1)] by (simp_all add: Let_def)
  have "and_then (try_fold add_mapping cp (plan_entries mappings)) finish
      = try_fold add_mapping cp (plan_entries mappings)"
    using add_mappings_hold [OF entries holds(1)] finish_holds
    by (cases "try_fold add_mapping cp (plan_entries mappings)") auto
  with v start show "ConstructionPlan_build tables entries removals mappings mode
      = try_fold add_mapping cp (plan_entries mappings)"
    by (simp add: ConstructionPlan_build_def)
qed

text \<open>
  C14. How the construction fails. For every plan that the insertions can build, \<^verbatim>\<open>build\<close> never
  panics, and its only errors are those of the plan's validation, an exhausted capacity, more
  than 2^32 tables, or a mapping of physical frame zero: duplicate or conflicting leaves,
  missing parents and arithmetic overflow cannot occur.
\<close>
theorem build_error_cases:
  assumes "plan_built mappings"
  shows "case ConstructionPlan_build tables entries removals mappings mode of
      Ok cp \<Rightarrow> True
    | Err e \<Rightarrow> e \<in> build_errors \<or> (\<exists>l. e = Layout l \<and> validation mode mappings = Err l)
    | Panic \<Rightarrow> False"
proof (cases "validation mode mappings")
  case (Ok u)
  have ok: "plan_ok mappings" using assms by (rule plan_built_ok)
  have "only_build_errors (ConstructionPlan_build tables entries removals mappings mode)"
  proof (cases "ConstructionPlan_begin tables entries removals mode")
    case start: (Ok cp)
    with build_result(1,2) [OF ok _ start] Ok show ?thesis by simp
  qed (use begin_result(1) [of tables entries removals mode] Ok in \<open>auto simp: ConstructionPlan_build_def\<close>)
  then show ?thesis
    by (cases "ConstructionPlan_build tables entries removals mappings mode") auto
next
  case (Err l)
  then show ?thesis by (simp add: ConstructionPlan_build_def)
next
  case Panic
  then show ?thesis
    using validation_no_panic [OF plan_built_ok [OF assms]] by (cases mode) auto
qed

text \<open>
  C9. The construction succeeds. If the plan passes its validation, maps no page to frame zero,
  and the capacities allow for three tables and four entries per page beside the root (and one
  removal per page), then \<^verbatim>\<open>build\<close> returns a construction plan.
\<close>
theorem build_succeeds:
  assumes "plan_built mappings" and "validation mode mappings = Ok ()"
    and "\<forall>pg \<in> set (plan_pages mappings). fst (snd pg) \<noteq> 0"
    and "1 + 3 * length (plan_pages mappings) \<le> min tables (2 ^ 32)"
    and "4 * length (plan_pages mappings) \<le> entries" and "length (plan_pages mappings) \<le> removals"
  shows "\<exists>cp. ConstructionPlan_build tables entries removals mappings mode = Ok cp"
proof -
  obtain cp where start: "ConstructionPlan_begin tables entries removals mode = Ok cp"
      "length (cp_tables cp) = 1" "cp_entries cp = []" "cp_removals cp = []"
      "cp_tables_capacity cp = tables" "cp_entries_capacity cp = entries"
      "cp_removals_capacity cp = removals"
    using begin_result(2) [of tables entries removals mode] assms(4) by auto
  have "cp_room cp (3 * length (plan_pages mappings)) (4 * length (plan_pages mappings))
      (length (plan_pages mappings))"
    using start(2-) assms(4-6) by (simp add: cp_room_def)
  with build_result(1,3) [OF plan_built_ok [OF assms(1)] assms(2) start(1)] assms(3)
  show ?thesis by (simp add: is_ok_iff)
qed

section \<open>Removing the transition mappings\<close>

text \<open>The plan's entries after the recorded removals, matched by table and index.\<close>

definition removal_keys :: "construction_plan \<Rightarrow> (frame_slot \<times> table_index) list" where
  "removal_keys cp = map (\<lambda>r. (tr_table_slot r, tr_index r)) (cp_removals cp)"

definition without_transition :: "construction_plan \<Rightarrow> construction_plan" where
  "without_transition cp =
     cp\<lparr>cp_entries := filter (\<lambda>e. entry_key e \<notin> set (removal_keys cp)) (cp_entries cp)\<rparr>"

lemma find_filter_key:
  "(\<And>x. P x \<Longrightarrow> Q x) \<Longrightarrow> List.find P (filter Q xs) = List.find P xs"
  by (induction xs) auto

lemma removal_keys_iff:
  assumes "removals_inv cp"
  shows "(s, i) \<in> set (removal_keys cp) \<longleftrightarrow>
    s = FrameSlot_ROOT \<and> ti_get i < 256 \<and> (s, i) \<in> set (map entry_key (cp_entries cp))"
  using assms
  by (auto simp: removal_keys_def removals_inv_def removal_of_def low_root_entry_def
      intro: rev_image_eqI)

lemma find_without_transition:
  assumes "removals_inv cp"
  shows "find_entry (without_transition cp) s i =
    (if s = FrameSlot_ROOT \<and> ti_get i < 256 then None else find_entry cp s i)"
proof (cases "s = FrameSlot_ROOT \<and> ti_get i < 256")
  case True
  then have "(s, i) \<notin> set (map entry_key (cp_entries (without_transition cp)))"
    using removal_keys_iff [OF assms, of s i] by (auto simp: without_transition_def)
  then have "find_entry (without_transition cp) s i = None" by (simp add: find_entry_None)
  with True show ?thesis by simp
next
  case False
  then have "(s, i) \<notin> set (removal_keys cp)" using removal_keys_iff [OF assms] by blast
  then have "find_entry (without_transition cp) s i = find_entry cp s i"
    unfolding find_entry_def without_transition_def by (auto intro!: find_filter_key)
  with False show ?thesis by auto
qed

lemma walk_without_transition:
  assumes inv: "cp_inv cp paths" and "removals_inv cp"
  shows "fs_as_index s < length paths \<Longrightarrow> s \<noteq> FrameSlot_ROOT \<Longrightarrow>
    leaf_walk (without_transition cp) s is = leaf_walk cp s is"
proof (induction "is" arbitrary: s)
  case (Cons i "is")
  show ?case
  proof (cases "find_entry cp s i")
    case (Some e)
    show ?thesis
    proof (cases "et_frame_slot (pe_target e)")
      case slot: (Some c)
      note child = entry_fits_child [OF cp_invD(9) [OF inv] cp_invD(3) [OF inv] slot]
      have "fs_as_index c < length paths" "c \<noteq> FrameSlot_ROOT"
        using child(1,2) find_entry_Some [OF Some] by auto
      then show ?thesis
        using Cons.IH Cons.prems(2) Some slot by (simp add: find_without_transition [OF assms(2)])
    qed (use Cons.prems Some in \<open>simp add: find_without_transition [OF assms(2)]\<close>)
  qed (use Cons.prems in \<open>simp add: find_without_transition [OF assms(2)]\<close>)
qed simp

lemma leaf_without_transition:
  assumes inv: "cp_inv cp paths" and rem: "removals_inv cp" and can: "is_canonical (va_get va)"
  shows "leaf_entry (without_transition cp) va
    = (if va_get va < HIGH_CANONICAL_START then None else leaf_entry cp va)"
proof -
  let ?ixs = "virtual_address_indices va"
  have ixs: "take 3 ?ixs = ?ixs ! 0 # take 2 (drop 1 ?ixs)" by (simp add: virtual_address_indices_def)
  have low: "ti_get (?ixs ! 0) < 256 \<longleftrightarrow> va_get va < HIGH_CANONICAL_START"
    by (rule index_low_iff [OF can])
  show ?thesis
  proof (cases "va_get va < HIGH_CANONICAL_START")
    case True
    then show ?thesis
      using low by (simp add: leaf_entry_def Let_def ixs find_without_transition [OF rem])
  next
    case False
    have child: "fs_as_index c < length paths \<and> c \<noteq> FrameSlot_ROOT"
      if "find_entry cp FrameSlot_ROOT (?ixs ! 0) = Some e" "et_frame_slot (pe_target e) = Some c" for e c
      using entry_fits_child(1,2) [OF cp_invD(9) [OF inv] cp_invD(3) [OF inv] that(2)]
        find_entry_Some [OF that(1)] by auto
    have "slot \<noteq> FrameSlot_ROOT" if "leaf_walk cp FrameSlot_ROOT (take 3 ?ixs) = Some slot" for slot
      using leaf_walk_sound [OF inv _ that] root_iff_no_path [OF inv] cp_invD(2,4) [OF inv]
      by (auto simp: ixs)
    moreover have "leaf_walk (without_transition cp) FrameSlot_ROOT (take 3 ?ixs)
        = leaf_walk cp FrameSlot_ROOT (take 3 ?ixs)"
      using child walk_without_transition [OF inv rem] low False
      by (auto simp: ixs find_without_transition [OF rem] split: option.splits)
    ultimately show ?thesis
      using False
      by (auto simp: leaf_entry_def Let_def find_without_transition [OF rem] split: option.splits)
  qed
qed

text \<open>
  C13. The transition removals. After the root entries that \<^verbatim>\<open>build\<close> recorded for removal are
  cleared, no address of the lower half has a leaf any more and every address of the upper half
  keeps exactly the leaf it had.
\<close>
theorem transition_removals_correct:
  assumes "plan_built mappings"
    and "ConstructionPlan_build tables entries removals mappings mode = Ok cp"
    and "is_canonical va"
  shows "leaf_entry (without_transition cp) (VirtualAddress va)
    = (if va < HIGH_CANONICAL_START then None else leaf_entry cp (VirtualAddress va))"
proof -
  obtain paths where "cp_inv cp paths" "removals_inv cp"
    using build_holds [OF plan_built_ok [OF assms(1)] assms(2)] by (auto simp: cp_holds_def)
  with leaf_without_transition assms(3) show ?thesis by simp
qed

section \<open>A concrete construction\<close>

lemma alias_plan_pages:
  "plan_pages alias_plan =
     [(0xffff800000200000, 0x200000, KERNEL_R, WriteBack),
      (0xffffffff80000000, 0x200000, KERNEL_R, WriteBack)]"
  by (simp add: plan_entries_def alias_plan_def direct_entry_def rodata_entry_def alias_range_def
      entry_pages_def vr_length_def PAGE_SIZE_def)

lemma alias_plan_final: "validate_final alias_plan = Ok ()"
  by (simp add: validate_final_Ok plan_entries_def alias_plan_def direct_entry_def rodata_entry_def
      const_defs)

lemma alias_build: "\<exists>cp. ConstructionPlan_build 16 16 4 alias_plan Final = Ok cp"
proof -
  obtain cp where start: "ConstructionPlan_begin 16 16 4 Final = Ok cp"
      "length (cp_tables cp) = 1" "cp_entries cp = []" "cp_removals cp = []"
      "cp_tables_capacity cp = 16" "cp_entries_capacity cp = 16" "cp_removals_capacity cp = 4"
    using begin_result(2) [of 16 16 4 Final] by auto
  note result = build_result [OF plan_built_ok [OF alias_plan_built], of Final, OF _ start(1)]
  from result(1,3) start(2-) show ?thesis
    unfolding alias_plan_pages by (simp add: alias_plan_final is_ok_iff cp_room_def)
qed

theorem build_refines_plan_witness:
  "\<exists>cp e. ConstructionPlan_build 16 16 4 alias_plan Final = Ok cp
     \<and> leaf_entry cp (VirtualAddress 0xffff800000200800) = Some e
     \<and> translate alias_plan (VirtualAddress 0xffff800000200800)
       = Ok (PhysicalAddress (et_value (pe_target e) + page_offset 0xffff800000200800))"
proof -
  obtain cp where cp: "ConstructionPlan_build 16 16 4 alias_plan Final = Ok cp"
    using alias_build by blast
  have can: "is_canonical 0xffff800000200800" by (simp add: is_canonical_def const_defs)
  have "translate alias_plan (VirtualAddress 0xffff800000200800) = Ok (PhysicalAddress 0x200800)"
    using translate_Ok [OF plan_built_ok [OF alias_plan_built]] alias_plan_maps(2) by auto
  with build_refines_plan [OF alias_plan_built cp can] cp show ?thesis
    by (cases "leaf_entry cp (VirtualAddress 0xffff800000200800)") auto
qed

theorem build_error_cases_witness:
  "plan_built alias_plan \<and> ConstructionPlan_build 1 0 0 alias_plan Final \<noteq> Panic"
  using build_error_cases [OF alias_plan_built, of Final 1 0 0] alias_plan_built
  by (auto split: result.splits)

theorem build_succeeds_witness:
  "plan_built alias_plan \<and> (\<exists>cp. ConstructionPlan_build 16 16 4 alias_plan Final = Ok cp)"
  using build_succeeds [OF alias_plan_built, of Final 16 16 4] alias_plan_built
  unfolding alias_plan_pages by (simp add: alias_plan_final)

text \<open>
  A plan for the transition: an executable identity page for the trampoline, the identity-mapped
  bootstrap stack, and a page of the direct map.
\<close>

definition trampoline_page :: plan_entry where
  "trampoline_page =
     \<lparr>virtual_range = \<lparr>vr_start = VirtualAddress 0x8000, vr_end = 0x9000\<rparr>,
      backing = Mapped \<lparr>pr_start = PhysicalAddress 0x8000, pr_end = 0x9000\<rparr>,
      permissions = Some KERNEL_RX, cache = Some WriteBack, kind = TransitionIdentity\<rparr>"

definition identity_stack :: plan_entry where
  "identity_stack =
     \<lparr>virtual_range = \<lparr>vr_start = VirtualAddress 0x10000, vr_end = 0x20000\<rparr>,
      backing = Mapped \<lparr>pr_start = PhysicalAddress 0x10000, pr_end = 0x20000\<rparr>,
      permissions = Some KERNEL_RW, cache = Some WriteBack, kind = TransitionIdentity\<rparr>"

definition transition_plan :: mapping_plan where
  "transition_plan = \<lparr>mp_entries = [trampoline_page, identity_stack, direct_entry], mp_len = 3\<rparr>"

lemma transition_plan_built: "plan_built transition_plan"
proof (rule plan_built.mapping [where v = "virtual_range trampoline_page"
      and p = "\<lparr>pr_start = PhysicalAddress 0x8000, pr_end = 0x9000\<rparr>"])
  show "plan_built \<lparr>mp_entries = [identity_stack, direct_entry, PlanEntry_EMPTY], mp_len = 2\<rparr>"
  proof (rule plan_built.mapping [where v = "virtual_range identity_stack"
        and p = "\<lparr>pr_start = PhysicalAddress 0x10000, pr_end = 0x20000\<rparr>"])
    show "plan_built \<lparr>mp_entries = [direct_entry, PlanEntry_EMPTY, PlanEntry_EMPTY], mp_len = 1\<rparr>"
    proof (rule plan_built.mapping [where v = "virtual_range direct_entry" and p = alias_range])
      show "plan_built (MappingPlan_new 3)" by (rule plan_built.new)
      show "vr_ok (virtual_range direct_entry)" by (simp add: direct_entry_def range_eval)
      show "pr_ok alias_range" by (simp add: alias_range_def range_eval)
      show "insert_mapping (MappingPlan_new 3) (virtual_range direct_entry) alias_range KERNEL_R WriteBack
          DirectMap = Ok \<lparr>mp_entries = [direct_entry, PlanEntry_EMPTY, PlanEntry_EMPTY], mp_len = 1\<rparr>"
        by (simp add: insert_mapping_def plan_insert_def plan_eval direct_entry_def alias_range_def)
    qed
    show "vr_ok (virtual_range identity_stack)" by (simp add: identity_stack_def range_eval)
    show "pr_ok \<lparr>pr_start = PhysicalAddress 0x10000, pr_end = 0x20000\<rparr>" by (simp add: range_eval)
    show "insert_mapping \<lparr>mp_entries = [direct_entry, PlanEntry_EMPTY, PlanEntry_EMPTY], mp_len = 1\<rparr>
        (virtual_range identity_stack) \<lparr>pr_start = PhysicalAddress 0x10000, pr_end = 0x20000\<rparr> KERNEL_RW WriteBack
        TransitionIdentity = Ok \<lparr>mp_entries = [identity_stack, direct_entry, PlanEntry_EMPTY], mp_len = 2\<rparr>"
      by (simp add: insert_mapping_def plan_insert_def plan_eval direct_entry_def identity_stack_def alias_range_def)
  qed
  show "vr_ok (virtual_range trampoline_page)" by (simp add: trampoline_page_def range_eval)
  show "pr_ok \<lparr>pr_start = PhysicalAddress 0x8000, pr_end = 0x9000\<rparr>" by (simp add: range_eval)
  show "insert_mapping \<lparr>mp_entries = [identity_stack, direct_entry, PlanEntry_EMPTY], mp_len = 2\<rparr>
      (virtual_range trampoline_page) \<lparr>pr_start = PhysicalAddress 0x8000, pr_end = 0x9000\<rparr> KERNEL_RX WriteBack
      TransitionIdentity = Ok transition_plan"
    by (simp add: insert_mapping_def plan_insert_def plan_eval insert_shift_eq direct_entry_def identity_stack_def
        trampoline_page_def transition_plan_def alias_range_def)
qed

lemma transition_plan_maps:
  "plan_maps transition_plan 0x8000 0x8000 KERNEL_RX WriteBack"
  "plan_maps transition_plan 0xffff800000200000 0x200000 KERNEL_R WriteBack"
  by (simp_all add: plan_maps_def plan_entries_def numeral_3_eq_3 transition_plan_def trampoline_page_def identity_stack_def
      direct_entry_def alias_range_def vr_contains_def word_nat)

lemma transition_plan_valid: "validate_transition transition_plan = Ok ()"
  by (simp add: validate_transition_def transition_step_def plan_entries_def transition_plan_def trampoline_page_def
      identity_stack_def direct_entry_def alias_range_def vr_length_def checked_add_def const_defs word_nat)

lemma transition_plan_pages:
  "length (plan_pages transition_plan) = 18" "\<forall>pg \<in> set (plan_pages transition_plan). fst (snd pg) \<noteq> 0"
  by (simp_all add: plan_entries_def transition_plan_def trampoline_page_def identity_stack_def direct_entry_def
      alias_range_def entry_pages_def vr_length_def PAGE_SIZE_def upt_rec)

lemma transition_build: "\<exists>cp. ConstructionPlan_build 128 128 32 transition_plan Transitional = Ok cp"
proof -
  obtain cp where start: "ConstructionPlan_begin 128 128 32 Transitional = Ok cp"
      "length (cp_tables cp) = 1" "cp_entries cp = []" "cp_removals cp = []"
      "cp_tables_capacity cp = 128" "cp_entries_capacity cp = 128" "cp_removals_capacity cp = 32"
    using begin_result(2) [of 128 128 32 Transitional] by auto
  note result = build_result [OF plan_built_ok [OF transition_plan_built], of Transitional, OF _ start(1)]
  from result(1,3) start(2-) transition_plan_pages(2) show ?thesis
    unfolding transition_plan_pages(1) by (auto simp: transition_plan_valid is_ok_iff cp_room_def)
qed

theorem transition_removals_correct_witness:
  "\<exists>cp. ConstructionPlan_build 128 128 32 transition_plan Transitional = Ok cp
     \<and> leaf_entry cp (VirtualAddress 0x8000) \<noteq> None
     \<and> leaf_entry (without_transition cp) (VirtualAddress 0x8000) = None
     \<and> leaf_entry cp (VirtualAddress 0xffff800000200000) \<noteq> None
     \<and> leaf_entry (without_transition cp) (VirtualAddress 0xffff800000200000)
       = leaf_entry cp (VirtualAddress 0xffff800000200000)"
proof -
  obtain cp where cp: "ConstructionPlan_build 128 128 32 transition_plan Transitional = Ok cp"
    using transition_build by blast
  have can: "is_canonical 0x8000" "is_canonical 0xffff800000200000"
    by (simp_all add: is_canonical_def const_defs)
  note ok = plan_built_ok [OF transition_plan_built]
  have leaf: "leaf_entry cp (VirtualAddress va) \<noteq> None" if "plan_maps transition_plan va pa perms c" for va pa perms c
    using holds_None [OF ok, of cp va] build_holds [OF ok cp] that by (fastforce simp: leaf_entry_leaf_at)
  from transition_removals_correct [OF transition_plan_built cp can(1)]
    transition_removals_correct [OF transition_plan_built cp can(2)] cp
    leaf [OF transition_plan_maps(1)] leaf [OF transition_plan_maps(2)]
  show ?thesis by (auto simp: const_defs)
qed
end
