(* ===== verification/Plan_Encoding.thy ===== *)
theory Plan_Encoding
  imports Page_Table
begin

text \<open>
  The encodings of a construction plan (\<^verbatim>\<open>crates/memory-layout/src/page_table.rs\<close>): the 64-bit
  entry values for assigned frames, and the abstract byte image. The imperative writes of
  \<^verbatim>\<open>encode_abstract\<close> are shown equal to the concatenation of the records' byte images.
\<close>

definition ABSTRACT_PLAN_HEADER_SIZE :: nat where
  [const_defs]: "ABSTRACT_PLAN_HEADER_SIZE = 32"

definition ABSTRACT_TABLE_SIZE :: nat where
  [const_defs]: "ABSTRACT_TABLE_SIZE = 16"

definition ABSTRACT_ENTRY_SIZE :: nat where
  [const_defs]: "ABSTRACT_ENTRY_SIZE = 32"

definition ABSTRACT_REMOVAL_SIZE :: nat where
  [const_defs]: "ABSTRACT_REMOVAL_SIZE = 24"

fun target_kind_code :: "entry_target_kind \<Rightarrow> u8" where
  "target_kind_code TableSlot = 1"
| "target_kind_code PhysicalFrameTarget = 2"

definition put_u16 :: "u8 list \<Rightarrow> nat \<Rightarrow> u16 \<Rightarrow> (u8 list, page_table_error) result" where
  "put_u16 bytes offset value = copy_into bytes offset (to_le_bytes 2 value)"

definition put_u32 :: "u8 list \<Rightarrow> nat \<Rightarrow> u32 \<Rightarrow> (u8 list, page_table_error) result" where
  "put_u32 bytes offset value = copy_into bytes offset (to_le_bytes 4 value)"

definition put_u64 :: "u8 list \<Rightarrow> nat \<Rightarrow> u64 \<Rightarrow> (u8 list, page_table_error) result" where
  "put_u64 bytes offset value = copy_into bytes offset (to_le_bytes 8 value)"

text \<open>
  \<^verbatim>\<open>encoded_entries\<close> writes one value per planned entry and leaves the rest of the output as
  it was. The output is returned on both outcomes: an entry that cannot be encoded stops the loop
  after the entries before it were written.
\<close>

definition encoded_entries ::
    "construction_plan \<Rightarrow> frame_assignments \<Rightarrow> u64 list
     \<Rightarrow> (u64 list \<times> nat, u64 list \<times> page_table_error) result"
where
  "encoded_entries plan assignments out =
     (if fa_len assignments \<noteq> length (cp_tables plan) then Err (out, FrameAssignmentCountMismatch)
      else if length out < length (cp_entries plan) then Err (out, EntryCapacityExhausted)
      else
        and_then
          (try_fold (\<lambda>out' (i, entry).
             and_then (map_err (Pair out') (encoded_value entry assignments)) (\<lambda>value. arr_set out' i value))
            out (zip [0 ..< length out] (cp_entries plan)))
          (\<lambda>out'. Ok (out', length (cp_entries plan))))"

definition abstract_byte_len :: "construction_plan \<Rightarrow> (nat, page_table_error) result" where
  "abstract_byte_len plan =
     and_then (ok_or (usize_mul (length (cp_tables plan)) ABSTRACT_TABLE_SIZE) ArithmeticOverflow)
       (\<lambda>tables.
     ok_or
       (Option.bind (usize_add ABSTRACT_PLAN_HEADER_SIZE tables) (\<lambda>value.
        Option.bind
          (Option.bind (usize_mul (length (cp_entries plan)) ABSTRACT_ENTRY_SIZE) (usize_add value))
          (\<lambda>value'.
           Option.bind (usize_mul (length (cp_removals plan)) ABSTRACT_REMOVAL_SIZE)
             (usize_add value'))))
       ArithmeticOverflow)"

definition encode_table ::
    "u8 list \<times> nat \<Rightarrow> planned_table \<Rightarrow> (u8 list \<times> nat, page_table_error) result" where
  "encode_table = (\<lambda>(out, offset) t.
     and_then (arr_set out offset (level_code (pt_level t))) (\<lambda>out.
     and_then (put_u32 out (offset + 4) (fs_get (pt_frame_slot t))) (\<lambda>out.
     and_then (put_u32 out (offset + 8) (fs_get (pt_parent_slot t))) (\<lambda>out.
     and_then (put_u16 out (offset + 12) (ti_get (pt_parent_index t))) (\<lambda>out.
     Ok (out, offset + ABSTRACT_TABLE_SIZE))))))"

definition encode_entry ::
    "u8 list \<times> nat \<Rightarrow> planned_entry \<Rightarrow> (u8 list \<times> nat, page_table_error) result" where
  "encode_entry = (\<lambda>(out, offset) e.
     and_then (put_u32 out offset (fs_get (pe_table_slot e))) (\<lambda>out.
     and_then (put_u16 out (offset + 4) (ti_get (pe_index e))) (\<lambda>out.
     and_then (arr_set out (offset + 6) (target_kind_code (et_kind (pe_target e)))) (\<lambda>out.
     and_then (put_u64 out (offset + 8) (et_value (pe_target e))) (\<lambda>out.
     and_then (put_u64 out (offset + 16) (ef_bits (pe_flags e))) (\<lambda>out.
     Ok (out, offset + ABSTRACT_ENTRY_SIZE)))))))"

definition encode_removal ::
    "u8 list \<times> nat \<Rightarrow> transition_removal \<Rightarrow> (u8 list \<times> nat, page_table_error) result" where
  "encode_removal = (\<lambda>(out, offset) r.
     and_then (put_u32 out offset (fs_get (tr_table_slot r))) (\<lambda>out.
     and_then (put_u16 out (offset + 4) (ti_get (tr_index r))) (\<lambda>out.
     and_then (put_u32 out (offset + 8) (fs_get (tr_expected_target r))) (\<lambda>out.
     and_then (put_u64 out (offset + 16) (ef_bits (tr_expected_flags r))) (\<lambda>out.
     Ok (out, offset + ABSTRACT_REMOVAL_SIZE))))))"

definition encode_abstract ::
    "construction_plan \<Rightarrow> u8 list \<Rightarrow> (u8 list \<times> nat, page_table_error) result" where
  "encode_abstract plan out0 =
     and_then (abstract_byte_len plan) (\<lambda>required.
     if length out0 < required then Err OutputTooSmall
     else
       and_then (copy_into out0 0 (replicate required 0)) (\<lambda>out.
       and_then (put_u16 out 0 1) (\<lambda>out.
       and_then (arr_set out 2 (mode_code (cp_mode plan))) (\<lambda>out.
       and_then (ok_or (u32_try_from (length (cp_tables plan))) ArithmeticOverflow) (\<lambda>tables.
       and_then (put_u32 out 4 tables) (\<lambda>out.
       and_then (ok_or (u32_try_from (length (cp_entries plan))) ArithmeticOverflow) (\<lambda>entries.
       and_then (put_u32 out 8 entries) (\<lambda>out.
       and_then (ok_or (u32_try_from (length (cp_removals plan))) ArithmeticOverflow) (\<lambda>removals.
       and_then (put_u32 out 12 removals) (\<lambda>out.
       and_then (put_u32 out 16 (fs_get FrameSlot_ROOT)) (\<lambda>out.
       and_then (try_fold encode_table (out, ABSTRACT_PLAN_HEADER_SIZE) (cp_tables plan)) (\<lambda>s.
       and_then (try_fold encode_entry s (cp_entries plan)) (\<lambda>s.
       and_then (try_fold encode_removal s (cp_removals plan)) (\<lambda>(out, offset).
       Ok (out, required)))))))))))))))"

section \<open>The byte image\<close>

definition table_image :: "planned_table \<Rightarrow> u8 list" where
  "table_image t = [level_code (pt_level t), 0, 0, 0] @ to_le_bytes 4 (fs_get (pt_frame_slot t))
     @ to_le_bytes 4 (fs_get (pt_parent_slot t)) @ to_le_bytes 2 (ti_get (pt_parent_index t)) @ [0, 0]"

definition entry_image :: "planned_entry \<Rightarrow> u8 list" where
  "entry_image e = to_le_bytes 4 (fs_get (pe_table_slot e)) @ to_le_bytes 2 (ti_get (pe_index e))
     @ [target_kind_code (et_kind (pe_target e)), 0] @ to_le_bytes 8 (et_value (pe_target e))
     @ to_le_bytes 8 (ef_bits (pe_flags e)) @ replicate 8 0"

definition removal_image :: "transition_removal \<Rightarrow> u8 list" where
  "removal_image r = to_le_bytes 4 (fs_get (tr_table_slot r)) @ to_le_bytes 2 (ti_get (tr_index r))
     @ [0, 0] @ to_le_bytes 4 (fs_get (tr_expected_target r)) @ replicate 4 0
     @ to_le_bytes 8 (ef_bits (tr_expected_flags r))"

definition plan_image :: "construction_plan \<Rightarrow> u8 list" where
  "plan_image plan =
     to_le_bytes 2 (1 :: u16) @ [mode_code (cp_mode plan), 0]
     @ to_le_bytes 4 (of_nat (length (cp_tables plan)) :: u32)
     @ to_le_bytes 4 (of_nat (length (cp_entries plan)) :: u32)
     @ to_le_bytes 4 (of_nat (length (cp_removals plan)) :: u32)
     @ to_le_bytes 4 (fs_get FrameSlot_ROOT) @ replicate 12 0
     @ concat (map table_image (cp_tables plan)) @ concat (map entry_image (cp_entries plan))
     @ concat (map removal_image (cp_removals plan))"

section \<open>The writes produce the byte image\<close>

lemma zeros:
  "replicate 24 (0 :: u8) = [0, 0, 0, 0, 0, 0, 0, 0, 0, 0, 0, 0, 0, 0, 0, 0, 0, 0, 0, 0, 0, 0, 0, 0]"
  "replicate 16 (0 :: u8) = [0, 0, 0, 0, 0, 0, 0, 0, 0, 0, 0, 0, 0, 0, 0, 0]"
  "replicate 12 (0 :: u8) = [0, 0, 0, 0, 0, 0, 0, 0, 0, 0, 0, 0]"
  "replicate 8 (0 :: u8) = [0, 0, 0, 0, 0, 0, 0, 0]"
  "replicate 4 (0 :: u8) = [0, 0, 0, 0]"
  by (simp_all add: numeral_eq_Suc)

lemma zeros_32: "replicate 32 (0 :: u8) = replicate 16 0 @ replicate 16 0"
  by (simp flip: replicate_add)

lemmas write_simps = put_u16_def put_u32_def put_u64_def copy_into_def arr_set_def
  list_update_append const_defs zeros zeros_32

lemma encode_table_step:
  "encode_table (xs @ replicate 16 0 @ zs, length xs) t = Ok (xs @ table_image t @ zs, length xs + 16)"
  by (simp add: encode_table_def table_image_def write_simps)

lemma encode_entry_step:
  "encode_entry (xs @ replicate 32 0 @ zs, length xs) e = Ok (xs @ entry_image e @ zs, length xs + 32)"
  by (simp add: encode_entry_def entry_image_def write_simps)

lemma encode_removal_step:
  "encode_removal (xs @ replicate 24 0 @ zs, length xs) r = Ok (xs @ removal_image r @ zs, length xs + 24)"
  by (simp add: encode_removal_def removal_image_def write_simps)

lemma image_lengths [simp]:
  "length (table_image t) = 16" "length (entry_image e) = 32" "length (removal_image r) = 24"
  by (simp_all add: table_image_def entry_image_def removal_image_def)

text \<open>A loop of such writes produces the concatenation of the images.\<close>

lemma encode_loop:
  assumes step: "\<And>xs zs r. f (xs @ replicate k 0 @ zs, length xs) r = Ok (xs @ img r @ zs, length xs + k)"
    and len: "\<And>r. length (img r) = k"
  shows "try_fold f (xs @ replicate (k * length rs) (0 :: u8) @ zs, length xs) rs
    = Ok (xs @ concat (map img rs) @ zs, length xs + k * length rs)"
proof (induction rs arbitrary: xs)
  case (Cons r rs)
  have "xs @ replicate (k * length (r # rs)) 0 @ zs
      = xs @ replicate k 0 @ (replicate (k * length rs) 0 @ zs)"
    by (simp add: replicate_add)
  then show ?case using step Cons.IH [of "xs @ img r"] len by simp
qed simp

lemmas encode_loops =
  encode_loop [of encode_table 16 table_image, OF encode_table_step image_lengths(1)]
  encode_loop [of encode_entry 32 entry_image, OF encode_entry_step image_lengths(2)]
  encode_loop [of encode_removal 24 removal_image, OF encode_removal_step image_lengths(3)]

abbreviation image_size :: "construction_plan \<Rightarrow> nat" where
  "image_size plan \<equiv> 32 + 16 * length (cp_tables plan) + 32 * length (cp_entries plan)
     + 24 * length (cp_removals plan)"

lemma abstract_byte_len_eq:
  "abstract_byte_len plan =
     (if image_size plan < 2 ^ 64 then Ok (image_size plan) else Err ArithmeticOverflow)"
  by (auto simp: abstract_byte_len_def const_defs usize_add_def usize_mul_def algebra_simps)

definition header_image :: "construction_plan \<Rightarrow> u8 list" where
  "header_image plan = take 32 (plan_image plan)"

lemma plan_image_split:
  "plan_image plan = header_image plan @ concat (map table_image (cp_tables plan))
     @ concat (map entry_image (cp_entries plan)) @ concat (map removal_image (cp_removals plan))"
  and length_header [simp]: "length (header_image plan) = 32"
  by (simp_all add: header_image_def plan_image_def)

lemma encode_body:
  "and_then (try_fold encode_table
       (header_image plan @ replicate (image_size plan - 32) 0 @ zs, ABSTRACT_PLAN_HEADER_SIZE) (cp_tables plan)) (\<lambda>s.
   and_then (try_fold encode_entry s (cp_entries plan)) (\<lambda>s.
   and_then (try_fold encode_removal s (cp_removals plan)) (\<lambda>(out, offset). Ok (out, image_size plan))))
   = Ok (plan_image plan @ zs, image_size plan)"
proof -
  let ?t = "concat (map table_image (cp_tables plan))" and ?e = "concat (map entry_image (cp_entries plan))"
  have z: "replicate (image_size plan - 32) (0 :: u8) = replicate (16 * length (cp_tables plan)) 0
      @ replicate (32 * length (cp_entries plan)) 0 @ replicate (24 * length (cp_removals plan)) 0"
    by (simp add: replicate_add [symmetric])
  have lt: "length ?t = 16 * length (cp_tables plan)" by (auto simp: length_concat o_def sum_list_triv)
  have le: "length ?e = 32 * length (cp_entries plan)" by (auto simp: length_concat o_def sum_list_triv)
  show ?thesis
    unfolding z plan_image_split
    using encode_loops(1) [of "header_image plan"]
      encode_loops(2) [of "header_image plan @ ?t"]
      encode_loops(3) [of "header_image plan @ ?t @ ?e"] lt le
    by (simp add: const_defs add.assoc)
qed

lemma header_writes:
  assumes "length (cp_tables plan) < 2 ^ 32" "length (cp_entries plan) < 2 ^ 32" "length (cp_removals plan) < 2 ^ 32"
  shows
  "and_then (put_u16 (replicate 32 0 @ zs) 0 1) (\<lambda>out.
   and_then (arr_set out 2 (mode_code (cp_mode plan))) (\<lambda>out.
   and_then (ok_or (u32_try_from (length (cp_tables plan))) ArithmeticOverflow) (\<lambda>tables.
   and_then (put_u32 out 4 tables) (\<lambda>out.
   and_then (ok_or (u32_try_from (length (cp_entries plan))) ArithmeticOverflow) (\<lambda>entries.
   and_then (put_u32 out 8 entries) (\<lambda>out.
   and_then (ok_or (u32_try_from (length (cp_removals plan))) ArithmeticOverflow) (\<lambda>removals.
   and_then (put_u32 out 12 removals) (\<lambda>out.
   and_then (put_u32 out 16 (fs_get FrameSlot_ROOT)) k)))))))) = k (header_image plan @ zs)"
  using assms unfolding header_image_def plan_image_def
  by (simp add: write_simps u32_try_from_def)

lemma clear_output:
  assumes "image_size plan \<le> length out"
  shows "copy_into out 0 (replicate (image_size plan) 0)
    = Ok (replicate 32 (0 :: u8) @ replicate (image_size plan - 32) 0 @ drop (image_size plan) out)"
  using assms by (simp add: copy_into_def replicate_add [symmetric] flip: append_assoc)

lemma header_overflow:
  assumes "\<not> (length (cp_tables plan) < 2 ^ 32 \<and> length (cp_entries plan) < 2 ^ 32
    \<and> length (cp_removals plan) < 2 ^ 32)"
  shows
  "and_then (put_u16 (replicate 32 0 @ zs) 0 1) (\<lambda>out.
   and_then (arr_set out 2 (mode_code (cp_mode plan))) (\<lambda>out.
   and_then (ok_or (u32_try_from (length (cp_tables plan))) ArithmeticOverflow) (\<lambda>tables.
   and_then (put_u32 out 4 tables) (\<lambda>out.
   and_then (ok_or (u32_try_from (length (cp_entries plan))) ArithmeticOverflow) (\<lambda>entries.
   and_then (put_u32 out 8 entries) (\<lambda>out.
   and_then (ok_or (u32_try_from (length (cp_removals plan))) ArithmeticOverflow) (\<lambda>removals.
   and_then (put_u32 out 12 removals) (\<lambda>out.
   and_then (put_u32 out 16 (fs_get FrameSlot_ROOT)) k)))))))) = Err ArithmeticOverflow"
  using assms by (auto simp: write_simps u32_try_from_def)

lemma encode_abstract_eq:
  "encode_abstract plan out =
     (if 2 ^ 64 \<le> image_size plan then Err ArithmeticOverflow
      else if length out < image_size plan then Err OutputTooSmall
      else if length (cp_tables plan) < 2 ^ 32 \<and> length (cp_entries plan) < 2 ^ 32
        \<and> length (cp_removals plan) < 2 ^ 32
      then Ok (plan_image plan @ drop (image_size plan) out, image_size plan)
      else Err ArithmeticOverflow)"
proof (cases "image_size plan < 2 ^ 64 \<and> image_size plan \<le> length out")
  case True
  show ?thesis
  proof (cases "length (cp_tables plan) < 2 ^ 32 \<and> length (cp_entries plan) < 2 ^ 32
        \<and> length (cp_removals plan) < 2 ^ 32")
    case fits: True
    show ?thesis
      unfolding encode_abstract_def abstract_byte_len_eq
      using True fits encode_body [of plan "drop (image_size plan) out"]
      by (simp add: clear_output header_writes del: append_assoc)
  next
    case False
    then show ?thesis
      unfolding encode_abstract_def abstract_byte_len_eq
      using True
      by (simp add: clear_output header_overflow [OF False] del: append_assoc)
  qed
qed (auto simp: encode_abstract_def abstract_byte_len_eq)


section \<open>The image determines the plan\<close>

lemma to_le_bytes_inject:
  "LENGTH('a) \<le> 8 * n \<Longrightarrow> to_le_bytes n v = to_le_bytes n w \<longleftrightarrow> v = (w :: 'a::len word)"
  by (metis from_to_le_bytes)

lemma to_le_bytes_inject_widths [simp]:
  "to_le_bytes 2 v2 = to_le_bytes 2 w2 \<longleftrightarrow> v2 = (w2 :: u16)"
  "to_le_bytes 4 v4 = to_le_bytes 4 w4 \<longleftrightarrow> v4 = (w4 :: u32)"
  "to_le_bytes 8 v8 = to_le_bytes 8 w8 \<longleftrightarrow> v8 = (w8 :: u64)"
  by (simp_all add: to_le_bytes_inject)

lemma level_code_inject [simp]: "level_code a = level_code b \<longleftrightarrow> a = b"
  by (cases a; cases b) simp_all

lemma target_kind_code_inject [simp]: "target_kind_code k = target_kind_code k' \<longleftrightarrow> k = k'"
  by (cases k; cases k') simp_all

lemma mode_code_inject [simp]: "mode_code m = mode_code m' \<longleftrightarrow> m = m'"
  by (cases m; cases m') simp_all

lemma table_image_inject [simp]: "table_image t = table_image t' \<longleftrightarrow> t = t'"
  by (cases t; cases t') (auto simp: table_image_def frame_slot.expand table_index.expand)

lemma entry_image_inject [simp]: "entry_image e = entry_image e' \<longleftrightarrow> e = e'"
  by (cases e; cases e'; cases "pe_target e"; cases "pe_target e'")
    (auto simp: entry_image_def frame_slot.expand table_index.expand entry_flags.expand)

lemma removal_image_inject [simp]: "removal_image r = removal_image r' \<longleftrightarrow> r = r'"
  by (cases r; cases r')
    (auto simp: removal_image_def frame_slot.expand table_index.expand entry_flags.expand)

lemma concat_image_inject:
  assumes "inj f" "\<And>x. length (f x) = k" "length xs = length ys"
  shows "concat (map f xs) @ us = concat (map f ys) @ vs \<longleftrightarrow> xs = ys \<and> us = vs"
  using assms(3)
proof (induction xs ys rule: list_induct2)
  case (Cons x xs y ys)
  then show ?case using assms(1,2) by (auto simp: inj_eq append_eq_append_conv)
qed simp

lemma concat_images_inject [simp]:
  "length ts = length ts' \<Longrightarrow> concat (map table_image ts) @ us = concat (map table_image ts') @ vs \<longleftrightarrow> ts = ts' \<and> us = vs"
  "length es = length es' \<Longrightarrow> concat (map entry_image es) @ us = concat (map entry_image es') @ vs \<longleftrightarrow> es = es' \<and> us = vs"
  "length rs = length rs' \<Longrightarrow> concat (map removal_image rs) = concat (map removal_image rs') \<longleftrightarrow> rs = rs'"
  using concat_image_inject [of table_image 16 ts ts' us vs] concat_image_inject [of entry_image 32 es es' us vs]
    concat_image_inject [of removal_image 24 rs rs' "[]" "[]"]
  by (simp_all add: inj_def)

lemma count_inject: "m < 2 ^ 32 \<Longrightarrow> n < 2 ^ 32 \<Longrightarrow> (of_nat m :: u32) = of_nat n \<longleftrightarrow> m = n"
  by (auto simp: word_eq_nat unat_of_nat)

lemma plan_image_inject:
  assumes "length (cp_tables a) < 2 ^ 32" "length (cp_entries a) < 2 ^ 32" "length (cp_removals a) < 2 ^ 32"
    and "length (cp_tables b) < 2 ^ 32" "length (cp_entries b) < 2 ^ 32" "length (cp_removals b) < 2 ^ 32"
    and "plan_image a = plan_image b"
  shows "cp_mode a = cp_mode b \<and> cp_tables a = cp_tables b \<and> cp_entries a = cp_entries b
    \<and> cp_removals a = cp_removals b"
  using assms(7) unfolding plan_image_def
  by (auto simp: count_inject [OF assms(1,4)] count_inject [OF assms(2,5)] count_inject [OF assms(3,6)])

lemma length_plan_image [simp]: "length (plan_image plan) = image_size plan"
  by (simp add: plan_image_split length_concat o_def sum_list_triv)

lemma encode_abstract_Ok:
  "encode_abstract plan out = Ok (out', n) \<longleftrightarrow>
     image_size plan < 2 ^ 64 \<and> image_size plan \<le> length out \<and> n = image_size plan
     \<and> length (cp_tables plan) < 2 ^ 32 \<and> length (cp_entries plan) < 2 ^ 32
     \<and> length (cp_removals plan) < 2 ^ 32 \<and> out' = plan_image plan @ drop n out"
  by (auto simp: encode_abstract_eq)

section \<open>The entry values\<close>

lemma frame_address_masked:
  fixes a :: u64
  assumes "a < 0x400000000000" "a mod 0x1000 = 0"
  shows "a AND 0x3ffffffff000 = a"
proof -
  have low: "a AND NOT (mask 12) = a"
    using assms(2) by (simp add: word_eq_nat unat_and_not_mask unat_mod_distrib)
  have "a = take_bit 46 a"
    using assms(1) by (simp add: take_bit_eq_mod word_eq_nat unat_mod_distrib word_less_nat_alt)
  also have "\<dots> = (a AND NOT (mask 12)) AND mask 46" by (simp only: low take_bit_eq_mask)
  also have "\<dots> = a AND (NOT (mask 12) AND mask 46)" by (simp only: and.assoc)
  finally show ?thesis by (simp add: mask_eq_exp_minus_1)
qed

text \<open>
  A frame address and a set of known flags occupy disjoint bits, so that an entry's value gives
  back both.
\<close>

lemma entry_bits_disjoint:
  fixes a f :: u64
  assumes a: "a AND 0x3ffffffff000 = a" and f: "f AND NOT EF_KNOWN = 0"
  shows "(a OR f) AND 0xffffffffff000 = a" "(a OR f) AND NOT 0xffffffffff000 = f"
proof -
  have "f = f AND (EF_KNOWN OR NOT EF_KNOWN)" by simp
  also have "\<dots> = f AND EF_KNOWN" by (simp only: bit.conj_disj_distrib f or.right_neutral)
  finally have f': "f AND EF_KNOWN = f" by (rule sym)
  have "(a OR f) AND m = ((a AND 0x3ffffffff000) AND m) OR ((f AND EF_KNOWN) AND m)" for m
    by (simp only: a f' bit.conj_disj_distrib2)
  then have split: "(a OR f) AND m = (a AND (0x3ffffffff000 AND m)) OR (f AND (EF_KNOWN AND m))" for m
    by (simp only: and.assoc)
  from split [of "0xffffffffff000"] split [of "NOT 0xffffffffff000"]
  show "(a OR f) AND 0xffffffffff000 = a" "(a OR f) AND NOT 0xffffffffff000 = f"
    using a f' by (simp_all add: const_defs)
qed

lemma encode_loop_entries:
  assumes "list_all2 (\<lambda>e v. encoded_value e a = Ok v) es vs" "length es \<le> length ys"
  shows "try_fold (\<lambda>out' (i, entry).
        and_then (map_err (Pair out') (encoded_value entry a)) (\<lambda>value. arr_set out' i value))
      (xs @ ys) (zip [length xs ..< length xs + length ys] (es @ rest)) =
    try_fold (\<lambda>out' (i, entry).
        and_then (map_err (Pair out') (encoded_value entry a)) (\<lambda>value. arr_set out' i value))
      (xs @ vs @ drop (length vs) ys)
      (zip [length xs + length vs ..< length xs + length ys] rest)"
  using assms
proof (induction es vs arbitrary: xs ys rule: list_all2_induct)
  case (Cons e es v vs)
  then obtain y ys' where ys: "ys = y # ys'" by (cases ys) auto
  have "[length xs ..< length xs + length ys] = length xs # [length (xs @ [v]) ..< length (xs @ [v]) + length ys']"
    using ys by (simp add: upt_conv_Cons del: upt_Suc)
  then show ?case using Cons.IH [of ys' "xs @ [v]"] Cons.hyps Cons.prems ys
    by (simp add: arr_set_def list_update_append)
qed simp

section \<open>Properties\<close>

text \<open>
  C19. The abstract encoding equals its reference image. For every plan and every output buffer,
  \<^verbatim>\<open>encode_abstract\<close> either writes exactly the concatenation of the 32-byte header and the
  records' images, leaves the rest of the buffer unchanged and returns the image's size, or
  fails: on a size or a count that does not fit, with \<open>ArithmeticOverflow\<close>; on a shorter
  buffer, with \<open>OutputTooSmall\<close>. It never panics.
\<close>

theorem encode_abstract_image:
  "encode_abstract plan out =
     (if 2 ^ 64 \<le> length (plan_image plan) then Err ArithmeticOverflow
      else if length out < length (plan_image plan) then Err OutputTooSmall
      else if length (cp_tables plan) < 2 ^ 32 \<and> length (cp_entries plan) < 2 ^ 32
        \<and> length (cp_removals plan) < 2 ^ 32
      then Ok (plan_image plan @ drop (length (plan_image plan)) out, length (plan_image plan))
      else Err ArithmeticOverflow)"
  by (simp only: encode_abstract_eq length_plan_image)

text \<open>
  C20. The encoding loses nothing: when two plans are encoded successfully and the bytes that the
  encoder reports as written are the same, the plans have the same mode, tables, entries and
  removals.
\<close>
theorem encode_abstract_injective:
  assumes "encode_abstract p out = Ok (out', n)" and "encode_abstract q buf = Ok (buf', m)"
    and "take n out' = take m buf'"
  shows "cp_mode p = cp_mode q \<and> cp_tables p = cp_tables q \<and> cp_entries p = cp_entries q
    \<and> cp_removals p = cp_removals q"
  using assms by (intro plan_image_inject) (auto simp: encode_abstract_Ok)

definition small_plan :: construction_plan where
  "small_plan = \<lparr>cp_mode = Final, cp_tables = [], cp_tables_capacity = 0, cp_entries = [],
     cp_entries_capacity = 0, cp_removals = [], cp_removals_capacity = 0\<rparr>"

theorem encode_abstract_injective_witness:
  "\<exists>out' n. encode_abstract small_plan (replicate 40 7) = Ok (out', n) \<and> n = 32
     \<and> (\<forall>q buf'. encode_abstract q (replicate 64 9) = Ok (buf', 32) \<longrightarrow> take 32 buf' = take n out'
          \<longrightarrow> cp_mode q = Final \<and> cp_entries q = [])"
proof -
  have e: "encode_abstract small_plan (replicate 40 7) = Ok (plan_image small_plan @ replicate 8 7, 32)"
    by (simp add: encode_abstract_eq small_plan_def)
  show ?thesis using encode_abstract_injective [OF e] e by (auto simp: small_plan_def)
qed

text \<open>
  C21. A hardware entry gives back what it was made of. The value written for an entry whose
  target is a physical frame, or a table whose assigned frame it is, holds the frame's address
  in the bits 12 to 51 and exactly the flags in all the remaining ones, so that no other bit is
  set. For a physical target the leaf encoding, which needs no assignments, is the same value.
\<close>
theorem encoded_value_decodes:
  assumes "PhysicalFrame_new address = Ok frame" and "EntryFlags_from_bits bits = Ok flags"
    and "pe_flags e = flags"
    and "pe_target e = EntryTarget_physical frame
      \<or> (\<exists>slot. pe_target e = EntryTarget_table slot \<and> assigned_frame a slot = Ok frame)"
  shows "\<exists>v. encoded_value e a = Ok v \<and> PhysicalFrame_new (v AND 0xffffffffff000) = Ok frame
    \<and> EntryFlags_from_bits (v AND NOT 0xffffffffff000) = Ok flags
    \<and> encoded_leaf_value e = (if pe_target e = EntryTarget_physical frame then Some v else None)"
proof -
  have f: "pf_address frame = address" "address \<noteq> 0" "address < SUPPORTED_PHYSICAL_END"
      "is_multiple_of address PAGE_SIZE"
    using assms(1) pf_new.mk_ok by blast+
  have b: "ef_bits flags = bits" "bits AND NOT EF_KNOWN = 0" using assms(2) ef_new.mk_ok by blast+
  have "address AND 0x3ffffffff000 = address"
    using f(3,4) by (intro frame_address_masked) (simp_all add: is_multiple_of_def const_defs)
  note bits = entry_bits_disjoint [OF this b(2)]
  have "encoded_value e a = Ok (address OR bits)"
    using assms(3,4) f(1) b(1)
    by (auto simp: encoded_value_def EntryTarget_physical_def EntryTarget_table_def)
  moreover have "encoded_leaf_value e = (if pe_target e = EntryTarget_physical frame then Some (address OR bits) else None)"
    using assms(3,4) f(1) b(1)
    by (auto simp: encoded_leaf_value_def EntryTarget_physical_def EntryTarget_table_def)
  ultimately show ?thesis using assms(1,2) bits by simp
qed

theorem encoded_value_decodes_witness:
  "\<exists>v. encoded_value \<lparr>pe_table_slot = FrameSlot 0, pe_index = TableIndex 3,
       pe_target = EntryTarget_table (FrameSlot 1), pe_flags = EF_INTERMEDIATE\<rparr>
       \<lparr>fa_frames = [PhysicalFrame 0x1000, PhysicalFrame 0x5000], fa_len = 2\<rparr> = Ok v
     \<and> PhysicalFrame_new (v AND 0xffffffffff000) = Ok (PhysicalFrame 0x5000)
     \<and> EntryFlags_from_bits (v AND NOT 0xffffffffff000) = Ok EF_INTERMEDIATE"
proof -
  let ?a = "\<lparr>fa_frames = [PhysicalFrame 0x1000, PhysicalFrame 0x5000], fa_len = 2\<rparr>"
  let ?e = "\<lparr>pe_table_slot = FrameSlot 0, pe_index = TableIndex 3,
       pe_target = EntryTarget_table (FrameSlot 1), pe_flags = EF_INTERMEDIATE\<rparr>"
  have "assigned_frame ?a (FrameSlot 1) = Ok (PhysicalFrame 0x5000)"
    by (simp add: assigned_frame_def fs_as_index_def arr_get_def)
  then have target: "pe_target ?e = EntryTarget_physical (PhysicalFrame 0x5000)
      \<or> (\<exists>slot. pe_target ?e = EntryTarget_table slot \<and> assigned_frame ?a slot = Ok (PhysicalFrame 0x5000))"
    by auto
  have frame: "PhysicalFrame_new 0x5000 = Ok (PhysicalFrame 0x5000)"
    by (simp add: PhysicalFrame_new_def PhysicalAddress_new_def const_defs word_nat)
  have flags: "EntryFlags_from_bits 3 = Ok EF_INTERMEDIATE"
    by (simp add: EntryFlags_from_bits_def const_defs)
  have "pe_flags ?e = EF_INTERMEDIATE" by simp
  from encoded_value_decodes [OF frame flags this target] show ?thesis by blast
qed

text \<open>
  C22. Every outcome of \<^verbatim>\<open>encoded_entries\<close>. Assignments that do not name one frame per planned table,
  and an output shorter than the plan's entries, are refused and leave the output alone. Otherwise
  the entries are written in the plan's order from the start of the output: when all of them can be
  encoded the call returns their number and the rest of the output is unchanged, and the first that
  cannot be encoded is reported with its own error, after the values before it and no others were
  written.
\<close>
theorem encoded_entries_correct:
  "(fa_len a \<noteq> length (cp_tables plan) \<longrightarrow> encoded_entries plan a out = Err (out, FrameAssignmentCountMismatch))
   \<and> (fa_len a = length (cp_tables plan) \<and> length out < length (cp_entries plan) \<longrightarrow>
        encoded_entries plan a out = Err (out, EntryCapacityExhausted))
   \<and> (fa_len a = length (cp_tables plan) \<and> length (cp_entries plan) \<le> length out \<longrightarrow>
        (list_all2 (\<lambda>e v. encoded_value e a = Ok v) (cp_entries plan) vs \<longrightarrow>
           encoded_entries plan a out = Ok (vs @ drop (length vs) out, length vs))
        \<and> (cp_entries plan = before @ e # after \<and> list_all2 (\<lambda>e v. encoded_value e a = Ok v) before vs
             \<and> encoded_value e a = Err err \<longrightarrow>
           encoded_entries plan a out = Err (vs @ drop (length vs) out, err)))"
proof (intro conjI impI; (elim conjE)?)
  assume "fa_len a = length (cp_tables plan)" "length (cp_entries plan) \<le> length out"
    and vs: "list_all2 (\<lambda>e v. encoded_value e a = Ok v) (cp_entries plan) vs"
  then show "encoded_entries plan a out = Ok (vs @ drop (length vs) out, length vs)"
    using encode_loop_entries [OF vs, of out "[]" "[]"] list_all2_lengthD [OF vs] by (simp add: encoded_entries_def)
next
  assume n: "fa_len a = length (cp_tables plan)" "length (cp_entries plan) \<le> length out"
    and es: "cp_entries plan = before @ e # after" and vs: "list_all2 (\<lambda>e v. encoded_value e a = Ok v) before vs"
    and err: "encoded_value e a = Err err"
  have len: "length before = length vs" "length vs < length out" using list_all2_lengthD [OF vs] n(2) es by simp_all
  have "[length vs ..< length out] = length vs # [Suc (length vs) ..< length out]" using len(2) by (rule upt_conv_Cons)
  then show "encoded_entries plan a out = Err (vs @ drop (length vs) out, err)"
    using encode_loop_entries [OF vs, of out "[]" "e # after"] len n es err by (simp add: encoded_entries_def)
qed (simp_all add: encoded_entries_def)

definition one_entry_plan :: construction_plan where
  "one_entry_plan = \<lparr>cp_mode = Final,
     cp_tables = [\<lparr>pt_level = Pml4, pt_frame_slot = FrameSlot 0, pt_parent_slot = FrameSlot_NONE,
       pt_parent_index = TableIndex 0\<rparr>], cp_tables_capacity = 4,
     cp_entries = [\<lparr>pe_table_slot = FrameSlot 0, pe_index = TableIndex 3,
       pe_target = EntryTarget_table (FrameSlot 0), pe_flags = EF_INTERMEDIATE\<rparr>],
     cp_entries_capacity = 4, cp_removals = [], cp_removals_capacity = 4\<rparr>"

theorem encoded_entries_correct_witness:
  "encoded_entries one_entry_plan \<lparr>fa_frames = [PhysicalFrame 0x1000], fa_len = 1\<rparr> [7, 8] = Ok ([0x1003, 8], 1)
   \<and> encoded_entries one_entry_plan \<lparr>fa_frames = [PhysicalFrame 0x1000], fa_len = 1\<rparr> []
       = Err ([], EntryCapacityExhausted)
   \<and> encoded_entries one_entry_plan \<lparr>fa_frames = [], fa_len = 0\<rparr> [7, 8]
       = Err ([7, 8], FrameAssignmentCountMismatch)
   \<and> encoded_entries (one_entry_plan\<lparr>cp_entries := cp_entries one_entry_plan
         @ map (\<lambda>e. e\<lparr>pe_target := EntryTarget_table (FrameSlot 5)\<rparr>) (cp_entries one_entry_plan)\<rparr>)
       \<lparr>fa_frames = [PhysicalFrame 0x1000], fa_len = 1\<rparr> [7, 8, 9] = Err ([0x1003, 8, 9], MissingFrameAssignment)"
proof (intro conjI)
  let ?a = "\<lparr>fa_frames = [PhysicalFrame 0x1000], fa_len = 1\<rparr>"
  define e0 where e0: "e0 = hd (cp_entries one_entry_plan)"
  let ?bad = "e0\<lparr>pe_target := EntryTarget_table (FrameSlot 5)\<rparr>"
  have vals: "encoded_value e0 ?a = Ok 0x1003" "encoded_value ?bad ?a = Err MissingFrameAssignment"
    by (simp_all add: e0 one_entry_plan_def encoded_value_def EntryTarget_table_def assigned_frame_def
       fs_as_index_def arr_get_def const_defs)
  have es: "cp_entries one_entry_plan = [e0]" "length (cp_tables one_entry_plan) = 1"
    by (simp_all add: e0 one_entry_plan_def)
  show "encoded_entries one_entry_plan ?a [7, 8] = Ok ([0x1003, 8], 1)"
    using encoded_entries_correct [of ?a one_entry_plan "[7, 8]" "[0x1003]"] vals es by simp
  show "encoded_entries one_entry_plan ?a [] = Err ([], EntryCapacityExhausted)"
    using encoded_entries_correct [of ?a one_entry_plan "[]"] es by simp
  show "encoded_entries one_entry_plan \<lparr>fa_frames = [], fa_len = 0\<rparr> [7, 8] = Err ([7, 8], FrameAssignmentCountMismatch)"
    using encoded_entries_correct [of "\<lparr>fa_frames = [], fa_len = 0\<rparr>" one_entry_plan "[7, 8]"] es by simp
  let ?p = "one_entry_plan\<lparr>cp_entries := cp_entries one_entry_plan
         @ map (\<lambda>e. e\<lparr>pe_target := EntryTarget_table (FrameSlot 5)\<rparr>) (cp_entries one_entry_plan)\<rparr>"
  have "cp_entries ?p = [e0] @ ?bad # []" "length (cp_tables ?p) = 1" using es by simp_all
  then show "encoded_entries ?p ?a [7, 8, 9] = Err ([0x1003, 8, 9], MissingFrameAssignment)"
    using encoded_entries_correct [of ?a ?p "[7, 8, 9]" "[0x1003]" "[e0]" ?bad "[]" MissingFrameAssignment] vals by simp
qed

end
