(* ===== verification/Resource_Owner.thy ===== *)
theory Resource_Owner
  imports Rust_Prelude
begin

text \<open>
  Support for the stateful components: an operation on \<^verbatim>\<open>&mut self\<close> that may fail returns the
  new state on both outcomes (\<open>Ok s\<close> or \<open>Err (s, e)\<close>), and the owners of firmware
  allocations share one contract for releasing what they hold.
\<close>

section \<open>Discarded results\<close>

text \<open>\<^verbatim>\<open>let _ = self.operation()\<close>.\<close>

fun discard :: "('s, 's \<times> 'e) result \<Rightarrow> ('s, 'f) result" where
  "discard (Ok s) = Ok s"
| "discard (Err (s, e)) = Ok s"
| "discard Panic = Panic"

lemma discard_Ok [simp]: "discard m = Ok s \<longleftrightarrow> m = Ok s \<or> (\<exists>e. m = Err (s, e))"
  by (cases m) auto

lemma discard_not_Err [simp]: "discard m \<noteq> Err e"
  by (cases m) auto

lemma discard_Panic [simp]: "discard m = Panic \<longleftrightarrow> m = Panic"
  by (cases m) auto

section \<open>Owners\<close>

text \<open>Any number of calls of an operation, whatever their outcomes.\<close>

inductive calls :: "('s \<Rightarrow> ('s, 's \<times> 'e) result) \<Rightarrow> 's \<Rightarrow> 's \<Rightarrow> bool" for f where
  calls_none: "calls f s s"
| calls_ok: "calls f s t \<Longrightarrow> f t = Ok u \<Longrightarrow> calls f s u"
| calls_err: "calls f s t \<Longrightarrow> f t = Err (u, e) \<Longrightarrow> calls f s u"

text \<open>
  The contract of an owner: \<open>held\<close> lists what it still owns in the order of acquisition,
  \<open>freed\<close> what its backend has accepted back so far. A successful release gives everything
  back in reverse order; a failing one stops at the first resource the backend refuses and keeps
  it and everything acquired before it.
\<close>

locale resource_owner =
  fixes inv :: "'s \<Rightarrow> bool"
    and held :: "'s \<Rightarrow> 'r list"
    and freed :: "'s \<Rightarrow> 'r list"
    and try_release :: "'s \<Rightarrow> ('s, 's \<times> 'e) result"
  assumes release_ok:
      "inv s \<Longrightarrow> try_release s = Ok t \<Longrightarrow> inv t \<and> held t = [] \<and> freed t = freed s @ rev (held s)"
    and release_err:
      "inv s \<Longrightarrow> try_release s = Err (t, e) \<Longrightarrow>
       inv t \<and> held t \<noteq> [] \<and> (\<exists>rest. held s = held t @ rest \<and> freed t = freed s @ rev rest)"
    and release_no_panic: "inv s \<Longrightarrow> try_release s \<noteq> Panic"
begin

lemma retries:
  assumes "calls try_release s t" and "inv s"
  shows "inv t \<and> (\<exists>rest. held s = held t @ rest \<and> freed t = freed s @ rev rest)"
  using assms
proof (induction rule: calls.induct)
  case (calls_ok s t u)
  then obtain rest where "inv t" "held s = held t @ rest" "freed t = freed s @ rev rest" by blast
  then show ?case using release_ok [of t u] calls_ok.hyps by auto
next
  case (calls_err s t u e)
  then obtain rest where t: "inv t" "held s = held t @ rest" "freed t = freed s @ rev rest" by blast
  then obtain rest' where "inv u" "held t = held u @ rest'" "freed u = freed t @ rev rest'"
    using release_err [of t u e] calls_err.hyps by blast
  then show ?case using t by auto
qed simp

lemma freed_once:
  assumes "calls try_release s t" and "inv s" and "freed s = []" and "distinct (held s)"
  shows "distinct (freed t) \<and> set (freed t) \<inter> set (held t) = {}
    \<and> set (freed t) \<union> set (held t) = set (held s)"
  using retries [OF assms(1,2)] assms(3,4) by auto

lemma release_discard:
  assumes "inv s"
  obtains t rest where "discard (try_release s) = Ok t" "inv t"
    "held s = held t @ rest" "freed t = freed s @ rev rest"
proof (cases "try_release s")
  case (Ok t)
  then show ?thesis using that [of t "held s"] release_ok [OF assms Ok] by simp
next
  case (Err p)
  then obtain t e where "try_release s = Err (t, e)" by (cases p) auto
  then show ?thesis using that [of t] release_err [OF assms] by auto
qed (simp add: release_no_panic assms)

end

end
