(* ===== verification/Frame_Owner.thy ===== *)
theory Frame_Owner
  imports Resource_Owner Page_Table
begin

text \<open>
  Ownership of page-table frames (\<^verbatim>\<open>crates/memory-layout/src/frame_owner.rs\<close>). The frame backend
  is a parameter: a state and three operations, each of which may fail. Every statement below
  holds for every backend; it is phrased over the log of the calls that an instrumented backend
  (\<open>logged\<close>) records.
\<close>

section \<open>The backend and the errors\<close>

record ('b, 'e) frame_backend =
  allocate_frame :: "'b \<Rightarrow> 'b \<times> ('e + u64)"
  zero_frame :: "'b \<Rightarrow> physical_frame \<Rightarrow> 'b \<times> ('e + unit)"
  free_frame :: "'b \<Rightarrow> u64 \<Rightarrow> 'b \<times> ('e + unit)"

datatype 'e frame_owner_cause =
    Allocation frame_slot 'e
  | Zeroing frame_slot 'e
  | InvalidFrame frame_slot page_table_error
  | DuplicateFrame frame_slot frame_slot
  | PlannedFrameCountExceedsCapacity

record 'e frame_owner_error =
  foe_source :: 'e
  foe_remaining_frames :: nat

section \<open>The incomplete owner\<close>

record 'b incomplete_frame_owner =
  io_backend :: "'b option"
  io_frames :: "u64 list"
  io_len :: nat

definition IncompleteFrameOwner_new :: "nat \<Rightarrow> 'b \<Rightarrow> 'b incomplete_frame_owner" where
  "IncompleteFrameOwner_new capacity backend =
     \<lparr>io_backend = Some backend, io_frames = replicate capacity 0, io_len = 0\<rparr>"

definition io_push ::
    "'b incomplete_frame_owner \<Rightarrow> u64 \<Rightarrow> ('b incomplete_frame_owner, 'x) result" where
  "io_push owner address =
     and_then (arr_set (io_frames owner) (io_len owner) address) (\<lambda>frames.
     Ok (owner\<lparr>io_frames := frames, io_len := io_len owner + 1\<rparr>))"

text \<open>The release loop keeps the frame the backend refuses, and everything below it.\<close>

function io_try_release ::
    "('b, 'e) frame_backend \<Rightarrow> 'b incomplete_frame_owner
     \<Rightarrow> ('b incomplete_frame_owner, 'b incomplete_frame_owner \<times> 'e frame_owner_error) result" where
  "io_try_release ops owner =
     (if io_len owner = 0 then Ok owner
      else
        and_then (arr_get (io_frames owner) (io_len owner - 1)) (\<lambda>address.
        and_then (expect (io_backend owner)) (\<lambda>backend.
        case free_frame ops backend address of
          (backend', Inl source) \<Rightarrow>
            Err (owner\<lparr>io_backend := Some backend'\<rparr>,
                 \<lparr>foe_source = source, foe_remaining_frames = io_len owner\<rparr>)
        | (backend', Inr _) \<Rightarrow>
            io_try_release ops (owner\<lparr>io_backend := Some backend', io_len := io_len owner - 1\<rparr>))))"
  by pat_completeness auto
termination by (relation "measure (\<lambda>(ops, owner). io_len owner)") auto

text \<open>Dropping the incomplete owner ignores what the backend answers.\<close>

function io_drop ::
    "('b, 'e) frame_backend \<Rightarrow> 'b incomplete_frame_owner \<Rightarrow> ('b incomplete_frame_owner, 'x) result" where
  "io_drop ops owner =
     (if io_len owner = 0 then Ok owner
      else
        and_then (arr_get (io_frames owner) (io_len owner - 1)) (\<lambda>address.
        and_then (expect (io_backend owner)) (\<lambda>backend.
        io_drop ops (owner\<lparr>io_backend := Some (fst (free_frame ops backend address)),
                           io_len := io_len owner - 1\<rparr>))))"
  by pat_completeness auto
termination by (relation "measure (\<lambda>(ops, owner). io_len owner)") auto

declare io_try_release.simps [simp del] io_drop.simps [simp del]

record ('b, 'e) frame_owner_build_error =
  be_cause :: "'e frame_owner_cause"
  be_owner :: "'b incomplete_frame_owner"

definition be_remaining_frames :: "('b, 'e) frame_owner_build_error \<Rightarrow> nat" where
  "be_remaining_frames e = io_len (be_owner e)"

definition be_try_release ::
    "('b, 'e) frame_backend \<Rightarrow> ('b, 'e) frame_owner_build_error
     \<Rightarrow> (('b, 'e) frame_owner_build_error,
         ('b, 'e) frame_owner_build_error \<times> 'e frame_owner_error) result" where
  "be_try_release ops e =
     (case io_try_release ops (be_owner e) of
        Ok owner \<Rightarrow> Ok (e\<lparr>be_owner := owner\<rparr>)
      | Err (owner, error) \<Rightarrow> Err (e\<lparr>be_owner := owner\<rparr>, error)
      | Panic \<Rightarrow> Panic)"

section \<open>The complete owner\<close>

record 'b page_table_frame_owner =
  fo_backend :: 'b
  fo_frames :: "physical_frame list"
  fo_len :: nat
  fo_root :: physical_frame
  fo_owned :: bool

text \<open>
  An error during acquisition releases what was acquired so far, ignores the outcome of that
  release, and hands the partial owner to the caller.
\<close>

definition acquisition_error ::
    "('b, 'e) frame_backend \<Rightarrow> 'b incomplete_frame_owner \<Rightarrow> 'e frame_owner_cause
     \<Rightarrow> ('b incomplete_frame_owner, ('b, 'e) frame_owner_build_error) result" where
  "acquisition_error ops partial cause =
     and_then (discard (io_try_release ops partial)) (\<lambda>owner.
     Err \<lparr>be_cause = cause, be_owner = owner\<rparr>)"

text \<open>The body of the acquisition loop.\<close>

definition acquire_frame ::
    "('b, 'e) frame_backend \<Rightarrow> 'b incomplete_frame_owner \<Rightarrow> nat
     \<Rightarrow> ('b incomplete_frame_owner, ('b, 'e) frame_owner_build_error) result" where
  "acquire_frame ops partial index =
     and_then (unwrap (FrameSlot_from_index index)) (\<lambda>slot.
     and_then (expect (io_backend partial)) (\<lambda>backend.
     case allocate_frame ops backend of
       (backend', Inl source) \<Rightarrow>
         acquisition_error ops (partial\<lparr>io_backend := Some backend'\<rparr>) (Allocation slot source)
     | (backend', Inr address) \<Rightarrow>
         let partial = partial\<lparr>io_backend := Some backend'\<rparr> in
         and_then (slice (io_frames partial) 0 (io_len partial)) (\<lambda>owned.
         case position (\<lambda>candidate. candidate = address) owned of
           Some earlier \<Rightarrow>
             and_then (unwrap (FrameSlot_from_index earlier)) (\<lambda>earlier_slot.
             acquisition_error ops partial (DuplicateFrame slot earlier_slot))
         | None \<Rightarrow>
             (case PhysicalFrame_new address of
                Panic \<Rightarrow> Panic
              | Err source \<Rightarrow>
                  and_then (io_push partial address) (\<lambda>partial.
                  acquisition_error ops partial (InvalidFrame slot source))
              | Ok frame \<Rightarrow>
                  and_then (io_push partial address) (\<lambda>partial.
                  and_then (expect (io_backend partial)) (\<lambda>backend.
                  case zero_frame ops backend frame of
                    (backend', Inl source) \<Rightarrow>
                      acquisition_error ops (partial\<lparr>io_backend := Some backend'\<rparr>)
                        (Zeroing slot source)
                  | (backend', Inr _) \<Rightarrow> Ok (partial\<lparr>io_backend := Some backend'\<rparr>)))))))"

text \<open>
  \<^verbatim>\<open>PageTableFrameOwner::allocate\<close>. The final loop validates the acquired addresses again and
  writes them over an array of empty frames.
\<close>

definition PageTableFrameOwner_allocate ::
    "nat \<Rightarrow> ('b, 'e) frame_backend \<Rightarrow> construction_plan \<Rightarrow> 'b
     \<Rightarrow> ('b page_table_frame_owner, ('b, 'e) frame_owner_build_error) result" where
  "PageTableFrameOwner_allocate capacity ops plan backend =
     (let partial = IncompleteFrameOwner_new capacity backend in
      if length (cp_tables plan) > capacity
      then Err \<lparr>be_cause = PlannedFrameCountExceedsCapacity, be_owner = partial\<rparr>
      else
        and_then (try_fold (acquire_frame ops) partial [0 ..< length (cp_tables plan)]) (\<lambda>partial.
        and_then (slice (io_frames partial) 0 (io_len partial)) (\<lambda>owned.
        and_then
          (try_fold (\<lambda>frames (i, address).
             and_then (unwrap (PhysicalFrame_new address)) (\<lambda>frame. arr_set frames i frame))
            (replicate capacity PhysicalFrame_EMPTY) (zip [0 ..< capacity] owned)) (\<lambda>frames.
        and_then (arr_get frames (fs_as_index FrameSlot_ROOT)) (\<lambda>root.
        and_then (expect (io_backend partial)) (\<lambda>backend.
        Ok \<lparr>fo_backend = backend, fo_frames = frames, fo_len = io_len partial, fo_root = root,
            fo_owned = True\<rparr>))))))"

definition fo_is_transferred :: "'b page_table_frame_owner \<Rightarrow> bool" where
  "fo_is_transferred owner \<longleftrightarrow> \<not> fo_owned owner"

definition fo_live_frames :: "'b page_table_frame_owner \<Rightarrow> physical_frame list" where
  "fo_live_frames owner = take (fo_len owner) (fo_frames owner)"

definition fo_assignments :: "'b page_table_frame_owner \<Rightarrow> frame_assignments" where
  "fo_assignments owner = \<lparr>fa_frames = fo_frames owner, fa_len = fo_len owner\<rparr>"

function fo_release_loop ::
    "('b, 'e) frame_backend \<Rightarrow> 'b page_table_frame_owner
     \<Rightarrow> ('b page_table_frame_owner, 'b page_table_frame_owner \<times> 'e frame_owner_error) result" where
  "fo_release_loop ops owner =
     (if \<not> (fo_owned owner \<and> fo_len owner \<noteq> 0) then Ok owner
      else
        and_then (arr_get (fo_frames owner) (fo_len owner - 1)) (\<lambda>frame.
        case free_frame ops (fo_backend owner) (pf_address frame) of
          (backend', Inl source) \<Rightarrow>
            Err (owner\<lparr>fo_backend := backend'\<rparr>,
                 \<lparr>foe_source = source, foe_remaining_frames = fo_len owner\<rparr>)
        | (backend', Inr _) \<Rightarrow>
            fo_release_loop ops (owner\<lparr>fo_backend := backend', fo_len := fo_len owner - 1\<rparr>)))"
  by pat_completeness auto
termination by (relation "measure (\<lambda>(ops, owner). fo_len owner)") auto

definition fo_try_release ::
    "('b, 'e) frame_backend \<Rightarrow> 'b page_table_frame_owner
     \<Rightarrow> ('b page_table_frame_owner, 'b page_table_frame_owner \<times> 'e frame_owner_error) result" where
  "fo_try_release ops owner =
     and_then (fo_release_loop ops owner) (\<lambda>owner.
     Ok (if fo_len owner = 0 then owner\<lparr>fo_owned := False\<rparr> else owner))"

function fo_drop_loop ::
    "('b, 'e) frame_backend \<Rightarrow> 'b page_table_frame_owner \<Rightarrow> ('b page_table_frame_owner, 'x) result" where
  "fo_drop_loop ops owner =
     (if fo_len owner = 0 then Ok owner
      else
        and_then (arr_get (fo_frames owner) (fo_len owner - 1)) (\<lambda>frame.
        fo_drop_loop ops
          (owner\<lparr>fo_backend := fst (free_frame ops (fo_backend owner) (pf_address frame)),
                 fo_len := fo_len owner - 1\<rparr>)))"
  by pat_completeness auto
termination by (relation "measure (\<lambda>(ops, owner). fo_len owner)") auto

definition fo_drop ::
    "('b, 'e) frame_backend \<Rightarrow> 'b page_table_frame_owner \<Rightarrow> ('b page_table_frame_owner, 'x) result" where
  "fo_drop ops owner =
     (if \<not> fo_owned owner then Ok owner
      else and_then (fo_drop_loop ops owner) (\<lambda>owner. Ok (owner\<lparr>fo_owned := False\<rparr>)))"

declare fo_release_loop.simps [simp del] fo_drop_loop.simps [simp del]

record transferred_page_table_frames =
  tf_frames :: "physical_frame list"
  tf_len :: nat
  tf_root :: physical_frame

text \<open>
  \<^verbatim>\<open>transfer\<close> consumes the owner: its ownership flag is cleared first, then it is dropped at the
  end of the function.
\<close>

definition fo_transfer ::
    "('b, 'e) frame_backend \<Rightarrow> 'b page_table_frame_owner
     \<Rightarrow> (transferred_page_table_frames \<times> 'b page_table_frame_owner, 'x) result" where
  "fo_transfer ops owner =
     (let owner = owner\<lparr>fo_owned := False\<rparr> in
      and_then (fo_drop ops owner) (\<lambda>dropped.
      Ok (\<lparr>tf_frames = fo_frames owner, tf_len = fo_len owner, tf_root = fo_root owner\<rparr>, dropped)))"

definition tf_live_frames :: "transferred_page_table_frames \<Rightarrow> physical_frame list" where
  "tf_live_frames t = take (tf_len t) (tf_frames t)"

definition tf_assignments :: "transferred_page_table_frames \<Rightarrow> frame_assignments" where
  "tf_assignments t = \<lparr>fa_frames = tf_frames t, fa_len = tf_len t\<rparr>"

section \<open>Instrumented backends\<close>

datatype 'e frame_event =
    Allocated u64
  | AllocationFailed 'e
  | Zeroed u64
  | ZeroFailed u64 'e
  | Freed u64
  | FreeFailed u64 'e

definition logged :: "('b, 'e) frame_backend \<Rightarrow> ('b \<times> 'e frame_event list, 'e) frame_backend" where
  "logged ops =
     \<lparr>allocate_frame = (\<lambda>(b, log). case allocate_frame ops b of
          (b', Inl e) \<Rightarrow> ((b', log @ [AllocationFailed e]), Inl e)
        | (b', Inr a) \<Rightarrow> ((b', log @ [Allocated a]), Inr a)),
      zero_frame = (\<lambda>(b, log) frame. case zero_frame ops b frame of
          (b', Inl e) \<Rightarrow> ((b', log @ [ZeroFailed (pf_address frame) e]), Inl e)
        | (b', Inr u) \<Rightarrow> ((b', log @ [Zeroed (pf_address frame)]), Inr u)),
      free_frame = (\<lambda>(b, log) address. case free_frame ops b address of
          (b', Inl e) \<Rightarrow> ((b', log @ [FreeFailed address e]), Inl e)
        | (b', Inr u) \<Rightarrow> ((b', log @ [Freed address]), Inr u))\<rparr>"

fun freed_in :: "'e frame_event list \<Rightarrow> u64 list" where
  "freed_in [] = []"
| "freed_in (Freed a # log) = a # freed_in log"
| "freed_in (_ # log) = freed_in log"

fun allocated_in :: "'e frame_event list \<Rightarrow> u64 list" where
  "allocated_in [] = []"
| "allocated_in (Allocated a # log) = a # allocated_in log"
| "allocated_in (_ # log) = allocated_in log"

lemma freed_in_append [simp]: "freed_in (xs @ ys) = freed_in xs @ freed_in ys"
  by (induction xs rule: freed_in.induct) auto

lemma allocated_in_append [simp]: "allocated_in (xs @ ys) = allocated_in xs @ allocated_in ys"
  by (induction xs rule: allocated_in.induct) auto

section \<open>Releasing\<close>

definition io_inv :: "'b incomplete_frame_owner \<Rightarrow> bool" where
  "io_inv owner \<longleftrightarrow> io_backend owner \<noteq> None \<and> io_len owner \<le> length (io_frames owner)"

definition io_held :: "'b incomplete_frame_owner \<Rightarrow> u64 list" where
  "io_held owner = take (io_len owner) (io_frames owner)"

definition io_log :: "('b \<times> 'e frame_event list) incomplete_frame_owner \<Rightarrow> 'e frame_event list" where
  "io_log owner = (case io_backend owner of Some (b, log) \<Rightarrow> log | None \<Rightarrow> [])"

definition fo_inv :: "'b page_table_frame_owner \<Rightarrow> bool" where
  "fo_inv owner \<longleftrightarrow> fo_len owner \<le> length (fo_frames owner)"

definition fo_held :: "'b page_table_frame_owner \<Rightarrow> u64 list" where
  "fo_held owner = (if fo_owned owner then map pf_address (fo_live_frames owner) else [])"

abbreviation fo_log :: "('b \<times> 'e frame_event list) page_table_frame_owner \<Rightarrow> 'e frame_event list" where
  "fo_log owner \<equiv> snd (fo_backend owner)"

lemma logged_free:
  obtains (refused) b' e where "free_frame ops b a = (b', Inl e)"
      "free_frame (logged ops) (b, log) a = ((b', log @ [FreeFailed a e]), Inl e)"
  | (accepted) b' where "free_frame ops b a = (b', Inr ())"
      "free_frame (logged ops) (b, log) a = ((b', log @ [Freed a]), Inr ())"
  by (cases "free_frame ops b a"; cases "snd (free_frame ops b a)") (auto simp: logged_def)

lemma freed_in_map [simp]: "freed_in (map Freed xs) = xs"
  by (induction xs) auto

lemma io_release_outcome:
  assumes "io_inv s"
  shows "(\<exists>t. io_try_release (logged ops) s = Ok t \<and> io_inv t \<and> io_held t = []
        \<and> io_log t = io_log s @ map Freed (rev (io_held s)))
    \<or> (\<exists>t e rest. io_try_release (logged ops) s = Err (t, e) \<and> io_inv t \<and> io_held t \<noteq> []
        \<and> io_held s = io_held t @ rest \<and> foe_remaining_frames e = length (io_held t)
        \<and> io_log t = io_log s @ map Freed (rev rest) @ [FreeFailed (last (io_held t)) (foe_source e)])"
  using assms
proof (induction "io_len s" arbitrary: s)
  case 0
  then show ?case by (subst io_try_release.simps) (simp add: io_held_def)
next
  case (Suc n)
  obtain b log where b: "io_backend s = Some (b, log)" and le: "io_len s \<le> length (io_frames s)"
    using Suc.prems by (cases "io_backend s") (auto simp: io_inv_def)
  let ?a = "io_frames s ! n"
  have n: "io_len s = Suc n" "n < length (io_frames s)" using Suc.hyps(2) le by auto
  have held: "io_held s = take n (io_frames s) @ [?a]"
    using n by (simp add: io_held_def take_Suc_conv_app_nth)
  show ?case
  proof (cases rule: logged_free [of ops b ?a log])
    case (refused b' e)
    let ?t = "s\<lparr>io_backend := Some (b', log @ [FreeFailed ?a e])\<rparr>"
    have "io_try_release (logged ops) s
        = Err (?t, \<lparr>foe_source = e, foe_remaining_frames = io_len s\<rparr>)"
      using n b refused by (subst io_try_release.simps) simp
    moreover have "io_inv ?t" "io_held ?t = io_held s" "io_log ?t = io_log s @ [FreeFailed ?a e]"
      using le b by (simp_all add: io_inv_def io_held_def io_log_def)
    ultimately show ?thesis using held n by auto
  next
    case (accepted b')
    let ?t = "s\<lparr>io_backend := Some (b', log @ [Freed ?a]), io_len := n\<rparr>"
    have step: "io_try_release (logged ops) s = io_try_release (logged ops) ?t"
      using n b accepted by (subst io_try_release.simps) simp
    have t: "io_inv ?t" "io_held s = io_held ?t @ [?a]" "io_log ?t = io_log s @ [Freed ?a]"
      using n b held by (simp_all add: io_inv_def io_held_def io_log_def)
    show ?thesis using Suc.hyps(1) [of ?t] t(1) unfolding step t(2,3) by force
  qed
qed

interpretation io: resource_owner io_inv io_held "\<lambda>s. freed_in (io_log s)"
    "io_try_release (logged ops)" for ops :: "('b, 'e) frame_backend"
proof
  fix s t :: "('b \<times> 'e frame_event list) incomplete_frame_owner" and e
  assume "io_inv s"
  note outcome = io_release_outcome [OF this, of ops]
  show "io_try_release (logged ops) s = Ok t \<Longrightarrow>
      io_inv t \<and> io_held t = [] \<and> freed_in (io_log t) = freed_in (io_log s) @ rev (io_held s)"
    and "io_try_release (logged ops) s = Err (t, e) \<Longrightarrow>
      io_inv t \<and> io_held t \<noteq> [] \<and> (\<exists>rest. io_held s = io_held t @ rest
        \<and> freed_in (io_log t) = freed_in (io_log s) @ rev rest)"
    and "io_try_release (logged ops) s \<noteq> Panic"
    using outcome by auto
qed

lemma fo_release_outcome:
  assumes "fo_inv s" and "fo_owned s"
  shows "(\<exists>t. fo_release_loop (logged ops) s = Ok t \<and> fo_inv t \<and> fo_len t = 0
        \<and> fo_log t = fo_log s @ map Freed (rev (fo_held s)))
    \<or> (\<exists>t e rest. fo_release_loop (logged ops) s = Err (t, e) \<and> fo_inv t \<and> fo_held t \<noteq> []
        \<and> fo_held s = fo_held t @ rest \<and> foe_remaining_frames e = length (fo_held t)
        \<and> fo_log t = fo_log s @ map Freed (rev rest) @ [FreeFailed (last (fo_held t)) (foe_source e)])"
  using assms
proof (induction "fo_len s" arbitrary: s)
  case 0
  then show ?case by (subst fo_release_loop.simps) (simp add: fo_held_def fo_live_frames_def)
next
  case (Suc n)
  obtain b log where b: "fo_backend s = (b, log)" by (cases "fo_backend s")
  let ?a = "pf_address (fo_frames s ! n)"
  have n: "fo_len s = Suc n" "n < length (fo_frames s)"
    using Suc.hyps(2) Suc.prems(1) by (auto simp: fo_inv_def)
  have held: "fo_held s = map pf_address (take n (fo_frames s)) @ [?a]"
    using n Suc.prems(2) by (simp add: fo_held_def fo_live_frames_def take_Suc_conv_app_nth)
  show ?case
  proof (cases rule: logged_free [of ops b ?a log])
    case (refused b' e)
    let ?t = "s\<lparr>fo_backend := (b', log @ [FreeFailed ?a e])\<rparr>"
    have "fo_release_loop (logged ops) s
        = Err (?t, \<lparr>foe_source = e, foe_remaining_frames = fo_len s\<rparr>)"
      using n b refused Suc.prems(2) by (subst fo_release_loop.simps) simp
    moreover have "fo_inv ?t" "fo_held ?t = fo_held s" "fo_log ?t = fo_log s @ [FreeFailed ?a e]"
      using Suc.prems b by (simp_all add: fo_inv_def fo_held_def fo_live_frames_def)
    ultimately show ?thesis using held n by auto
  next
    case (accepted b')
    let ?t = "s\<lparr>fo_backend := (b', log @ [Freed ?a]), fo_len := n\<rparr>"
    have step: "fo_release_loop (logged ops) s = fo_release_loop (logged ops) ?t"
      using n b accepted Suc.prems(2) by (subst fo_release_loop.simps) simp
    have t: "fo_inv ?t" "fo_owned ?t" "fo_held s = fo_held ?t @ [?a]" "fo_log ?t = fo_log s @ [Freed ?a]"
      using n b held Suc.prems by (simp_all add: fo_inv_def fo_held_def fo_live_frames_def)
    show ?thesis using Suc.hyps(1) [of ?t] t(1,2) unfolding step t(3,4) by force
  qed
qed

lemma fo_release_unowned [simp]: "\<not> fo_owned s \<Longrightarrow> fo_release_loop ops s = Ok s"
  by (subst fo_release_loop.simps) simp

interpretation fo: resource_owner fo_inv fo_held "\<lambda>s. freed_in (fo_log s)"
    "fo_try_release (logged ops)" for ops :: "('b, 'e) frame_backend"
proof
  fix s t :: "('b \<times> 'e frame_event list) page_table_frame_owner" and e
  assume inv: "fo_inv s"
  note outcome = fo_release_outcome [OF inv, of ops]
  show "fo_try_release (logged ops) s = Ok t \<Longrightarrow>
      fo_inv t \<and> fo_held t = [] \<and> freed_in (fo_log t) = freed_in (fo_log s) @ rev (fo_held s)"
    using outcome inv
    by (cases "fo_owned s") (auto simp: fo_try_release_def fo_inv_def fo_held_def)
  show "fo_try_release (logged ops) s = Err (t, e) \<Longrightarrow>
      fo_inv t \<and> fo_held t \<noteq> [] \<and> (\<exists>rest. fo_held s = fo_held t @ rest
        \<and> freed_in (fo_log t) = freed_in (fo_log s) @ rev rest)"
    using outcome
    by (cases "fo_owned s") (auto simp: fo_try_release_def)
  show "fo_try_release (logged ops) s \<noteq> Panic"
    using outcome
    by (cases "fo_owned s") (auto simp: fo_try_release_def)
qed

section \<open>Dropping\<close>

fun free_target :: "'e frame_event \<Rightarrow> u64 option" where
  "free_target (Freed a) = Some a"
| "free_target (FreeFailed a e) = Some a"
| "free_target _ = None"

lemma logged_free_event:
  obtains b' ev where "fst (free_frame (logged ops) (b, log) a) = (b', log @ [ev])" "free_target ev = Some a"
  by (cases rule: logged_free [of ops b a log]) (use that in fastforce)+

lemma io_drop_outcome:
  assumes "io_inv s"
  shows "\<exists>t ev. io_drop (logged ops) s = (Ok t :: (_, 'x) result) \<and> io_len t = 0 \<and> io_log t = io_log s @ ev
    \<and> map free_target ev = map Some (rev (io_held s))"
  using assms
proof (induction "io_len s" arbitrary: s)
  case 0
  then show ?case by (subst io_drop.simps) (simp add: io_held_def)
next
  case (Suc n)
  obtain b log where b: "io_backend s = Some (b, log)" and le: "io_len s \<le> length (io_frames s)"
    using Suc.prems by (cases "io_backend s") (auto simp: io_inv_def)
  let ?a = "io_frames s ! n"
  obtain b' e where e: "fst (free_frame (logged ops) (b, log) ?a) = (b', log @ [e])" "free_target e = Some ?a"
    by (rule logged_free_event)
  let ?t = "s\<lparr>io_backend := Some (b', log @ [e]), io_len := n\<rparr>"
  have n: "io_len s = Suc n" "n < length (io_frames s)" using Suc.hyps(2) le by auto
  have step: "io_drop (logged ops) s = io_drop (logged ops) ?t"
    using n b e(1) by (subst io_drop.simps) simp
  have t: "io_inv ?t" "io_held s = io_held ?t @ [?a]" "io_log ?t = io_log s @ [e]"
    using n b by (simp_all add: io_inv_def io_held_def io_log_def take_Suc_conv_app_nth)
  obtain t ev where ih: "io_drop (logged ops) ?t = (Ok t :: (_, 'x) result)" "io_len t = 0" "io_log t = io_log ?t @ ev"
      "map free_target ev = map Some (rev (io_held ?t))"
    using Suc.hyps(1) [of ?t] t by auto
  show ?case using ih t e(2) by (intro exI [of _ t] exI [of _ "e # ev"]) (simp add: step)
qed

lemma fo_drop_loop_outcome:
  assumes "fo_inv s" "fo_owned s"
  shows "\<exists>t ev. fo_drop_loop (logged ops) s = (Ok t :: (_, 'x) result) \<and> fo_len t = 0 \<and> fo_log t = fo_log s @ ev
    \<and> map free_target ev = map Some (rev (fo_held s))"
  using assms
proof (induction "fo_len s" arbitrary: s)
  case 0
  then show ?case by (subst fo_drop_loop.simps) (simp add: fo_held_def fo_live_frames_def)
next
  case (Suc n)
  obtain b log where b: "fo_backend s = (b, log)" by (cases "fo_backend s")
  let ?a = "pf_address (fo_frames s ! n)"
  obtain b' e where e: "fst (free_frame (logged ops) (b, log) ?a) = (b', log @ [e])" "free_target e = Some ?a"
    by (rule logged_free_event)
  let ?t = "s\<lparr>fo_backend := (b', log @ [e]), fo_len := n\<rparr>"
  have n: "fo_len s = Suc n" "n < length (fo_frames s)"
    using Suc.hyps(2) Suc.prems(1) by (auto simp: fo_inv_def)
  have step: "fo_drop_loop (logged ops) s = fo_drop_loop (logged ops) ?t"
    using n b e(1) by (subst fo_drop_loop.simps) simp
  have t: "fo_inv ?t" "fo_owned ?t" "fo_held s = fo_held ?t @ [?a]" "fo_log ?t = fo_log s @ [e]"
    using n b Suc.prems by (simp_all add: fo_inv_def fo_held_def fo_live_frames_def take_Suc_conv_app_nth)
  obtain t ev where ih: "fo_drop_loop (logged ops) ?t = (Ok t :: (_, 'x) result)" "fo_len t = 0" "fo_log t = fo_log ?t @ ev"
      "map free_target ev = map Some (rev (fo_held ?t))"
    using Suc.hyps(1) [of ?t] t by auto
  show ?case using ih t e(2) by (intro exI [of _ t] exI [of _ "e # ev"]) (simp add: step)
qed

section \<open>Acquiring\<close>

lemma allocated_in_map [simp]: "allocated_in (map Freed xs) = []"
  by (induction xs) auto

text \<open>Every frame acquired so far is a valid frame, different from the others, and zeroed.\<close>

definition acquired ::
    "nat \<Rightarrow> nat \<Rightarrow> ('b \<times> 'e frame_event list) incomplete_frame_owner \<Rightarrow> bool" where
  "acquired capacity n p \<longleftrightarrow> io_inv p \<and> io_len p = n \<and> length (io_frames p) = capacity
     \<and> distinct (io_held p) \<and> (\<forall>a \<in> set (io_held p). is_ok (PhysicalFrame_new a))
     \<and> io_log p = concat (map (\<lambda>a. [Allocated a, Zeroed a]) (io_held p))"

lemma acquired_log:
  "allocated_in (concat (map (\<lambda>a. [Allocated a, Zeroed a]) xs)) = xs"
  "freed_in (concat (map (\<lambda>a. [Allocated a, Zeroed a]) xs)) = []"
  by (induction xs) auto

text \<open>
  What a failed acquisition leaves behind: of the frames the backend handed out, a final part was
  freed, in reverse order; the others are still in the owner. A frame that was handed out twice
  is owned once.
\<close>

definition rolled_back :: "('b \<times> 'e frame_event list, 'e) frame_owner_build_error \<Rightarrow> bool" where
  "rolled_back err \<longleftrightarrow> io_inv (be_owner err) \<and>
     (\<exists>rest. freed_in (io_log (be_owner err)) = rev rest
       \<and> allocated_in (io_log (be_owner err)) = io_held (be_owner err) @ rest
           @ (case be_cause err of
                DuplicateFrame slot earlier \<Rightarrow> [(io_held (be_owner err) @ rest) ! fs_as_index earlier]
              | _ \<Rightarrow> []))"

lemma acquisition_error_outcome:
  assumes "io_inv p"
  obtains owner rest where
    "acquisition_error (logged ops) p cause = Err \<lparr>be_cause = cause, be_owner = owner\<rparr>" "io_inv owner"
    "io_held p = io_held owner @ rest" "freed_in (io_log owner) = freed_in (io_log p) @ rev rest"
    "allocated_in (io_log owner) = allocated_in (io_log p)"
  using io_release_outcome [OF assms, of ops]
proof (elim disjE exE conjE)
  fix t assume "io_try_release (logged ops) p = Ok t" "io_inv t" "io_held t = []"
    "io_log t = io_log p @ map Freed (rev (io_held p))"
  then show thesis using that [of t "io_held p"] by (simp add: acquisition_error_def)
next
  fix t e rest assume "io_try_release (logged ops) p = Err (t, e)" "io_inv t" "io_held p = io_held t @ rest"
    "io_log t = io_log p @ map Freed (rev rest) @ [FreeFailed (last (io_held t)) (foe_source e)]"
  then show thesis using that [of t rest] by (simp add: acquisition_error_def)
qed

lemma logged_allocate:
  obtains (failed) b' e where "allocate_frame (logged ops) (b, log) = ((b', log @ [AllocationFailed e]), Inl e)"
  | (ok) b' a where "allocate_frame (logged ops) (b, log) = ((b', log @ [Allocated a]), Inr a)"
  by (cases "allocate_frame ops b"; cases "snd (allocate_frame ops b)") (auto simp: logged_def)

lemma logged_zero:
  obtains (failed) b' e where
      "zero_frame (logged ops) (b, log) f = ((b', log @ [ZeroFailed (pf_address f) e]), Inl e)"
  | (ok) b' where "zero_frame (logged ops) (b, log) f = ((b', log @ [Zeroed (pf_address f)]), Inr ())"
  by (cases "zero_frame ops b f"; cases "snd (zero_frame ops b f)") (auto simp: logged_def)

lemma rolled_backI:
  assumes "io_inv p" and "freed_in (io_log p) = []"
    and "allocated_in (io_log p) = io_held p @ (case cause of
           DuplicateFrame slot earlier \<Rightarrow> [io_held p ! fs_as_index earlier] | _ \<Rightarrow> [])"
  shows "\<exists>err. acquisition_error (logged ops) p cause = Err err \<and> rolled_back err"
  by (rule acquisition_error_outcome [OF assms(1), of ops cause])
    (use assms in \<open>auto simp: rolled_back_def split: frame_owner_cause.splits\<close>)

lemma push_acquired:
  assumes "acquired capacity n p" and "n < capacity"
  shows "io_push (p\<lparr>io_backend := Some x\<rparr>) a
    = Ok (p\<lparr>io_frames := (io_frames p)[n := a], io_len := Suc n, io_backend := Some x\<rparr>)"
    and "io_inv (p\<lparr>io_frames := (io_frames p)[n := a], io_len := Suc n, io_backend := Some x\<rparr>)"
    and "io_held (p\<lparr>io_frames := (io_frames p)[n := a], io_len := Suc n, io_backend := Some x\<rparr>)
      = io_held p @ [a]"
  using assms
  by (cases p; simp add: acquired_def io_push_def io_inv_def io_held_def take_Suc_conv_app_nth)+

lemma acquired_slice:
  "acquired capacity n p \<Longrightarrow> slice (io_frames p) 0 (io_len p) = Ok (io_held p)"
  by (simp add: acquired_def io_inv_def io_held_def)

lemma acquired_counts:
  assumes "acquired capacity n p" and "io_backend p = Some (b, log)"
  shows "allocated_in log = io_held p" "freed_in log = []" "length (io_held p) = n"
  using assms acquired_log [of "io_held p"] by (auto simp: acquired_def io_log_def io_inv_def io_held_def)

lemma acquire_new_frame:
  assumes p: "acquired capacity n p" "n < capacity" and s: "FrameSlot_from_index n = Ok s"
    and b: "io_backend p = Some (b, log)"
    and ok: "allocate_frame (logged ops) (b, log) = ((b', log @ [Allocated a]), Inr a)"
    and new: "a \<notin> set (io_held p)"
  shows "(\<exists>t. acquire_frame (logged ops) p n = Ok t \<and> acquired capacity (Suc n) t)
    \<or> (\<exists>err. acquire_frame (logged ops) p n = Err err \<and> rolled_back err)"
proof -
  let ?q = "\<lambda>x. p\<lparr>io_frames := (io_frames p)[n := a], io_len := Suc n, io_backend := Some x\<rparr>"
  note q = push_acquired [OF p, where a = a] and log = acquired_counts [OF p(1) b]
  have none: "position (\<lambda>c. c = a) (io_held p) = None" using new by (auto simp: position_None)
  have q_log: "io_log (?q (b', l)) = l" for b' l by (simp add: io_log_def)
  show ?thesis
  proof (cases "PhysicalFrame_new a")
    case (Ok frame)
    then have f: "pf_address frame = a" using pf_new.mk_ok by blast
    show ?thesis
    proof (cases rule: logged_zero [of ops b' "log @ [Allocated a]" frame])
      case (failed b'' e)
      then have "acquire_frame (logged ops) p n = acquisition_error (logged ops)
          (?q (b'', log @ [Allocated a, ZeroFailed a e])) (Zeroing s e)"
        using s b ok none Ok f by (simp add: acquire_frame_def acquired_slice [OF p(1)] q(1))
      then show ?thesis using rolled_backI [OF q(2)] q(3) q_log log by simp
    next
      case (ok b'')
      then have "acquire_frame (logged ops) p n = Ok (?q (b'', log @ [Allocated a, Zeroed a]))"
        using s b assms(5) none Ok f by (simp add: acquire_frame_def acquired_slice [OF p(1)] q(1))
      moreover have "acquired capacity (Suc n) (?q (b'', log @ [Allocated a, Zeroed a]))"
        using p b new Ok q(2,3) q_log by (simp add: acquired_def io_log_def)
      ultimately show ?thesis by blast
    qed
  next
    case (Err e)
    then have "acquire_frame (logged ops) p n
        = acquisition_error (logged ops) (?q (b', log @ [Allocated a])) (InvalidFrame s e)"
      using s b ok none by (simp add: acquire_frame_def acquired_slice [OF p(1)] q(1))
    then show ?thesis using rolled_backI [OF q(2)] q(3) q_log log by simp
  qed (use pf_new.mk_no_panic in blast)
qed

lemma acquire_outcome:
  assumes p: "acquired capacity n p" "n < capacity" and n: "n < 2 ^ 32"
  shows "(\<exists>t. acquire_frame (logged ops) p n = Ok t \<and> acquired capacity (Suc n) t)
    \<or> (\<exists>err. acquire_frame (logged ops) p n = Err err \<and> rolled_back err)"
proof -
  obtain b log where b: "io_backend p = Some (b, log)"
    using p by (cases "io_backend p") (auto simp: acquired_def io_inv_def)
  note log = acquired_counts [OF p(1) b]
  have slot: "\<exists>s. FrameSlot_from_index i = Ok s \<and> fs_as_index s = i" if "i < 2 ^ 32" for i
    using fs_new.mk_valid [OF that] fs_new.mk_ok by blast
  obtain s where s: "FrameSlot_from_index n = Ok s" using slot n by blast
  have inv: "io_inv (p\<lparr>io_backend := Some x\<rparr>)" "io_held (p\<lparr>io_backend := Some x\<rparr>) = io_held p"
    "io_log (p\<lparr>io_backend := Some (b', l)\<rparr>) = l" for x b' l
    using p by (simp_all add: acquired_def io_inv_def io_held_def io_log_def)
  show ?thesis
  proof (cases rule: logged_allocate [of ops b log])
    case (failed b' e)
    let ?p = "p\<lparr>io_backend := Some (b', log @ [AllocationFailed e])\<rparr>"
    have "acquire_frame (logged ops) p n = acquisition_error (logged ops) ?p (Allocation s e)"
      using s b failed by (simp add: acquire_frame_def)
    then show ?thesis using rolled_backI [of ?p "Allocation s e"] inv log by simp
  next
    case (ok b' a)
    show ?thesis
    proof (cases "position (\<lambda>c. c = a) (io_held p)")
      case None
      then show ?thesis using acquire_new_frame [OF p s b ok] by (auto simp: position_None)
    next
      case (Some earlier)
      let ?p = "p\<lparr>io_backend := Some (b', log @ [Allocated a])\<rparr>"
      have e: "earlier < length (io_held p)" "io_held p ! earlier = a" using Some by (simp_all add: position_Some)
      then obtain es where es: "FrameSlot_from_index earlier = Ok es" "fs_as_index es = earlier"
        using slot [of earlier] log(3) n by auto
      have "acquire_frame (logged ops) p n = acquisition_error (logged ops) ?p (DuplicateFrame s es)"
        using s b ok Some es by (simp add: acquire_frame_def acquired_slice [OF p(1)])
      then show ?thesis using rolled_backI [of ?p "DuplicateFrame s es"] inv log es e by simp
    qed
  qed
qed

lemma acquire_loop:
  assumes "n \<le> capacity" "n \<le> 2 ^ 32" "acquired capacity 0 p"
  shows "(\<exists>t. try_fold (acquire_frame (logged ops)) p [0 ..< n] = Ok t \<and> acquired capacity n t)
    \<or> (\<exists>err. try_fold (acquire_frame (logged ops)) p [0 ..< n] = Err err \<and> rolled_back err)"
  using assms
proof (induction n)
  case (Suc n)
  then consider t where "try_fold (acquire_frame (logged ops)) p [0 ..< n] = Ok t" "acquired capacity n t"
    | err where "try_fold (acquire_frame (logged ops)) p [0 ..< n] = Err err" "rolled_back err"
    by auto
  then show ?case
  proof cases
    case (1 t)
    then show ?thesis using acquire_outcome [of capacity n t ops] Suc.prems
      by (auto simp: try_fold_append)
  qed (auto simp: try_fold_append)
qed simp

lemma acquired_new: "acquired capacity 0 (IncompleteFrameOwner_new capacity (b, []))"
  by (simp add: acquired_def IncompleteFrameOwner_new_def io_inv_def io_held_def io_log_def)

lemma validate_loop:
  assumes "\<forall>a \<in> set as. PhysicalFrame_new a = Ok (PhysicalFrame a)"
  shows "try_fold (\<lambda>frames (i, address).
      and_then (unwrap (PhysicalFrame_new address)) (\<lambda>frame. arr_set frames i frame))
      (xs @ replicate m PhysicalFrame_EMPTY) (zip [length xs ..< length xs + m] as)
    = Ok (xs @ map PhysicalFrame (take m as) @ replicate (m - length as) PhysicalFrame_EMPTY)"
  using assms
proof (induction m arbitrary: xs as)
  case (Suc m)
  show ?case
  proof (cases as)
    case (Cons a as')
    have "[length xs ..< length xs + Suc m] = length xs # [length (xs @ [PhysicalFrame a]) ..< length (xs @ [PhysicalFrame a]) + m]"
      by (simp add: upt_conv_Cons del: upt_Suc)
    then show ?thesis using Suc.IH [of as' "xs @ [PhysicalFrame a]"] Suc.prems Cons
      by (simp add: list_update_append del: upt_Suc)
  qed simp
qed simp

lemma valid_frame: "is_ok (PhysicalFrame_new a) \<Longrightarrow> PhysicalFrame_new a = Ok (PhysicalFrame a)"
  using pf_new.mk_ok [of a] by (cases "PhysicalFrame_new a") (auto simp: physical_frame.expand)

lemma allocate_outcome:
  fixes ops :: "('b, 'e) frame_backend"
  assumes tables: "cp_tables plan \<noteq> []" "length (cp_tables plan) \<le> 2 ^ 32"
    and room: "length (cp_tables plan) \<le> capacity"
  obtains (acquired) p where "acquired capacity (length (cp_tables plan)) p"
    "PageTableFrameOwner_allocate capacity (logged ops) plan (b, []) =
       Ok \<lparr>fo_backend = the (io_backend p),
           fo_frames = map PhysicalFrame (io_held p) @ replicate (capacity - io_len p) PhysicalFrame_EMPTY,
           fo_len = io_len p, fo_root = PhysicalFrame (hd (io_held p)), fo_owned = True\<rparr>"
  | (failed) err where
      "PageTableFrameOwner_allocate capacity (logged ops) plan (b, []) = Err err" "rolled_back err"
  using acquire_loop [OF room tables(2) acquired_new, of ops b]
proof (elim disjE exE conjE)
  fix p assume loop: "try_fold (acquire_frame (logged ops))
      (IncompleteFrameOwner_new capacity (b, [])) [0 ..< length (cp_tables plan)] = Ok p"
    and p: "acquired capacity (length (cp_tables plan)) p"
  have len: "length (io_held p) = io_len p" "io_len p \<le> capacity" "io_held p \<noteq> []" "0 < io_len p"
    using p room tables(1) by (auto simp: acquired_def io_inv_def io_held_def)
  have "\<forall>a \<in> set (io_held p). PhysicalFrame_new a = Ok (PhysicalFrame a)"
    using p valid_frame by (auto simp: acquired_def)
  note frames = validate_loop [OF this, of "[]" capacity, simplified]
  obtain x where "io_backend p = Some x" using p by (auto simp: acquired_def io_inv_def)
  then show thesis
    using that(1) [OF p] loop room len
    by (simp add: PageTableFrameOwner_allocate_def acquired_slice [OF p] frames const_defs
        fs_as_index_def arr_get_def nth_append hd_conv_nth)
next
  fix err assume "try_fold (acquire_frame (logged ops))
      (IncompleteFrameOwner_new capacity (b, [])) [0 ..< length (cp_tables plan)] = Err err" "rolled_back err"
  then show thesis using that(2) room by (simp add: PageTableFrameOwner_allocate_def)
qed


text \<open>The owner that a successful acquisition returns.\<close>

definition owns_all :: "construction_plan \<Rightarrow> ('b \<times> 'e frame_event list) page_table_frame_owner \<Rightarrow> bool" where
  "owns_all plan owner \<longleftrightarrow> fo_owned owner \<and> fo_len owner = length (cp_tables plan)
     \<and> length (fo_live_frames owner) = length (cp_tables plan) \<and> distinct (fo_live_frames owner)
     \<and> (\<forall>frame \<in> set (fo_live_frames owner). PhysicalFrame_new (pf_address frame) = Ok frame)
     \<and> fo_root owner = fo_live_frames owner ! 0
     \<and> fo_log owner =
         concat (map (\<lambda>f. [Allocated (pf_address f), Zeroed (pf_address f)]) (fo_live_frames owner))"

lemma allocate_owns_all:
  fixes ops :: "('b, 'e) frame_backend"
  assumes "cp_tables plan \<noteq> []" and "length (cp_tables plan) \<le> 2 ^ 32"
    and room: "length (cp_tables plan) \<le> capacity"
  shows "(\<exists>owner. PageTableFrameOwner_allocate capacity (logged ops) plan (b, []) = Ok owner \<and> owns_all plan owner)
    \<or> (\<exists>err. PageTableFrameOwner_allocate capacity (logged ops) plan (b, []) = Err err \<and> rolled_back err)"
proof (rule allocate_outcome [OF assms, of ops b])
  fix p :: "('b \<times> 'e frame_event list) incomplete_frame_owner"
  let ?o = "\<lparr>fo_backend = the (io_backend p),
           fo_frames = map PhysicalFrame (io_held p) @ replicate (capacity - io_len p) PhysicalFrame_EMPTY,
           fo_len = io_len p, fo_root = PhysicalFrame (hd (io_held p)), fo_owned = True\<rparr>"
  assume p: "acquired capacity (length (cp_tables plan)) p"
    and ok: "PageTableFrameOwner_allocate capacity (logged ops) plan (b, []) = Ok ?o"
  have len: "length (io_held p) = io_len p" "io_len p = length (cp_tables plan)" "io_held p \<noteq> []"
    using p room assms(1) by (auto simp: acquired_def io_inv_def io_held_def)
  have live: "fo_live_frames ?o = map PhysicalFrame (io_held p)" using len by (simp add: fo_live_frames_def)
  have log: "snd (the (io_backend p)) = concat (map (\<lambda>a. [Allocated a, Zeroed a]) (io_held p))"
    using p by (auto simp: acquired_def io_inv_def io_log_def)
  have "distinct (io_held p)" "\<forall>a \<in> set (io_held p). PhysicalFrame_new a = Ok (PhysicalFrame a)"
    using p valid_frame by (auto simp: acquired_def)
  then have "owns_all plan ?o" unfolding owns_all_def live using len log assms(1)
    by (simp add: distinct_map inj_on_def hd_conv_nth o_def)
  then show ?thesis using ok by blast
qed simp

lemma owns_all_held:
  assumes "owns_all plan owner"
  shows "fo_inv owner" "fo_held owner = map pf_address (fo_live_frames owner)" "distinct (fo_held owner)"
    "freed_in (fo_log owner) = []"
proof -
  have "inj_on pf_address A" for A by (auto simp: inj_on_def physical_frame.expand)
  then show "fo_inv owner" "fo_held owner = map pf_address (fo_live_frames owner)" "distinct (fo_held owner)"
    using assms by (auto simp: owns_all_def fo_inv_def fo_held_def fo_live_frames_def distinct_map)
  show "freed_in (fo_log owner) = []"
    using assms acquired_log(2) [of "map pf_address (fo_live_frames owner)"]
    by (simp add: owns_all_def o_def)
qed

lemma fo_drop_outcome:
  assumes "fo_inv s"
  shows "\<exists>t ev. fo_drop (logged ops) s = (Ok t :: (_, 'x) result) \<and> fo_held t = [] \<and> fo_log t = fo_log s @ ev
    \<and> map free_target ev = map Some (rev (fo_held s))"
proof (cases "fo_owned s")
  case True
  from fo_drop_loop_outcome [OF assms this, of ops] show ?thesis
    using True by (force simp: fo_drop_def fo_held_def)
qed (auto simp: fo_drop_def fo_held_def)

text \<open>A backend that hands out the addresses of a list and takes every frame back.\<close>

definition pool_backend :: "(u64 list, nat) frame_backend" where
  "pool_backend =
     \<lparr>allocate_frame = (\<lambda>pool. case pool of [] \<Rightarrow> ([], Inl 0) | a # as \<Rightarrow> (as, Inr a)),
      zero_frame = (\<lambda>pool _. (pool, Inr ())), free_frame = (\<lambda>pool a. (a # pool, Inr ()))\<rparr>"

definition two_table_plan :: construction_plan where
  "two_table_plan = \<lparr>cp_mode = Final,
     cp_tables =
       [\<lparr>pt_level = Pml4, pt_frame_slot = FrameSlot 0, pt_parent_slot = FrameSlot_NONE, pt_parent_index = TableIndex 0\<rparr>,
        \<lparr>pt_level = Pdpt, pt_frame_slot = FrameSlot 1, pt_parent_slot = FrameSlot 0, pt_parent_index = TableIndex 0\<rparr>],
     cp_tables_capacity = 2, cp_entries = [], cp_entries_capacity = 0, cp_removals = [],
     cp_removals_capacity = 0\<rparr>"

definition sample_owner :: "(u64 list \<times> nat frame_event list) page_table_frame_owner" where
  "sample_owner = \<lparr>fo_backend = ([], [Allocated 0x5000, Zeroed 0x5000, Allocated 0x3000, Zeroed 0x3000]),
     fo_frames = [PhysicalFrame 0x5000, PhysicalFrame 0x3000, PhysicalFrame_EMPTY], fo_len = 2,
     fo_root = PhysicalFrame 0x5000, fo_owned = True\<rparr>"

lemma sample_acquisition:
  "PageTableFrameOwner_allocate 3 (logged pool_backend) two_table_plan ([0x5000, 0x3000], []) = Ok sample_owner"
proof -
  have v: "PhysicalFrame_new 0x5000 = Ok (PhysicalFrame 0x5000)" "PhysicalFrame_new 0x3000 = Ok (PhysicalFrame 0x3000)"
    by (simp_all add: PhysicalFrame_new_def PhysicalAddress_new_def const_defs word_nat)
  have u: "[0 ..< 3] = [0, 1, 2 :: nat]" "[0 ..< 2] = [0, 1 :: nat]" by (simp_all add: numeral_3_eq_3 numeral_2_eq_2)
  have r: "replicate 3 x = [x, x, x]" for x :: 'a by (simp add: numeral_3_eq_3)
  show ?thesis
    by (simp add: PageTableFrameOwner_allocate_def two_table_plan_def acquire_frame_def
        IncompleteFrameOwner_new_def FrameSlot_from_index_def logged_def pool_backend_def slice_def
        io_push_def arr_set_def arr_get_def u r v sample_owner_def const_defs fs_as_index_def)
qed

section \<open>Properties\<close>

text \<open>
  C23. Frame acquisition is all or nothing, for every backend. On success the owner holds exactly
  one frame per planned table: valid, pairwise different, each allocated and zeroed once and in
  order, the first one the root. On failure the frames handed out were freed in reverse order
  down to the first one the backend refused to take back, which stays in the reported owner with
  those below it; a frame handed out twice is owned once. It never panics.
\<close>
theorem frame_acquisition:
  assumes "cp_tables plan \<noteq> []" and "length (cp_tables plan) \<le> 2 ^ 32"
  shows "case PageTableFrameOwner_allocate capacity (logged ops) plan (b, []) of
      Ok owner \<Rightarrow> owns_all plan owner
    | Err err \<Rightarrow> if capacity < length (cp_tables plan)
        then be_cause err = PlannedFrameCountExceedsCapacity \<and> io_log (be_owner err) = []
        else rolled_back err
    | Panic \<Rightarrow> False"
  using allocate_owns_all [OF assms, of capacity ops b]
  by (cases "length (cp_tables plan) \<le> capacity")
    (auto simp: PageTableFrameOwner_allocate_def IncompleteFrameOwner_new_def io_log_def)

theorem frame_acquisition_witness:
  "owns_all two_table_plan sample_owner"
  using frame_acquisition [of two_table_plan 3 pool_backend "[0x5000, 0x3000]"] sample_acquisition
  by (simp add: two_table_plan_def)

text \<open>
  C24. No frame is freed twice and none is lost: however often a release of an acquired hierarchy
  is tried, the frames the backend accepted back are pairwise different, none of them is still
  held, and together with the held ones they are all the acquired frames. Dropping the owner then
  makes exactly one attempt per held frame, in reverse order, and transferring it makes none and
  passes all its frames on.
\<close>
theorem frames_freed_once:
  assumes "PageTableFrameOwner_allocate capacity (logged ops) plan (b, []) = Ok owner"
    and "cp_tables plan \<noteq> []" and "length (cp_tables plan) \<le> 2 ^ 32"
    and "calls (fo_try_release (logged ops)) owner t"
  shows "(distinct (freed_in (fo_log t)) \<and> set (freed_in (fo_log t)) \<inter> set (fo_held t) = {}
      \<and> set (freed_in (fo_log t)) \<union> set (fo_held t) = pf_address ` set (fo_live_frames owner))
    \<and> (\<exists>d ev. fo_drop (logged ops) t = (Ok d :: (_, unit) result) \<and> fo_held d = []
      \<and> fo_log d = fo_log t @ ev \<and> map free_target ev = map Some (rev (fo_held t)))
    \<and> (\<exists>d. fo_transfer (logged ops) t
        = (Ok (\<lparr>tf_frames = fo_frames t, tf_len = fo_len t, tf_root = fo_root t\<rparr>, d) :: (_, unit) result)
      \<and> fo_log d = fo_log t)"
proof -
  have "length (cp_tables plan) \<le> capacity"
    using assms(1) by (auto simp: PageTableFrameOwner_allocate_def Let_def split: if_splits)
  then have "owns_all plan owner"
    using allocate_owns_all [OF assms(2,3), of capacity ops b] assms(1) by auto
  note owner = owns_all_held [OF this]
  note once = fo.freed_once [OF assms(4) owner(1,4,3)]
  have "fo_inv t" using fo.retries [OF assms(4) owner(1)] by blast
  then show ?thesis using once fo_drop_outcome [of t ops] owner(2)
    by (simp add: fo_transfer_def fo_drop_def)
qed


theorem frames_freed_once_witness:
  "\<exists>t. fo_try_release (logged pool_backend) sample_owner = Ok t
    \<and> distinct (freed_in (fo_log t)) \<and> set (freed_in (fo_log t)) \<union> set (fo_held t) = {0x5000, 0x3000}"
proof (cases "fo_try_release (logged pool_backend) sample_owner")
  case (Ok t)
  then have "calls (fo_try_release (logged pool_backend)) sample_owner t"
    by (rule calls_ok [OF calls_none])
  from frames_freed_once [OF sample_acquisition _ _ this] Ok show ?thesis
    by (auto simp: two_table_plan_def sample_owner_def fo_live_frames_def)
qed (simp_all add: fo_try_release_def fo_release_loop.simps sample_owner_def logged_def pool_backend_def arr_get_def)

end
