(* ===== verification/Cpu_Policy.thy ===== *)
theory Cpu_Policy
  imports Page_Table
begin

text \<open>
  Validation of a read-only snapshot of the CPU (\<^verbatim>\<open>crates/memory-layout/src/cpu.rs\<close>): which
  processors and control-register states are accepted, and when a verified page-table hierarchy
  may be activated on one. The probe that captures the snapshot
  (\<^verbatim>\<open>crates/bootloader/src/cpu_probe.rs\<close>) runs over a machine whose instructions are a parameter.
\<close>

section \<open>Constants and data\<close>

definition MIN_PHYSICAL_ADDRESS_BITS :: u8 where [const_defs]: "MIN_PHYSICAL_ADDRESS_BITS = 36"
definition MAX_PHYSICAL_ADDRESS_BITS :: u8 where [const_defs]: "MAX_PHYSICAL_ADDRESS_BITS = 52"
definition FOUR_LEVEL_LINEAR_ADDRESS_BITS :: u8 where [const_defs]: "FOUR_LEVEL_LINEAR_ADDRESS_BITS = 48"
definition FIVE_LEVEL_LINEAR_ADDRESS_BITS :: u8 where [const_defs]: "FIVE_LEVEL_LINEAR_ADDRESS_BITS = 57"

definition CPUID_MSR :: u32 where "CPUID_MSR = push_bit 5 1"
definition CPUID_PAE :: u32 where "CPUID_PAE = push_bit 6 1"
definition CPUID_NX :: u32 where "CPUID_NX = push_bit 20 1"
definition CPUID_LONG_MODE :: u32 where "CPUID_LONG_MODE = push_bit 29 1"
definition CPUID_LA57 :: u32 where "CPUID_LA57 = push_bit 16 1"
definition CR0_WP :: u64 where "CR0_WP = push_bit 16 1"
definition CR0_PG :: u64 where "CR0_PG = push_bit 31 1"
definition CR4_PAE :: u64 where "CR4_PAE = push_bit 5 1"
definition CR4_PGE :: u64 where "CR4_PGE = push_bit 7 1"
definition CR4_LA57 :: u64 where "CR4_LA57 = push_bit 12 1"
definition CR4_PCIDE :: u64 where "CR4_PCIDE = push_bit 17 1"
definition EFER_LME :: u64 where "EFER_LME = push_bit 8 1"
definition EFER_LMA :: u64 where "EFER_LMA = push_bit 10 1"
definition EFER_NXE :: u64 where "EFER_NXE = push_bit 11 1"
definition CR3_PWT_PCD :: u64 where "CR3_PWT_PCD = push_bit 3 1 OR push_bit 4 1"

lemmas cpu_bits = CPUID_MSR_def CPUID_PAE_def CPUID_NX_def CPUID_LONG_MODE_def CPUID_LA57_def
  CR0_WP_def CR0_PG_def CR4_PAE_def CR4_PGE_def CR4_LA57_def CR4_PCIDE_def EFER_LME_def EFER_LMA_def
  EFER_NXE_def CR3_PWT_PCD_def

datatype cpu_capability_error =
    MissingBasicFeatureLeaf | MissingExtendedFeatureLeaf | MissingAddressWidthLeaf
  | LongModeUnsupported | NxUnsupported | MsrUnsupported | PaeUnsupported | PagingInactive
  | LongModeInactive | ContradictoryLongModeState | PaeInactive | ContradictoryLa57State
  | La57Enabled | InvalidPhysicalAddressWidth | InvalidLinearAddressWidth
  | ContradictoryLinearAddressWidth | UnsupportedCr3Encoding | InvalidCurrentCr3Root
  | InvalidProposedRoot | InvalidRequiredPhysicalRange | ArchitecturePhysicalCapExceeded
  | MappedPhysicalRangeUnsupported | OwnedFrameUnsupported | ProposedRootUnsupported
  | InheritedCr3Changed

record raw_cpu_snapshot =
  maximum_basic_leaf :: u32
  maximum_extended_leaf :: u32
  basic_feature_edx :: u32
  structured_feature_ecx :: u32
  extended_feature_edx :: u32
  address_width_eax :: u32
  raw_cr0 :: u64
  raw_cr3 :: u64
  raw_cr4 :: u64
  raw_efer :: u64

datatype hardening_state = HardeningEnabled | MustEnableBeforeActivation

datatype pge_state = PgeDisabled | PgeEnabled

datatype pcid_state = PcidDisabled | EnabledMustRemainUnused

record cr3_state =
  root_address :: u64
  context_or_flags :: u16
  cr3_pcid_state :: pcid_state

datatype cr3_stability_token = Cr3StabilityToken u64

fun token_verify :: "cr3_stability_token \<Rightarrow> u64 \<Rightarrow> (unit, cpu_capability_error) result" where
  "token_verify (Cr3StabilityToken expected) observed_cr3 =
     (if expected = observed_cr3 then Ok () else Err InheritedCr3Changed)"

record validated_cpu_snapshot =
  physical_address_bits :: u8
  reported_linear_address_bits :: u8
  la57_supported :: bool
  current_cr3 :: cr3_state
  vs_nxe :: hardening_state
  vs_write_protect :: hardening_state
  vs_pge :: pge_state
  vs_stability :: cr3_stability_token

record activation_readiness =
  ar_current_cr3 :: cr3_state
  ar_proposed_root :: u64
  ar_nxe :: hardening_state
  ar_write_protect :: hardening_state
  ar_pge :: pge_state
  ar_pcid :: pcid_state
  ar_physical_address_bits :: u8
  ar_effective_linear_address_bits :: u8
  ar_transition_permitted :: u8
  ar_stability :: cr3_stability_token

definition transition_permitted :: "activation_readiness \<Rightarrow> bool" where
  "transition_permitted r \<longleftrightarrow> ar_transition_permitted r = 1"

section \<open>Validation\<close>

text \<open>The CR3 part of \<^verbatim>\<open>validate\<close>, and the record it fills in.\<close>

definition validate_cr3 ::
    "raw_cpu_snapshot \<Rightarrow> u8 \<Rightarrow> (cr3_state, cpu_capability_error) result" where
  "validate_cr3 raw bits =
     (let cpu_physical_end = push_bit (unat bits) (1 :: u64);
          address_mask = (cpu_physical_end - 1) AND NOT (PAGE_SIZE - 1);
          pcid = (raw_cr4 raw AND CR4_PCIDE \<noteq> 0);
          allowed_low = (if pcid then PAGE_SIZE - 1 else CR3_PWT_PCD)
      in if raw_cr3 raw AND NOT (address_mask OR allowed_low) \<noteq> 0 then Err UnsupportedCr3Encoding
         else
           let root = raw_cr3 raw AND address_mask
           in if root = 0 \<or> \<not> is_multiple_of root PAGE_SIZE then Err InvalidCurrentCr3Root
              else Ok \<lparr>root_address = root, context_or_flags = ucast (raw_cr3 raw AND allowed_low),
                cr3_pcid_state = (if pcid then EnabledMustRemainUnused else PcidDisabled)\<rparr>)"

definition cpu_validate ::
    "raw_cpu_snapshot \<Rightarrow> (validated_cpu_snapshot, cpu_capability_error) result" where
  "cpu_validate raw =
     (if maximum_basic_leaf raw < 1 then Err MissingBasicFeatureLeaf
      else if maximum_extended_leaf raw < 0x80000001 then Err MissingExtendedFeatureLeaf
      else if maximum_extended_leaf raw < 0x80000008 then Err MissingAddressWidthLeaf
      else if extended_feature_edx raw AND CPUID_LONG_MODE = 0 then Err LongModeUnsupported
      else if extended_feature_edx raw AND CPUID_NX = 0 then Err NxUnsupported
      else if basic_feature_edx raw AND CPUID_MSR = 0 then Err MsrUnsupported
      else if basic_feature_edx raw AND CPUID_PAE = 0 then Err PaeUnsupported
      else if raw_cr0 raw AND CR0_PG = 0 then Err PagingInactive
      else if raw_efer raw AND EFER_LMA = 0 then Err LongModeInactive
      else if raw_efer raw AND EFER_LME = 0 then Err ContradictoryLongModeState
      else if raw_cr4 raw AND CR4_PAE = 0 then Err PaeInactive
      else
        let la57 = (maximum_basic_leaf raw \<ge> 7 \<and> structured_feature_ecx raw AND CPUID_LA57 \<noteq> 0)
        in if raw_cr4 raw AND CR4_LA57 \<noteq> 0
           then (if \<not> la57 then Err ContradictoryLa57State else Err La57Enabled)
           else
             let physical_bits = ucast (address_width_eax raw AND 0xff) :: u8
             in if \<not> (MIN_PHYSICAL_ADDRESS_BITS \<le> physical_bits \<and> physical_bits \<le> MAX_PHYSICAL_ADDRESS_BITS)
                then Err InvalidPhysicalAddressWidth
                else
                  let linear_bits = ucast (drop_bit 8 (address_width_eax raw) AND 0xff) :: u8
                  in if linear_bits \<noteq> FOUR_LEVEL_LINEAR_ADDRESS_BITS
                        \<and> linear_bits \<noteq> FIVE_LEVEL_LINEAR_ADDRESS_BITS
                     then Err InvalidLinearAddressWidth
                     else if linear_bits = FIVE_LEVEL_LINEAR_ADDRESS_BITS \<and> \<not> la57
                     then Err ContradictoryLinearAddressWidth
                     else
                       and_then (validate_cr3 raw physical_bits) (\<lambda>cr3.
                       Ok \<lparr>physical_address_bits = physical_bits,
                           reported_linear_address_bits = linear_bits,
                           la57_supported = la57,
                           current_cr3 = cr3,
                           vs_nxe = (if raw_efer raw AND EFER_NXE \<noteq> 0 then HardeningEnabled
                                     else MustEnableBeforeActivation),
                           vs_write_protect = (if raw_cr0 raw AND CR0_WP \<noteq> 0 then HardeningEnabled
                                               else MustEnableBeforeActivation),
                           vs_pge = (if raw_cr4 raw AND CR4_PGE \<noteq> 0 then PgeEnabled else PgeDisabled),
                           vs_stability = Cr3StabilityToken (raw_cr3 raw)\<rparr>))"

section \<open>Classification for a hierarchy\<close>

definition check_owned_frame :: "u64 \<Rightarrow> physical_frame \<Rightarrow> (unit, cpu_capability_error) result" where
  "check_owned_frame cpu_end frame =
     and_then (ok_or (checked_add (pf_address frame) PAGE_SIZE) OwnedFrameUnsupported) (\<lambda>limit.
     if limit > cpu_end then Err OwnedFrameUnsupported else Ok ())"

definition classify_for_hierarchy ::
    "validated_cpu_snapshot \<Rightarrow> physical_frame list \<Rightarrow> physical_frame \<Rightarrow> u64
     \<Rightarrow> (activation_readiness, cpu_capability_error) result" where
  "classify_for_hierarchy snapshot owned_frames proposed_root highest_mapped_physical_end =
     (if owned_frames = [] \<or> owned_frames ! 0 \<noteq> proposed_root \<or> pf_address proposed_root = 0
      then Err InvalidProposedRoot
      else if highest_mapped_physical_end = 0 then Err InvalidRequiredPhysicalRange
      else if highest_mapped_physical_end > SUPPORTED_PHYSICAL_END
      then Err ArchitecturePhysicalCapExceeded
      else
        let cpu_end = push_bit (unat (physical_address_bits snapshot)) (1 :: u64)
        in if highest_mapped_physical_end > cpu_end then Err MappedPhysicalRangeUnsupported
           else
             and_then (ok_or (checked_add (pf_address proposed_root) PAGE_SIZE) ProposedRootUnsupported)
               (\<lambda>root_end.
             if root_end > cpu_end then Err ProposedRootUnsupported
             else
               and_then (try_fold (\<lambda>_. check_owned_frame cpu_end) () owned_frames) (\<lambda>_.
               Ok \<lparr>ar_current_cr3 = current_cr3 snapshot,
                   ar_proposed_root = pf_address proposed_root,
                   ar_nxe = vs_nxe snapshot,
                   ar_write_protect = vs_write_protect snapshot,
                   ar_pge = vs_pge snapshot,
                   ar_pcid = cr3_pcid_state (current_cr3 snapshot),
                   ar_physical_address_bits = physical_address_bits snapshot,
                   ar_effective_linear_address_bits = FOUR_LEVEL_LINEAR_ADDRESS_BITS,
                   ar_transition_permitted = 1,
                   ar_stability = vs_stability snapshot\<rparr>)))"

section \<open>The probe\<close>

text \<open>
  The probe of \<^verbatim>\<open>crates/bootloader/src/cpu_probe.rs\<close>. The machine is a parameter: a CPUID leaf or
  a model-specific register that does not exist is \<open>None\<close>, which faults the probe.
\<close>

record cpuid_result =
  cpuid_eax :: u32
  cpuid_ebx :: u32
  cpuid_ecx :: u32
  cpuid_edx :: u32

record cpu_machine =
  cpu_cpuid :: "u32 \<Rightarrow> u32 \<Rightarrow> cpuid_result option"
  cpu_cr0 :: u64
  cpu_cr3 :: u64
  cpu_cr4 :: u64
  cpu_rdmsr :: "u32 \<Rightarrow> (u32 \<times> u32) option"

definition IA32_EFER :: u32 where [const_defs]: "IA32_EFER = 0xc0000080"

definition empty_cpuid :: cpuid_result where
  "empty_cpuid = \<lparr>cpuid_eax = 0, cpuid_ebx = 0, cpuid_ecx = 0, cpuid_edx = 0\<rparr>"

definition read_efer :: "cpu_machine \<Rightarrow> u64 option" where
  "read_efer cpu =
     map_option (\<lambda>(low, high). push_bit 32 (ucast high) OR ucast low) (cpu_rdmsr cpu IA32_EFER)"

definition capture :: "cpu_machine \<Rightarrow> raw_cpu_snapshot option" where
  "capture cpu =
     Option.bind (map_option cpuid_eax (cpu_cpuid cpu 0 0)) (\<lambda>basic_maximum.
     Option.bind (map_option cpuid_eax (cpu_cpuid cpu 0x80000000 0)) (\<lambda>extended_maximum.
     Option.bind (if basic_maximum \<ge> 1 then cpu_cpuid cpu 1 0 else Some empty_cpuid) (\<lambda>basic.
     Option.bind (if basic_maximum \<ge> 7 then cpu_cpuid cpu 7 0 else Some empty_cpuid) (\<lambda>structured.
     Option.bind (if extended_maximum \<ge> 0x80000001 then cpu_cpuid cpu 0x80000001 0 else Some empty_cpuid)
       (\<lambda>extended.
     Option.bind (if extended_maximum \<ge> 0x80000008 then cpu_cpuid cpu 0x80000008 0 else Some empty_cpuid)
       (\<lambda>widths.
     Option.bind (if cpuid_edx basic AND CPUID_MSR \<noteq> 0 \<and> cpuid_edx extended AND CPUID_LONG_MODE \<noteq> 0
                  then read_efer cpu else Some 0) (\<lambda>efer.
     Some \<lparr>maximum_basic_leaf = basic_maximum, maximum_extended_leaf = extended_maximum,
           basic_feature_edx = cpuid_edx basic, structured_feature_ecx = cpuid_ecx structured,
           extended_feature_edx = cpuid_edx extended, address_width_eax = cpuid_eax widths,
           raw_cr0 = cpu_cr0 cpu, raw_cr3 = cpu_cr3 cpu, raw_cr4 = cpu_cr4 cpu,
           raw_efer = efer\<rparr>)))))))"

section \<open>Bits\<close>

lemma word_bits_iff: "a = b \<longleftrightarrow> (\<forall>n < LENGTH('a). bit a n \<longleftrightarrow> bit b n)" for a b :: "'a::len word"
  by (auto intro: bit_word_eqI)

lemma and_single_bit: "x AND push_bit n 1 = 0 \<longleftrightarrow> \<not> bit x n" for x :: "'a::len word"
  by (simp add: and_exp_eq_0_iff_not_bit push_bit_eq_mult)

lemma cpu_bit_tests:
  "(d AND CPUID_MSR = 0) = (\<not> bit d 5)" "(d AND CPUID_PAE = 0) = (\<not> bit d 6)"
  "(d AND CPUID_NX = 0) = (\<not> bit d 20)" "(d AND CPUID_LONG_MODE = 0) = (\<not> bit d 29)"
  "(d AND CPUID_LA57 = 0) = (\<not> bit d 16)"
  "(r AND CR0_WP = 0) = (\<not> bit r 16)" "(r AND CR0_PG = 0) = (\<not> bit r 31)"
  "(r AND CR4_PAE = 0) = (\<not> bit r 5)" "(r AND CR4_PGE = 0) = (\<not> bit r 7)"
  "(r AND CR4_LA57 = 0) = (\<not> bit r 12)" "(r AND CR4_PCIDE = 0) = (\<not> bit r 17)"
  "(r AND EFER_LME = 0) = (\<not> bit r 8)" "(r AND EFER_LMA = 0) = (\<not> bit r 10)"
  "(r AND EFER_NXE = 0) = (\<not> bit r 11)"
  unfolding cpu_bits by (simp_all only: and_single_bit)


lemma address_mask:
  fixes n :: nat
  assumes "12 \<le> n" "n < 64"
  shows "(push_bit n 1 - 1) AND NOT (PAGE_SIZE - 1) = mask n AND NOT (mask 12 :: u64)"
  by (simp add: const_defs mask_eq_exp_minus_1 push_bit_eq_mult)

lemma page_mask: "PAGE_SIZE - 1 = mask 12"
  by (simp add: const_defs mask_eq_exp_minus_1)

lemma bit_CR3_PWT_PCD: "bit CR3_PWT_PCD i \<longleftrightarrow> i = 3 \<or> i = 4"
  unfolding CR3_PWT_PCD_def bit_or_iff bit_push_bit_iff by (auto simp: bit_1_iff)

lemma and_unflagged: "c AND 0xfe7 = 0 \<longleftrightarrow> (\<forall>i < 12. bit c i \<longrightarrow> i = 3 \<or> i = 4)" for c :: u64
proof -
  have "(0xfe7 :: u64) = mask 12 AND NOT CR3_PWT_PCD" by (simp add: cpu_bits mask_eq_exp_minus_1)
  then have "c AND 0xfe7 = 0 \<longleftrightarrow> (\<forall>i < 64. i < 12 \<longrightarrow> bit c i \<longrightarrow> i = 3 \<or> i = 4)"
    by (auto simp: word_bits_iff bit_simps bit_CR3_PWT_PCD)
  also have "\<dots> \<longleftrightarrow> (\<forall>i < 12. bit c i \<longrightarrow> i = 3 \<or> i = 4)"
  proof -
    have "i < 64 \<and> i < 12 \<longleftrightarrow> i < 12" for i :: nat by auto
    then show ?thesis by metis
  qed
  finally show ?thesis .
qed

lemma cr3_encoding_pcid:
  fixes c :: u64
  assumes "12 \<le> n" "n < 64"
  shows "c AND NOT ((mask n AND NOT (mask 12)) OR mask 12) = 0 \<longleftrightarrow> take_bit n c = c"
  using assms by (auto simp: word_bits_iff bit_simps)

lemma cr3_encoding:
  fixes c :: u64
  assumes "12 \<le> n" "n < 64"
  shows "c AND NOT ((mask n AND NOT (mask 12)) OR CR3_PWT_PCD) = 0 \<longleftrightarrow> take_bit n c = c \<and> c AND 0xfe7 = 0"
  unfolding and_unflagged
proof
  assume "c AND NOT ((mask n AND NOT (mask 12)) OR CR3_PWT_PCD) = 0"
  then have "bit c i \<Longrightarrow> i < 64 \<Longrightarrow> i < n \<and> \<not> i < 12 \<or> i = 3 \<or> i = 4" for i
    by (auto simp: word_bits_iff bit_simps bit_CR3_PWT_PCD)
  then show "take_bit n c = c \<and> (\<forall>i < 12. bit c i \<longrightarrow> i = 3 \<or> i = 4)"
    using assms by (force simp: word_bits_iff bit_simps)
next
  assume "take_bit n c = c \<and> (\<forall>i < 12. bit c i \<longrightarrow> i = 3 \<or> i = 4)"
  then have "bit c i \<Longrightarrow> i < n \<and> \<not> i < 12 \<or> i = 3 \<or> i = 4" for i
    by (metis bit_take_bit_iff)
  then show "c AND NOT ((mask n AND NOT (mask 12)) OR CR3_PWT_PCD) = 0"
    by (auto simp: word_bits_iff bit_simps bit_CR3_PWT_PCD)
qed


lemma take_bit_self_nat: "take_bit n c = c \<longleftrightarrow> unat c < 2 ^ n" for c :: "'a::len word"
  by (simp add: word_eq_nat unsigned_take_bit_eq take_bit_nat_eq_self_iff)

lemma root_bits:
  fixes c :: u64
  assumes "take_bit n c = c"
  shows "c AND (mask n AND NOT (mask 12)) = c AND NOT (mask 12)"
  using assms by (metis and.assoc take_bit_eq_mask)

lemma root_zero: "c AND NOT (mask 12) = 0 \<longleftrightarrow> unat c < 4096" for c :: u64
proof -
  have "n - n mod 4096 = 0 \<longleftrightarrow> n < 4096" for n :: nat
    using mod_less_divisor [of 4096 n] by (auto intro: le_less_trans)
  then show ?thesis by (simp add: word_eq_nat unat_and_not_mask)
qed

lemma root_aligned: "is_multiple_of (c AND NOT (mask 12)) PAGE_SIZE" for c :: u64
  by (simp add: is_multiple_of_nat unat_and_not_mask const_defs)

lemma context_bits:
  fixes c :: u64
  assumes "c AND 0xfe7 = 0"
  shows "c AND CR3_PWT_PCD = take_bit 12 c"
proof (rule bit_word_eqI)
  fix i assume "i < LENGTH(64)"
  show "bit (c AND CR3_PWT_PCD) i = bit (take_bit 12 c) i"
    using assms by (auto simp: and_unflagged bit_simps bit_CR3_PWT_PCD)
qed

lemma validate_cr3_eq:
  assumes "36 \<le> unat b" "unat b \<le> 52"
  shows "validate_cr3 raw b =
    (if \<not> (unat (raw_cr3 raw) < 2 ^ unat b \<and> (bit (raw_cr4 raw) 17 \<or> raw_cr3 raw AND 0xfe7 = 0))
     then Err UnsupportedCr3Encoding
     else if unat (raw_cr3 raw) < 4096 then Err InvalidCurrentCr3Root
     else Ok \<lparr>root_address = raw_cr3 raw AND NOT (mask 12),
       context_or_flags = ucast (take_bit 12 (raw_cr3 raw)),
       cr3_pcid_state = (if bit (raw_cr4 raw) 17 then EnabledMustRemainUnused else PcidDisabled)\<rparr>)"
proof -
  have n: "12 \<le> unat b" "unat b < 64" using assms by auto
  have unfolded: "validate_cr3 raw b =
    (if \<not> (take_bit (unat b) (raw_cr3 raw) = raw_cr3 raw \<and> (bit (raw_cr4 raw) 17 \<or> raw_cr3 raw AND 0xfe7 = 0))
     then Err UnsupportedCr3Encoding
     else if raw_cr3 raw AND (mask (unat b) AND NOT (mask 12)) = 0
       \<or> \<not> is_multiple_of (raw_cr3 raw AND (mask (unat b) AND NOT (mask 12))) PAGE_SIZE
     then Err InvalidCurrentCr3Root
     else Ok \<lparr>root_address = raw_cr3 raw AND (mask (unat b) AND NOT (mask 12)),
       context_or_flags = ucast (raw_cr3 raw AND (if bit (raw_cr4 raw) 17 then mask 12 else CR3_PWT_PCD)),
       cr3_pcid_state = (if bit (raw_cr4 raw) 17 then EnabledMustRemainUnused else PcidDisabled)\<rparr>)"
    unfolding validate_cr3_def Let_def address_mask [OF n] unfolding page_mask cpu_bit_tests
    by (cases "bit (raw_cr4 raw) 17")
      (simp_all only: if_True if_False not_not not_True_eq_False not_False_eq_True cr3_encoding [OF n]
        cr3_encoding_pcid [OF n] simp_thms)
  show ?thesis
    unfolding unfolded
    by (auto simp: take_bit_self_nat [symmetric] root_bits root_zero root_aligned context_bits
        simp flip: take_bit_eq_mask)
qed

section \<open>Which processors are accepted\<close>

lemma unat_low_byte: "unat (ucast (e AND 0xff) :: u8) = unat e mod 256" for e :: u32
proof -
  have "e AND 0xff = take_bit 8 e" by (simp add: take_bit_eq_mask mask_eq_exp_minus_1)
  then show ?thesis by (simp add: unsigned_ucast_eq unsigned_take_bit_eq take_bit_eq_mod unat_mod_distrib)
qed

lemma unat_second_byte: "unat (ucast (drop_bit 8 e AND 0xff) :: u8) = unat e div 256 mod 256" for e :: u32
  unfolding unat_low_byte by (simp add: unat_drop_bit_eq drop_bit_eq_div unat_div_distrib)

text \<open>
  The reference description: bit numbers and address widths as the architecture numbers them,
  and CR3 as a number.
\<close>

definition physical_width :: "raw_cpu_snapshot \<Rightarrow> nat" where
  "physical_width raw = unat (address_width_eax raw) mod 256"

definition linear_width :: "raw_cpu_snapshot \<Rightarrow> nat" where
  "linear_width raw = unat (address_width_eax raw) div 256 mod 256"

definition has_la57 :: "raw_cpu_snapshot \<Rightarrow> bool" where
  "has_la57 raw \<longleftrightarrow> 7 \<le> maximum_basic_leaf raw \<and> bit (structured_feature_ecx raw) 16"

definition cpu_supported :: "raw_cpu_snapshot \<Rightarrow> bool" where
  "cpu_supported raw \<longleftrightarrow>
     1 \<le> maximum_basic_leaf raw \<and> 0x80000008 \<le> maximum_extended_leaf raw
     \<and> bit (extended_feature_edx raw) 29 \<and> bit (extended_feature_edx raw) 20
     \<and> bit (basic_feature_edx raw) 5 \<and> bit (basic_feature_edx raw) 6
     \<and> bit (raw_cr0 raw) 31 \<and> bit (raw_efer raw) 10 \<and> bit (raw_efer raw) 8
     \<and> bit (raw_cr4 raw) 5 \<and> \<not> bit (raw_cr4 raw) 12
     \<and> 36 \<le> physical_width raw \<and> physical_width raw \<le> 52
     \<and> (linear_width raw = 48 \<or> linear_width raw = 57 \<and> has_la57 raw)
     \<and> 4096 \<le> unat (raw_cr3 raw) \<and> unat (raw_cr3 raw) < 2 ^ physical_width raw
     \<and> (bit (raw_cr4 raw) 17 \<or> raw_cr3 raw AND 0xfe7 = 0)"

definition hardening :: "bool \<Rightarrow> hardening_state" where
  "hardening enabled = (if enabled then HardeningEnabled else MustEnableBeforeActivation)"

definition cpu_view :: "raw_cpu_snapshot \<Rightarrow> validated_cpu_snapshot" where
  "cpu_view raw =
     \<lparr>physical_address_bits = of_nat (physical_width raw),
      reported_linear_address_bits = of_nat (linear_width raw),
      la57_supported = has_la57 raw,
      current_cr3 =
        \<lparr>root_address = raw_cr3 raw AND NOT (mask 12),
         context_or_flags = ucast (take_bit 12 (raw_cr3 raw)),
         cr3_pcid_state = (if bit (raw_cr4 raw) 17 then EnabledMustRemainUnused else PcidDisabled)\<rparr>,
      vs_nxe = hardening (bit (raw_efer raw) 11),
      vs_write_protect = hardening (bit (raw_cr0 raw) 16),
      vs_pge = (if bit (raw_cr4 raw) 7 then PgeEnabled else PgeDisabled),
      vs_stability = Cr3StabilityToken (raw_cr3 raw)\<rparr>"

lemma cpu_widths:
  "(ucast (address_width_eax raw AND 0xff) :: u8) = of_nat (physical_width raw)"
  "(ucast (drop_bit 8 (address_width_eax raw) AND 0xff) :: u8) = of_nat (linear_width raw)"
  unfolding word_eq_nat unat_second_byte unfolding unat_low_byte
  by (simp_all add: physical_width_def linear_width_def unat_of_nat)

lemma width_bounds: "physical_width raw < 256" "linear_width raw < 256"
  by (simp_all add: physical_width_def linear_width_def)

lemma width_tests:
  assumes "w < 256"
  shows "((36 :: u8) \<le> of_nat w) = (36 \<le> w)" "((of_nat w :: u8) \<le> 52) = (w \<le> 52)"
    "((of_nat w :: u8) = 48) = (w = 48)" "((of_nat w :: u8) = 57) = (w = 57)"
    "unat (of_nat w :: u8) = w"
  using assms by (simp_all add: word_le_nat_alt word_eq_nat unat_of_nat)

lemma cpu_validate_outcome:
  "(cpu_validate raw = Ok v \<longleftrightarrow> cpu_supported raw \<and> v = cpu_view raw) \<and> cpu_validate raw \<noteq> Panic"
proof -
  have leaf: "maximum_extended_leaf raw < 0x80000001 \<or> maximum_extended_leaf raw < 0x80000008
      \<longleftrightarrow> \<not> 0x80000008 \<le> maximum_extended_leaf raw"
    by (auto simp: word_less_nat_alt word_le_nat_alt)
  have basic: "maximum_basic_leaf raw < 1 \<longleftrightarrow> \<not> 1 \<le> maximum_basic_leaf raw" by (rule not_le [symmetric])
  note widths = width_tests [OF width_bounds(1)] width_tests [OF width_bounds(2)]
  show ?thesis
    unfolding cpu_validate_def Let_def cpu_bit_tests cpu_widths guard_outcome const_defs widths
    using leaf basic
    by (cases "36 \<le> physical_width raw \<and> physical_width raw \<le> 52")
      (auto simp: guard_outcome validate_cr3_eq widths cpu_supported_def cpu_view_def hardening_def has_la57_def)
qed

text \<open>
  C25. A snapshot is accepted exactly when the processor has what the boot path needs: long mode,
  NX, PAE and MSRs present and active, four-level paging, a physical width from 36 to 52 bits, a
  linear width of 48 bits (or 57 with LA57 present but off), and a CR3 that names a nonzero frame
  within that width with no flag outside the page-cache ones unless PCIDs are on. What is
  reported back is read off the snapshot, and validation never panics.
\<close>
theorem cpu_validate_correct:
  "(cpu_validate raw = Ok v \<longleftrightarrow> cpu_supported raw \<and> v = cpu_view raw) \<and> cpu_validate raw \<noteq> Panic"
  by (rule cpu_validate_outcome)

section \<open>Activation readiness and the probe\<close>

text \<open>The frames, the root and the mapped memory that a physical width of \<open>w\<close> bits can address.\<close>

definition hierarchy_fits :: "nat \<Rightarrow> physical_frame list \<Rightarrow> physical_frame \<Rightarrow> u64 \<Rightarrow> bool" where
  "hierarchy_fits w frames root mapped_end \<longleftrightarrow>
     frames \<noteq> [] \<and> hd frames = root \<and> pf_address root \<noteq> 0
     \<and> 0 < unat mapped_end \<and> unat mapped_end \<le> 2 ^ 46 \<and> unat mapped_end \<le> 2 ^ w
     \<and> (\<forall>frame \<in> set frames. unat (pf_address frame) + 4096 \<le> 2 ^ w)"

lemma unat_cpu_end: "w < 64 \<Longrightarrow> unat ((2 :: u64) ^ w) = 2 ^ w"
proof -
  assume "w < 64"
  then have "(2 :: nat) ^ w < 2 ^ 64" by (intro power_strict_increasing) auto
  moreover have "(2 :: u64) ^ w = of_nat (2 ^ w)" by simp
  ultimately show ?thesis by (simp only: unat_of_nat len_bit0 len_num1) simp
qed

lemma frame_end:
  assumes "w \<le> 52"
  shows "(\<exists>s. checked_add (pf_address f) PAGE_SIZE = Some s \<and> \<not> 2 ^ w < s)
    \<longleftrightarrow> unat (pf_address f) + 4096 \<le> 2 ^ w"
proof -
  have "(2 :: nat) ^ w \<le> 2 ^ 52" using assms by (intro power_increasing) auto
  then have "unat (pf_address f + 4096) = unat (pf_address f) + 4096" if "unat (pf_address f) + 4096 \<le> 2 ^ w"
    using that by (simp add: unat_word_ariths)
  then show ?thesis using assms \<open>2 ^ w \<le> 2 ^ 52\<close>
    by (auto simp: word_less_nat_alt unat_cpu_end const_defs intro!: exI [of _ "pf_address f + 4096"])
qed

lemma check_owned_frame_Ok:
  assumes "w \<le> 52"
  shows "check_owned_frame (2 ^ w) f = Ok () \<longleftrightarrow> unat (pf_address f) + 4096 \<le> 2 ^ w"
  using frame_end [OF assms, of f] by (auto simp: check_owned_frame_def guard_outcome)

definition ready_state :: "validated_cpu_snapshot \<Rightarrow> physical_frame \<Rightarrow> activation_readiness" where
  "ready_state snapshot root =
     \<lparr>ar_current_cr3 = current_cr3 snapshot, ar_proposed_root = pf_address root, ar_nxe = vs_nxe snapshot,
      ar_write_protect = vs_write_protect snapshot, ar_pge = vs_pge snapshot,
      ar_pcid = cr3_pcid_state (current_cr3 snapshot),
      ar_physical_address_bits = physical_address_bits snapshot, ar_effective_linear_address_bits = 48,
      ar_transition_permitted = 1, ar_stability = vs_stability snapshot\<rparr>"

lemma classify_outcome:
  assumes w: "unat (physical_address_bits snapshot) = w" "w \<le> 52"
  shows "classify_for_hierarchy snapshot frames root mapped_end = Ok r
      \<longleftrightarrow> hierarchy_fits w frames root mapped_end \<and> r = ready_state snapshot root"
    and "classify_for_hierarchy snapshot frames root mapped_end \<noteq> Panic"
proof -
  have owned: "try_fold (\<lambda>_. check_owned_frame (2 ^ w)) () frames = Ok u
      \<longleftrightarrow> (\<forall>f \<in> set frames. unat (pf_address f) + 4096 \<le> 2 ^ w)" for u
    by (simp add: try_fold_unit_Ok check_owned_frame_Ok [OF w(2)])
  have no_panic: "check_owned_frame e f \<noteq> Panic" for e f
    by (simp add: check_owned_frame_def guard_outcome)
  have mapped: "unat m \<le> 2 ^ w \<longleftrightarrow> \<not> 2 ^ w < m" "unat m \<le> 2 ^ 46 \<longleftrightarrow> \<not> SUPPORTED_PHYSICAL_END < m"
    "0 < unat m \<longleftrightarrow> m \<noteq> 0" for m :: u64
    using w(2) by (auto simp: word_less_nat_alt unat_cpu_end const_defs unat_gt_0)
  have first: "frames \<noteq> [] \<and> hd frames = root \<longleftrightarrow> \<not> (frames = [] \<or> frames ! 0 \<noteq> root)"
    by (auto simp: hd_conv_nth)
  have root: "frames \<noteq> [] \<Longrightarrow> hd frames = root \<Longrightarrow> root \<in> set frames" by auto
  show "classify_for_hierarchy snapshot frames root mapped_end = Ok r
      \<longleftrightarrow> hierarchy_fits w frames root mapped_end \<and> r = ready_state snapshot root"
    unfolding classify_for_hierarchy_def hierarchy_fits_def Let_def w(1) mapped
    using frame_end [OF w(2), of root] first root
    by (auto simp: guard_outcome owned ready_state_def const_defs hd_conv_nth)
  show "classify_for_hierarchy snapshot frames root mapped_end \<noteq> Panic"
    unfolding classify_for_hierarchy_def Let_def by (simp add: guard_outcome try_fold_not_Panic no_panic)
qed

text \<open>
  C26. A verified hierarchy is declared ready for activation exactly when its root is the first of
  its frames and nonzero, the mapped physical memory is not empty and stays below both the
  architecture's limit and the processor's, and every frame of the hierarchy lies wholly below
  the processor's limit. The answer carries the processor's state over, permits the transition
  with 48-bit addresses, and its token accepts only the CR3 that the snapshot was taken with.
\<close>
theorem classify_for_hierarchy_correct:
  assumes "cpu_validate raw = Ok snapshot"
  shows "(\<exists>r. classify_for_hierarchy snapshot frames root mapped_end = Ok r \<and> transition_permitted r
        \<and> ar_proposed_root r = pf_address root \<and> ar_current_cr3 r = current_cr3 (cpu_view raw)
        \<and> ar_effective_linear_address_bits r = 48
        \<and> (\<forall>observed. token_verify (ar_stability r) observed = Ok () \<longleftrightarrow> observed = raw_cr3 raw))
      = hierarchy_fits (physical_width raw) frames root mapped_end
    \<and> classify_for_hierarchy snapshot frames root mapped_end \<noteq> Panic"
proof -
  have snapshot: "snapshot = cpu_view raw" and w: "physical_width raw \<le> 52"
    using assms cpu_validate_outcome [of raw snapshot] by (auto simp: cpu_supported_def)
  have bits: "unat (physical_address_bits snapshot) = physical_width raw"
    by (simp add: snapshot cpu_view_def width_tests(5) [OF width_bounds(1)])
  have token: "token_verify (vs_stability snapshot) c = Ok () \<longleftrightarrow> c = raw_cr3 raw" for c
    by (auto simp: snapshot cpu_view_def)
  show ?thesis
    using classify_outcome [OF bits w] token
    by (simp add: ready_state_def transition_permitted_def snapshot)
qed

definition sample_cpu :: raw_cpu_snapshot where
  "sample_cpu = \<lparr>maximum_basic_leaf = 7, maximum_extended_leaf = 0x80000008, basic_feature_edx = 0x60,
     structured_feature_ecx = 0, extended_feature_edx = 0x20100000, address_width_eax = 0x3027,
     raw_cr0 = 0x80010000, raw_cr3 = 0x12345000, raw_cr4 = 0x20, raw_efer = 0xd00\<rparr>"

theorem classify_for_hierarchy_correct_witness:
  "\<exists>snapshot r. cpu_validate sample_cpu = Ok snapshot
     \<and> classify_for_hierarchy snapshot [PhysicalFrame 0x200000, PhysicalFrame 0x310000]
         (PhysicalFrame 0x200000) 0x40000000 = Ok r \<and> transition_permitted r"
proof -
  have "cpu_supported sample_cpu"
    by (simp add: cpu_supported_def sample_cpu_def physical_width_def linear_width_def word_le_nat_alt)
  then have ok: "cpu_validate sample_cpu = Ok (cpu_view sample_cpu)" using cpu_validate_outcome by blast
  have "hierarchy_fits (physical_width sample_cpu) [PhysicalFrame 0x200000, PhysicalFrame 0x310000]
      (PhysicalFrame 0x200000) 0x40000000"
    by (simp add: hierarchy_fits_def sample_cpu_def physical_width_def)
  then show ?thesis using classify_for_hierarchy_correct [OF ok] ok by blast
qed

text \<open>
  C27. The probe touches no CPUID leaf and no model-specific register that the processor does not
  report: on every machine whose announced leaves exist, and on which EFER exists when MSRs and
  long mode are announced, capturing a snapshot does not fault, and the snapshot's leaf limits
  and control registers are the machine's.
\<close>
theorem capture_safe:
  assumes "cpu_cpuid cpu 0 0 = Some basic" and "cpu_cpuid cpu 0x80000000 0 = Some ext"
    and "\<And>leaf. leaf \<le> cpuid_eax basic \<Longrightarrow> cpu_cpuid cpu leaf 0 \<noteq> None"
    and "\<And>leaf. 0x80000000 \<le> leaf \<Longrightarrow> leaf \<le> cpuid_eax ext \<Longrightarrow> cpu_cpuid cpu leaf 0 \<noteq> None"
    and "\<And>one x. cpu_cpuid cpu 1 0 = Some one \<Longrightarrow> cpu_cpuid cpu 0x80000001 0 = Some x
      \<Longrightarrow> bit (cpuid_edx one) 5 \<Longrightarrow> bit (cpuid_edx x) 29 \<Longrightarrow> cpu_rdmsr cpu IA32_EFER \<noteq> None"
  shows "\<exists>raw. capture cpu = Some raw \<and> maximum_basic_leaf raw = cpuid_eax basic
    \<and> maximum_extended_leaf raw = cpuid_eax ext \<and> raw_cr0 raw = cpu_cr0 cpu
    \<and> raw_cr3 raw = cpu_cr3 cpu \<and> raw_cr4 raw = cpu_cr4 cpu"
proof -
  have "\<exists>r. (if 1 \<le> cpuid_eax basic then cpu_cpuid cpu 1 0 else Some empty_cpuid) = Some r"
    "\<exists>r. (if 7 \<le> cpuid_eax basic then cpu_cpuid cpu 7 0 else Some empty_cpuid) = Some r"
    "\<exists>r. (if 0x80000001 \<le> cpuid_eax ext then cpu_cpuid cpu 0x80000001 0 else Some empty_cpuid) = Some r"
    "\<exists>r. (if 0x80000008 \<le> cpuid_eax ext then cpu_cpuid cpu 0x80000008 0 else Some empty_cpuid) = Some r"
    using assms(3,4) by (auto simp: word_le_nat_alt)
  then obtain one seven x w where
    leaves: "(if 1 \<le> cpuid_eax basic then cpu_cpuid cpu 1 0 else Some empty_cpuid) = Some one"
    "(if 7 \<le> cpuid_eax basic then cpu_cpuid cpu 7 0 else Some empty_cpuid) = Some seven"
    "(if 0x80000001 \<le> cpuid_eax ext then cpu_cpuid cpu 0x80000001 0 else Some empty_cpuid) = Some x"
    "(if 0x80000008 \<le> cpuid_eax ext then cpu_cpuid cpu 0x80000008 0 else Some empty_cpuid) = Some w"
    by blast
  have "\<exists>efer. (if cpuid_edx one AND CPUID_MSR \<noteq> 0 \<and> cpuid_edx x AND CPUID_LONG_MODE \<noteq> 0
      then read_efer cpu else Some 0) = Some efer"
    using leaves(1,3) assms(5)
    by (auto simp: cpu_bit_tests read_efer_def empty_cpuid_def split: if_splits)
  then show ?thesis using leaves assms(1,2) by (auto simp: capture_def)
qed

definition sample_machine :: cpu_machine where
  "sample_machine =
     \<lparr>cpu_cpuid = (\<lambda>leaf _. Some \<lparr>cpuid_eax = (if leaf = 0 then 7 else if leaf = 0x80000000 then 0x80000008 else 0x3027),
        cpuid_ebx = 0, cpuid_ecx = 0, cpuid_edx = (if leaf = 1 then 0x60 else 0x20100000)\<rparr>),
      cpu_cr0 = 0x80010000, cpu_cr3 = 0x12345000, cpu_cr4 = 0x20, cpu_rdmsr = (\<lambda>_. Some (0xd00, 0))\<rparr>"

theorem capture_safe_witness:
  "\<exists>raw. capture sample_machine = Some raw \<and> maximum_basic_leaf raw = 7 \<and> raw_cr3 raw = 0x12345000"
  using capture_safe [of sample_machine "the (cpu_cpuid sample_machine 0 0)"
      "the (cpu_cpuid sample_machine 0x80000000 0)"]
  by (auto simp: sample_machine_def)

end
