(* ===== verification/Boot_Protocol.thy ===== *)
theory Boot_Protocol
  imports Rust_Prelude
begin

text \<open>
  The loader-to-kernel wire protocol (\<^verbatim>\<open>crates/boot-protocol/src/lib.rs\<close>): the raw boot-information
  block, its memory-map and framebuffer descriptions, and their validation. Addresses are opaque
  numbers; nothing is dereferenced.
\<close>

section \<open>Constants\<close>

definition ABI_MAGIC :: u64 where
  "ABI_MAGIC = from_le_bytes [0x55, 0x4e, 0x4f, 0x53, 0x42, 0x4f, 0x4f, 0x54]"

definition ABI_MAJOR :: u16 where [const_defs]: "ABI_MAJOR = 1"
definition ABI_MINOR :: u16 where [const_defs]: "ABI_MINOR = 0"
definition BOOT_INFO_HEADER_SIZE :: u16 where [const_defs]: "BOOT_INFO_HEADER_SIZE = 32"
definition BOOT_INFO_SIZE :: u32 where [const_defs]: "BOOT_INFO_SIZE = 128"
definition MEMORY_DESCRIPTOR_SIZE :: u32 where [const_defs]: "MEMORY_DESCRIPTOR_SIZE = 32"
definition MEMORY_DESCRIPTOR_ALIGNMENT :: u32 where [const_defs]: "MEMORY_DESCRIPTOR_ALIGNMENT = 8"
definition MEMORY_PAGE_SIZE :: u64 where [const_defs]: "MEMORY_PAGE_SIZE = 4096"
definition PIXEL_FORMAT_RGBX8888 :: u32 where [const_defs]: "PIXEL_FORMAT_RGBX8888 = 1"
definition PIXEL_FORMAT_BGRX8888 :: u32 where [const_defs]: "PIXEL_FORMAT_BGRX8888 = 2"
definition BYTES_PER_PIXEL :: u64 where [const_defs]: "BYTES_PER_PIXEL = 4"
definition MEMORY_KIND_USABLE :: u32 where [const_defs]: "MEMORY_KIND_USABLE = 1"
definition MEMORY_KIND_RESERVED :: u32 where [const_defs]: "MEMORY_KIND_RESERVED = 2"
definition MEMORY_KIND_ACPI_RECLAIM :: u32 where [const_defs]: "MEMORY_KIND_ACPI_RECLAIM = 3"
definition MEMORY_KIND_RUNTIME :: u32 where [const_defs]: "MEMORY_KIND_RUNTIME = 4"
definition MEMORY_KIND_KERNEL_IMAGE :: u32 where [const_defs]: "MEMORY_KIND_KERNEL_IMAGE = 5"
definition MEMORY_KIND_BOOT_INFO :: u32 where [const_defs]: "MEMORY_KIND_BOOT_INFO = 6"
definition MEMORY_KIND_BOOT_MEMORY_MAP :: u32 where [const_defs]: "MEMORY_KIND_BOOT_MEMORY_MAP = 7"
definition MEMORY_KIND_LOADER :: u32 where [const_defs]: "MEMORY_KIND_LOADER = 8"
definition MEMORY_KIND_FRAMEBUFFER :: u32 where [const_defs]: "MEMORY_KIND_FRAMEBUFFER = 9"
definition MEMORY_KIND_UNUSABLE :: u32 where [const_defs]: "MEMORY_KIND_UNUSABLE = 10"
definition MEMORY_KIND_PERSISTENT :: u32 where [const_defs]: "MEMORY_KIND_PERSISTENT = 11"
definition MEMORY_KIND_BOOTSTRAP_STACK :: u32 where [const_defs]: "MEMORY_KIND_BOOTSTRAP_STACK = 12"
definition MEMORY_KIND_PAGE_TABLE :: u32 where [const_defs]: "MEMORY_KIND_PAGE_TABLE = 13"

section \<open>Raw data and errors\<close>

record boot_info_header =
  bh_magic :: u64
  bh_abi_major :: u16
  bh_abi_minor :: u16
  bh_header_size :: u16
  bh_reserved0 :: u16
  bh_total_size :: u32
  bh_reserved1 :: u32
  bh_flags :: u64

record memory_map_info =
  mm_physical_address :: u64
  mm_descriptor_count :: u64
  mm_descriptor_stride :: u32
  mm_descriptor_version :: u16
  mm_reserved0 :: u16
  mm_byte_length :: u64
  mm_reserved1 :: u64

record memory_descriptor =
  md_kind :: u32
  md_reserved0 :: u32
  md_physical_start :: u64
  md_page_count :: u64
  md_attributes :: u64

record framebuffer_info =
  fb_physical_address :: u64
  fb_byte_length :: u64
  fb_width :: u32
  fb_height :: u32
  fb_pixels_per_scanline :: u32
  fb_pixel_format :: u32
  fb_reserved0 :: u64

record boot_info =
  bi_header :: boot_info_header
  bi_memory_map :: memory_map_info
  bi_framebuffer :: framebuffer_info
  bi_reserved0 :: u64
  bi_reserved1 :: u64

datatype reserved_field = Header0 | Header1 | MemoryMap0 | MemoryMap1 | MemoryDescriptor0
  | Framebuffer0 | BootInfo0 | BootInfo1

datatype validation_error =
    BadMagic | UnsupportedMajorVersion | InvalidHeaderSize | InvalidTotalSize | UnsupportedFlags
  | ReservedNotZero reserved_field
  | InvalidMemoryMapAddress | InvalidDescriptorCount | InvalidDescriptorStride
  | MemoryMapSizeOverflow | MemoryMapLengthMismatch | MemoryMapRangeOverflow
  | InvalidMemoryDescriptorRange | MemoryDescriptorSizeOverflow | MemoryDescriptorRangeOverflow
  | InvalidFramebufferAddress | InvalidFramebufferLength | InvalidFramebufferDimensions
  | InvalidFramebufferStride | UnknownPixelFormat | FramebufferSizeOverflow | FramebufferTooSmall
  | FramebufferRangeOverflow

record validated_memory_descriptor =
  vd_raw :: memory_descriptor
  vd_byte_length :: u64

record validated_boot_info =
  vb_raw :: boot_info
  vb_memory_map_byte_length :: u64
  vb_framebuffer_required_bytes :: u64

section \<open>Validation\<close>

definition md_validate ::
    "memory_descriptor \<Rightarrow> (validated_memory_descriptor, validation_error) result" where
  "md_validate d =
     (if md_reserved0 d \<noteq> 0 then Err (ReservedNotZero MemoryDescriptor0)
      else if md_page_count d = 0 \<or> \<not> is_multiple_of (md_physical_start d) MEMORY_PAGE_SIZE
      then Err InvalidMemoryDescriptorRange
      else
        and_then (ok_or (checked_mul (md_page_count d) MEMORY_PAGE_SIZE) MemoryDescriptorSizeOverflow)
          (\<lambda>byte_length.
        and_then (ok_or (checked_add (md_physical_start d) byte_length) MemoryDescriptorRangeOverflow)
          (\<lambda>_. Ok \<lparr>vd_raw = d, vd_byte_length = byte_length\<rparr>)))"

definition BootInfo_new :: "memory_map_info \<Rightarrow> framebuffer_info \<Rightarrow> boot_info" where
  "BootInfo_new memory_map framebuffer =
     \<lparr>bi_header =
        \<lparr>bh_magic = ABI_MAGIC, bh_abi_major = ABI_MAJOR, bh_abi_minor = ABI_MINOR,
         bh_header_size = BOOT_INFO_HEADER_SIZE, bh_reserved0 = 0, bh_total_size = BOOT_INFO_SIZE,
         bh_reserved1 = 0, bh_flags = 0\<rparr>,
      bi_memory_map = memory_map, bi_framebuffer = framebuffer, bi_reserved0 = 0, bi_reserved1 = 0\<rparr>"

definition validate_header :: "boot_info_header \<Rightarrow> (unit, validation_error) result" where
  "validate_header h =
     (if bh_magic h \<noteq> ABI_MAGIC then Err BadMagic
      else if bh_abi_major h \<noteq> ABI_MAJOR then Err UnsupportedMajorVersion
      else if bh_header_size h \<noteq> BOOT_INFO_HEADER_SIZE then Err InvalidHeaderSize
      else if \<not> (if bh_abi_minor h = ABI_MINOR then bh_total_size h = BOOT_INFO_SIZE
                 else bh_total_size h \<ge> BOOT_INFO_SIZE)
      then Err InvalidTotalSize
      else if bh_reserved0 h \<noteq> 0 then Err (ReservedNotZero Header0)
      else if bh_reserved1 h \<noteq> 0 then Err (ReservedNotZero Header1)
      else if bh_flags h \<noteq> 0 then Err UnsupportedFlags
      else Ok ())"

definition validate_memory_map :: "memory_map_info \<Rightarrow> (u64, validation_error) result" where
  "validate_memory_map m =
     (if mm_physical_address m = 0 then Err InvalidMemoryMapAddress
      else if mm_descriptor_count m = 0 then Err InvalidDescriptorCount
      else if mm_descriptor_stride m < MEMORY_DESCRIPTOR_SIZE
        \<or> \<not> is_multiple_of (mm_descriptor_stride m) MEMORY_DESCRIPTOR_ALIGNMENT
      then Err InvalidDescriptorStride
      else if mm_reserved0 m \<noteq> 0 then Err (ReservedNotZero MemoryMap0)
      else if mm_reserved1 m \<noteq> 0 then Err (ReservedNotZero MemoryMap1)
      else
        and_then (ok_or (checked_mul (mm_descriptor_count m) (ucast (mm_descriptor_stride m)))
            MemoryMapSizeOverflow) (\<lambda>byte_length.
        if byte_length \<noteq> mm_byte_length m then Err MemoryMapLengthMismatch
        else
          and_then (ok_or (checked_add (mm_physical_address m) byte_length) MemoryMapRangeOverflow)
            (\<lambda>_. Ok byte_length)))"

definition validate_framebuffer :: "framebuffer_info \<Rightarrow> (u64, validation_error) result" where
  "validate_framebuffer f =
     (if fb_physical_address f = 0 then Err InvalidFramebufferAddress
      else if fb_byte_length f = 0 then Err InvalidFramebufferLength
      else if fb_width f = 0 \<or> fb_height f = 0 then Err InvalidFramebufferDimensions
      else if fb_pixels_per_scanline f < fb_width f then Err InvalidFramebufferStride
      else if fb_pixel_format f \<noteq> PIXEL_FORMAT_RGBX8888 \<and> fb_pixel_format f \<noteq> PIXEL_FORMAT_BGRX8888
      then Err UnknownPixelFormat
      else if fb_reserved0 f \<noteq> 0 then Err (ReservedNotZero Framebuffer0)
      else
        and_then (ok_or
            (Option.bind (checked_mul (ucast (fb_pixels_per_scanline f)) (ucast (fb_height f)))
              (\<lambda>pixels. checked_mul pixels BYTES_PER_PIXEL)) FramebufferSizeOverflow) (\<lambda>required_bytes.
        if fb_byte_length f < required_bytes then Err FramebufferTooSmall
        else
          and_then (ok_or (checked_add (fb_physical_address f) (fb_byte_length f))
              FramebufferRangeOverflow) (\<lambda>_. Ok required_bytes)))"

definition bi_validate :: "boot_info \<Rightarrow> (validated_boot_info, validation_error) result" where
  "bi_validate b =
     and_then (validate_header (bi_header b)) (\<lambda>_.
     and_then (validate_memory_map (bi_memory_map b)) (\<lambda>memory_map_byte_length.
     and_then (validate_framebuffer (bi_framebuffer b)) (\<lambda>framebuffer_required_bytes.
     if bi_reserved0 b \<noteq> 0 then Err (ReservedNotZero BootInfo0)
     else if bi_reserved1 b \<noteq> 0 then Err (ReservedNotZero BootInfo1)
     else Ok \<lparr>vb_raw = b, vb_memory_map_byte_length = memory_map_byte_length,
              vb_framebuffer_required_bytes = framebuffer_required_bytes\<rparr>)))"

section \<open>What is accepted\<close>

text \<open>The reference description, over numbers that cannot overflow.\<close>

definition md_ok :: "memory_descriptor \<Rightarrow> bool" where
  "md_ok d \<longleftrightarrow> md_reserved0 d = 0 \<and> 0 < unat (md_page_count d) \<and> unat (md_physical_start d) mod 4096 = 0
     \<and> unat (md_physical_start d) + unat (md_page_count d) * 4096 < 2 ^ 64"

definition mm_ok :: "memory_map_info \<Rightarrow> bool" where
  "mm_ok m \<longleftrightarrow> mm_physical_address m \<noteq> 0 \<and> mm_descriptor_count m \<noteq> 0
     \<and> 32 \<le> unat (mm_descriptor_stride m) \<and> unat (mm_descriptor_stride m) mod 8 = 0
     \<and> mm_reserved0 m = 0 \<and> mm_reserved1 m = 0
     \<and> unat (mm_byte_length m) = unat (mm_descriptor_count m) * unat (mm_descriptor_stride m)
     \<and> unat (mm_physical_address m) + unat (mm_byte_length m) < 2 ^ 64"

definition required_bytes_of :: "framebuffer_info \<Rightarrow> nat" where
  "required_bytes_of f = unat (fb_pixels_per_scanline f) * unat (fb_height f) * 4"

definition fb_ok :: "framebuffer_info \<Rightarrow> bool" where
  "fb_ok f \<longleftrightarrow> fb_physical_address f \<noteq> 0 \<and> fb_width f \<noteq> 0 \<and> fb_height f \<noteq> 0
     \<and> fb_width f \<le> fb_pixels_per_scanline f
     \<and> fb_pixel_format f \<in> {PIXEL_FORMAT_RGBX8888, PIXEL_FORMAT_BGRX8888} \<and> fb_reserved0 f = 0
     \<and> required_bytes_of f \<le> unat (fb_byte_length f)
     \<and> unat (fb_physical_address f) + unat (fb_byte_length f) < 2 ^ 64"

definition header_ok :: "boot_info_header \<Rightarrow> bool" where
  "header_ok h \<longleftrightarrow> bh_magic h = ABI_MAGIC \<and> bh_abi_major h = 1 \<and> bh_header_size h = 32
     \<and> (bh_total_size h = 128 \<or> bh_abi_minor h \<noteq> 0 \<and> 128 < bh_total_size h)
     \<and> bh_reserved0 h = 0 \<and> bh_reserved1 h = 0 \<and> bh_flags h = 0"

lemma md_validate_Ok:
  "md_validate d = Ok v \<longleftrightarrow> md_ok d \<and> vd_raw v = d \<and> unat (vd_byte_length v) = unat (md_page_count d) * 4096"
proof -
  have "(\<exists>e :: u64. unat e = unat s + unat l) \<longleftrightarrow> unat s + unat l < 2 ^ 64" for s l :: u64
    by (simp add: ex_unat)
  then show ?thesis
    by (cases v) (auto simp: md_validate_def md_ok_def guard_outcome const_defs word_nat unat_gt_0)
qed

lemma md_validate_outcome: "(\<exists>v. md_validate d = Ok v) \<longleftrightarrow> md_ok d"
proof -
  have "\<exists>n :: u64. unat n = unat (md_page_count d) * 4096" if "md_ok d"
    using that by (simp add: ex_unat md_ok_def)
  then show ?thesis unfolding md_validate_Ok by (metis validated_memory_descriptor.select_convs)
qed

lemma validate_memory_map_Ok:
  "validate_memory_map m = Ok n \<longleftrightarrow> mm_ok m \<and> n = mm_byte_length m"
  by (auto simp: validate_memory_map_def mm_ok_def guard_outcome const_defs word_nat ex_unat)

lemma frame_bytes:
  "Option.bind (checked_mul (ucast a) (ucast b)) (\<lambda>pixels. checked_mul pixels 4) = Some n
    \<longleftrightarrow> unat (n :: u64) = unat (a :: u32) * unat (b :: u32) * 4"
proof -
  have "unat a * unat b < 2 ^ 32 * 2 ^ 32" using unat_bound [of a] unat_bound [of b]
    by (intro mult_strict_mono) auto
  then have "\<exists>p :: u64. unat p = unat a * unat b" by (simp add: ex_unat)
  then obtain p :: u64 where p: "unat p = unat a * unat b" ..
  then have mul: "checked_mul (ucast a) (ucast b) = Some p" by simp
  show ?thesis unfolding mul using p by simp
qed

lemma validate_framebuffer_Ok:
  "validate_framebuffer f = Ok n \<longleftrightarrow> fb_ok f \<and> unat n = required_bytes_of f"
proof -
  have "fb_byte_length f \<noteq> 0"
    if "unat (fb_pixels_per_scanline f) * unat (fb_height f) * 4 \<le> unat (fb_byte_length f)"
      "fb_width f \<noteq> 0" "fb_height f \<noteq> 0" "fb_width f \<le> fb_pixels_per_scanline f"
  proof -
    have "0 < unat (fb_pixels_per_scanline f)" "0 < unat (fb_height f)"
      using that(2-4) by (auto simp: word_le_nat_alt simp flip: unat_gt_0)
    then have "0 < unat (fb_pixels_per_scanline f) * unat (fb_height f) * 4" by simp
    then show ?thesis using that(1) by (metis less_le_trans unat_gt_0)
  qed
  then show ?thesis
    by (auto simp: validate_framebuffer_def fb_ok_def guard_outcome const_defs not_less ex_unat
        required_bytes_of_def frame_bytes word_le_nat_alt)
qed

lemma validate_header_Ok: "validate_header h = Ok () \<longleftrightarrow> header_ok h"
  by (auto simp: validate_header_def header_ok_def guard_outcome const_defs split: if_splits)

lemma bi_validate_Ok:
  "bi_validate b = Ok v \<longleftrightarrow>
     header_ok (bi_header b) \<and> mm_ok (bi_memory_map b) \<and> fb_ok (bi_framebuffer b)
     \<and> bi_reserved0 b = 0 \<and> bi_reserved1 b = 0
     \<and> (\<exists>n. unat n = required_bytes_of (bi_framebuffer b) \<and>
         v = \<lparr>vb_raw = b, vb_memory_map_byte_length = mm_byte_length (bi_memory_map b),
              vb_framebuffer_required_bytes = n\<rparr>)"
  by (auto simp: bi_validate_def guard_outcome validate_header_Ok validate_memory_map_Ok validate_framebuffer_Ok)

text \<open>
  C28. A boot-information block is accepted exactly when its header, memory-map description and
  framebuffer description satisfy the protocol and its reserved words are zero. In particular
  every address range it names fits into 64 bits, the map's byte length is count times stride,
  and the framebuffer holds every scan line. Validation never panics and reports the byte sizes
  it computed; a block made by \<^verbatim>\<open>BootInfo::new\<close> from valid descriptions is accepted.
\<close>

theorem boot_info_validate_correct:
  "(bi_validate b = Ok v \<longleftrightarrow>
      header_ok (bi_header b) \<and> mm_ok (bi_memory_map b) \<and> fb_ok (bi_framebuffer b)
      \<and> bi_reserved0 b = 0 \<and> bi_reserved1 b = 0
      \<and> vb_raw v = b \<and> vb_memory_map_byte_length v = mm_byte_length (bi_memory_map b)
      \<and> unat (vb_framebuffer_required_bytes v) = required_bytes_of (bi_framebuffer b))
   \<and> bi_validate b \<noteq> Panic
   \<and> (is_ok (bi_validate (BootInfo_new m f)) \<longleftrightarrow> mm_ok m \<and> fb_ok f)"
proof (intro conjI)
  show "bi_validate b = Ok v \<longleftrightarrow>
      header_ok (bi_header b) \<and> mm_ok (bi_memory_map b) \<and> fb_ok (bi_framebuffer b)
      \<and> bi_reserved0 b = 0 \<and> bi_reserved1 b = 0
      \<and> vb_raw v = b \<and> vb_memory_map_byte_length v = mm_byte_length (bi_memory_map b)
      \<and> unat (vb_framebuffer_required_bytes v) = required_bytes_of (bi_framebuffer b)"
    by (cases v) (auto simp: bi_validate_Ok)
  show "bi_validate b \<noteq> Panic"
    by (simp add: bi_validate_def validate_header_def validate_memory_map_def validate_framebuffer_def
        guard_outcome)
  have "\<exists>n :: u64. unat n = required_bytes_of f" if "fb_ok f"
    using that unat_bound [of "fb_byte_length f"] by (simp add: ex_unat fb_ok_def)
  then show "is_ok (bi_validate (BootInfo_new m f)) \<longleftrightarrow> mm_ok m \<and> fb_ok f"
    by (auto simp: is_ok_iff bi_validate_Ok BootInfo_new_def header_ok_def const_defs)
qed
end
