(* ===== verification/Boot_Extensions.thy ===== *)
theory Boot_Extensions
  imports Boot_Protocol
begin

text \<open>
  The extension area that follows the boot-information block
  (\<^verbatim>\<open>crates/boot-protocol/src/extensions.rs\<close>): a sequence of records, each a 16-byte header and a
  body, of which the page-table ownership record is the only kind the loader knows.
\<close>

section \<open>Constants and data\<close>

definition BOOT_ENVELOPE_ABI_MAJOR :: u16 where [const_defs]: "BOOT_ENVELOPE_ABI_MAJOR = 2"
definition EXTENSION_HEADER_SIZE :: u16 where [const_defs]: "EXTENSION_HEADER_SIZE = 16"
definition EXTENSION_VERSION_1 :: u16 where [const_defs]: "EXTENSION_VERSION_1 = 1"
definition EXTENSION_FLAG_REQUIRED :: u32 where [const_defs]: "EXTENSION_FLAG_REQUIRED = 1"
definition EXTENSION_KIND_PAGE_TABLE_OWNERSHIP :: u32 where
  [const_defs]: "EXTENSION_KIND_PAGE_TABLE_OWNERSHIP = 1"
definition PAGE_TABLE_OWNERSHIP_SIZE :: u32 where [const_defs]: "PAGE_TABLE_OWNERSHIP_SIZE = 80"
definition OWNED_PAGE_TABLE_FRAME_SIZE :: u32 where [const_defs]: "OWNED_PAGE_TABLE_FRAME_SIZE = 16"
definition PAGE_TABLE_HIERARCHY_VERSION :: u16 where [const_defs]: "PAGE_TABLE_HIERARCHY_VERSION = 1"
definition PAGE_TABLE_STATE_TRANSITIONAL :: u8 where [const_defs]: "PAGE_TABLE_STATE_TRANSITIONAL = 1"
definition PAGE_TABLE_STATE_FINAL :: u8 where [const_defs]: "PAGE_TABLE_STATE_FINAL = 2"
definition PAGE_TABLE_PHYSICAL_CAP :: u64 where [const_defs]: "PAGE_TABLE_PHYSICAL_CAP = 0x400000000000"

record extension_header =
  eh_kind :: u32
  eh_version :: u16
  eh_header_size :: u16
  eh_total_size :: u32
  eh_flags :: u32

record page_table_ownership =
  po_hierarchy_version :: u16
  po_paging_level_count :: u8
  po_state :: u8
  po_page_size :: u32
  po_root_physical_frame :: u64
  po_owned_frame_list_physical_address :: u64
  po_owned_frame_count :: u32
  po_descriptor_stride :: u32
  po_physical_address_cap :: u64
  po_reserved0 :: u64
  po_reserved1 :: u64
  po_reserved2 :: u64

record validated_page_table_ownership =
  vo_raw :: page_table_ownership
  vo_list_byte_length :: u64

record owned_page_table_frame =
  of_physical_frame :: u64
  of_reserved0 :: u64

record extension_summary =
  es_page_table_ownership :: "validated_page_table_ownership option"
  es_extension_count :: u32

datatype extension_error =
    UnsupportedEnvelopeVersion | ExtensionsForbiddenForV1 | TotalSizeMismatch
  | ExtensionAreaMisaligned | TruncatedExtensionHeader | InvalidExtensionHeaderSize
  | InvalidExtensionSize | UnsupportedExtensionFlags | UnknownRequiredExtension
  | UnsupportedPageTableExtensionVersion | DuplicatePageTableOwnership
  | UnsupportedHierarchyVersion | UnsupportedPagingLevelCount | InvalidPageTableState
  | UnsupportedPageSize | InvalidPhysicalAddressCap | InvalidRootFrame
  | InvalidOwnedFrameListAddress | EmptyOwnedFrameList | InvalidOwnedFrameStride
  | OwnedFrameListSizeOverflow | OwnedFrameListRangeOverflow | ExtensionCountOverflow
  | TruncatedPageTableOwnership | ExtReservedNotZero | OwnedFrameCountMismatch
  | OwnedFrameReservedNotZero | UnalignedOwnedFrame | OwnedFrameOutsidePhysicalCap
  | DuplicateOwnedFrame | RootFrameMissingOrDuplicated | OwnedFrameNotReserved

section \<open>Reading\<close>

definition read_u16 :: "u8 list \<Rightarrow> nat \<Rightarrow> (u16, 'e) result" where
  "read_u16 bytes offset =
     and_then (arr_get bytes offset) (\<lambda>b0.
     and_then (arr_get bytes (offset + 1)) (\<lambda>b1. Ok (from_le_bytes [b0, b1])))"

definition read_u32 :: "u8 list \<Rightarrow> nat \<Rightarrow> (u32, 'e) result" where
  "read_u32 bytes offset =
     and_then (arr_get bytes offset) (\<lambda>b0.
     and_then (arr_get bytes (offset + 1)) (\<lambda>b1.
     and_then (arr_get bytes (offset + 2)) (\<lambda>b2.
     and_then (arr_get bytes (offset + 3)) (\<lambda>b3. Ok (from_le_bytes [b0, b1, b2, b3])))))"

definition read_u64 :: "u8 list \<Rightarrow> nat \<Rightarrow> (u64, 'e) result" where
  "read_u64 bytes offset =
     and_then (arr_get bytes offset) (\<lambda>b0.
     and_then (arr_get bytes (offset + 1)) (\<lambda>b1.
     and_then (arr_get bytes (offset + 2)) (\<lambda>b2.
     and_then (arr_get bytes (offset + 3)) (\<lambda>b3.
     and_then (arr_get bytes (offset + 4)) (\<lambda>b4.
     and_then (arr_get bytes (offset + 5)) (\<lambda>b5.
     and_then (arr_get bytes (offset + 6)) (\<lambda>b6.
     and_then (arr_get bytes (offset + 7)) (\<lambda>b7.
     Ok (from_le_bytes [b0, b1, b2, b3, b4, b5, b6, b7])))))))))"

definition parse_extension_header :: "u8 list \<Rightarrow> (extension_header, 'e) result" where
  "parse_extension_header bytes =
     and_then (read_u32 bytes 0) (\<lambda>kind.
     and_then (read_u16 bytes 4) (\<lambda>version.
     and_then (read_u16 bytes 6) (\<lambda>header_size.
     and_then (read_u32 bytes 8) (\<lambda>total_size.
     and_then (read_u32 bytes 12) (\<lambda>flags.
     Ok \<lparr>eh_kind = kind, eh_version = version, eh_header_size = header_size,
         eh_total_size = total_size, eh_flags = flags\<rparr>)))))"

definition parse_page_table_ownership :: "u8 list \<Rightarrow> (page_table_ownership, 'e) result" where
  "parse_page_table_ownership bytes =
     and_then (read_u16 bytes 0) (\<lambda>hierarchy_version.
     and_then (arr_get bytes 2) (\<lambda>paging_level_count.
     and_then (arr_get bytes 3) (\<lambda>state.
     and_then (read_u32 bytes 4) (\<lambda>page_size.
     and_then (read_u64 bytes 8) (\<lambda>root_physical_frame.
     and_then (read_u64 bytes 16) (\<lambda>owned_frame_list_physical_address.
     and_then (read_u32 bytes 24) (\<lambda>owned_frame_count.
     and_then (read_u32 bytes 28) (\<lambda>descriptor_stride.
     and_then (read_u64 bytes 32) (\<lambda>physical_address_cap.
     and_then (read_u64 bytes 40) (\<lambda>reserved0.
     and_then (read_u64 bytes 48) (\<lambda>reserved1.
     and_then (read_u64 bytes 56) (\<lambda>reserved2.
     Ok \<lparr>po_hierarchy_version = hierarchy_version, po_paging_level_count = paging_level_count,
         po_state = state, po_page_size = page_size, po_root_physical_frame = root_physical_frame,
         po_owned_frame_list_physical_address = owned_frame_list_physical_address,
         po_owned_frame_count = owned_frame_count, po_descriptor_stride = descriptor_stride,
         po_physical_address_cap = physical_address_cap, po_reserved0 = reserved0,
         po_reserved1 = reserved1, po_reserved2 = reserved2\<rparr>))))))))))))"

section \<open>Validation\<close>

definition validate_frame_address :: "u64 \<Rightarrow> u64 \<Rightarrow> (unit, extension_error) result" where
  "validate_frame_address address cap =
     (if address = 0 \<or> \<not> is_multiple_of address MEMORY_PAGE_SIZE
      then Err (if is_multiple_of address MEMORY_PAGE_SIZE then InvalidRootFrame else UnalignedOwnedFrame)
      else
        and_then (ok_or (checked_add address MEMORY_PAGE_SIZE) OwnedFrameOutsidePhysicalCap) (\<lambda>limit.
        if limit > cap then Err OwnedFrameOutsidePhysicalCap else Ok ()))"

definition po_validate ::
    "page_table_ownership \<Rightarrow> (validated_page_table_ownership, extension_error) result" where
  "po_validate o' =
     (if po_hierarchy_version o' \<noteq> PAGE_TABLE_HIERARCHY_VERSION then Err UnsupportedHierarchyVersion
      else if po_paging_level_count o' \<noteq> 4 then Err UnsupportedPagingLevelCount
      else if po_state o' \<noteq> PAGE_TABLE_STATE_TRANSITIONAL \<and> po_state o' \<noteq> PAGE_TABLE_STATE_FINAL
      then Err InvalidPageTableState
      else if po_page_size o' \<noteq> ucast MEMORY_PAGE_SIZE then Err UnsupportedPageSize
      else if po_physical_address_cap o' \<noteq> PAGE_TABLE_PHYSICAL_CAP then Err InvalidPhysicalAddressCap
      else
        and_then (validate_frame_address (po_root_physical_frame o') (po_physical_address_cap o')) (\<lambda>_.
        if po_owned_frame_list_physical_address o' = 0
          \<or> \<not> is_multiple_of (po_owned_frame_list_physical_address o') 8
        then Err InvalidOwnedFrameListAddress
        else if po_owned_frame_count o' = 0 then Err EmptyOwnedFrameList
        else if po_descriptor_stride o' < OWNED_PAGE_TABLE_FRAME_SIZE
          \<or> \<not> is_multiple_of (po_descriptor_stride o') 8
        then Err InvalidOwnedFrameStride
        else
          and_then (ok_or (checked_mul (ucast (po_owned_frame_count o')) (ucast (po_descriptor_stride o')))
              OwnedFrameListSizeOverflow) (\<lambda>list_byte_length.
          and_then (ok_or (checked_add (po_owned_frame_list_physical_address o') list_byte_length)
              OwnedFrameListRangeOverflow) (\<lambda>list_end.
          if list_end > po_physical_address_cap o' then Err InvalidOwnedFrameListAddress
          else if po_reserved0 o' \<noteq> 0 \<or> po_reserved1 o' \<noteq> 0 \<or> po_reserved2 o' \<noteq> 0
          then Err ExtReservedNotZero
          else Ok \<lparr>vo_raw = o', vo_list_byte_length = list_byte_length\<rparr>))))"

text \<open>
  One record of the area: the header's checks, and what the record's kind does to the ownership
  found so far. The result is the end of the record and the new ownership.
\<close>

definition extension_record ::
    "u8 list \<Rightarrow> nat \<Rightarrow> validated_page_table_ownership option
     \<Rightarrow> (nat \<times> validated_page_table_ownership option, extension_error) result" where
  "extension_record bytes offset ownership =
     and_then (ok_or (usize_add offset (unat EXTENSION_HEADER_SIZE)) InvalidExtensionSize) (\<lambda>header_end.
     if header_end > length bytes then Err TruncatedExtensionHeader
     else
       and_then (and_then (slice bytes offset header_end) parse_extension_header) (\<lambda>h.
       if eh_header_size h \<noteq> EXTENSION_HEADER_SIZE then Err InvalidExtensionHeaderSize
       else if eh_total_size h < ucast (eh_header_size h) \<or> \<not> is_multiple_of (eh_total_size h) 8
       then Err InvalidExtensionSize
       else if eh_flags h AND NOT EXTENSION_FLAG_REQUIRED \<noteq> 0 then Err UnsupportedExtensionFlags
       else
         and_then (ok_or (usize_add offset (unat (eh_total_size h))) InvalidExtensionSize) (\<lambda>record_end.
         if record_end > length bytes then Err InvalidExtensionSize
         else
           and_then
             (if eh_kind h = EXTENSION_KIND_PAGE_TABLE_OWNERSHIP then
                (if eh_version h \<noteq> EXTENSION_VERSION_1 then
                   (if eh_flags h AND EXTENSION_FLAG_REQUIRED \<noteq> 0
                    then Err UnsupportedPageTableExtensionVersion else Ok ownership)
                 else if eh_total_size h \<noteq> PAGE_TABLE_OWNERSHIP_SIZE then Err TruncatedPageTableOwnership
                 else if ownership \<noteq> None then Err DuplicatePageTableOwnership
                 else
                   and_then (and_then (slice bytes header_end record_end) parse_page_table_ownership) (\<lambda>raw.
                   and_then (po_validate raw) (\<lambda>v. Ok (Some v))))
              else if eh_flags h AND EXTENSION_FLAG_REQUIRED \<noteq> 0 then Err UnknownRequiredExtension
              else Ok ownership) (\<lambda>ownership'.
           Ok (record_end, ownership')))))"

lemma extension_record_advances:
  assumes "extension_record bytes offset ownership = Ok (record_end, ownership')"
  shows "offset + 16 \<le> record_end \<and> record_end \<le> length bytes"
  using assms
  by (auto simp: extension_record_def guard_outcome const_defs word_nat)

text \<open>The loop advances by at least one header per record.\<close>

function extension_loop ::
    "u8 list \<Rightarrow> nat \<Rightarrow> u32 \<Rightarrow> validated_page_table_ownership option
     \<Rightarrow> (extension_summary, extension_error) result" where
  "extension_loop bytes offset extension_count ownership =
     (if \<not> offset < length bytes
      then Ok \<lparr>es_page_table_ownership = ownership, es_extension_count = extension_count\<rparr>
      else
        and_then (extension_record bytes offset ownership) (\<lambda>(record_end, ownership').
        and_then (ok_or (checked_add extension_count 1) ExtensionCountOverflow) (\<lambda>extension_count'.
        extension_loop bytes record_end extension_count' ownership')))"
  by pat_completeness auto
termination
  by (relation "measure (\<lambda>(bytes, offset, _, _). length bytes - offset)")
    (auto dest: extension_record_advances)

declare extension_loop.simps [simp del]

definition validate_extension_area ::
    "u16 \<Rightarrow> u16 \<Rightarrow> u32 \<Rightarrow> u8 list \<Rightarrow> (extension_summary, extension_error) result" where
  "validate_extension_area abi_major abi_minor declared_total_size bytes =
     and_then (ok_or (u32_try_from (length bytes)) TotalSizeMismatch) (\<lambda>len.
     and_then (ok_or (checked_add BOOT_INFO_SIZE len) TotalSizeMismatch) (\<lambda>expected_total.
     if declared_total_size \<noteq> expected_total then Err TotalSizeMismatch
     else if abi_major = ABI_MAJOR then
       (if declared_total_size \<noteq> BOOT_INFO_SIZE \<or> bytes \<noteq> [] then Err ExtensionsForbiddenForV1
        else Ok \<lparr>es_page_table_ownership = None, es_extension_count = 0\<rparr>)
     else if abi_major \<noteq> BOOT_ENVELOPE_ABI_MAJOR then Err UnsupportedEnvelopeVersion
     else if length bytes mod 8 \<noteq> 0 then Err ExtensionAreaMisaligned
     else extension_loop bytes 0 0 None))"

text \<open>
  The memory map's descriptors are validated before their sizes are multiplied, so that the
  source's unchecked multiplication and addition cannot overflow; on words they are the same.
\<close>

definition frame_reserved :: "memory_descriptor list \<Rightarrow> u64 \<Rightarrow> bool" where
  "frame_reserved memory_map frame \<longleftrightarrow>
     list_ex (\<lambda>d. \<not> (md_kind d \<noteq> MEMORY_KIND_PAGE_TABLE \<or> \<not> is_ok (md_validate d))
       \<and> (let len = md_page_count d * MEMORY_PAGE_SIZE
          in md_physical_start d \<le> frame \<and> frame < md_physical_start d + len)) memory_map"

definition check_owned_table_frame ::
    "page_table_ownership \<Rightarrow> owned_page_table_frame list \<Rightarrow> memory_descriptor list \<Rightarrow> u32
     \<Rightarrow> nat \<times> owned_page_table_frame \<Rightarrow> (u32, extension_error) result" where
  "check_owned_table_frame ownership frames memory_map root_count = (\<lambda>(index, frame).
     if of_reserved0 frame \<noteq> 0 then Err OwnedFrameReservedNotZero
     else
       and_then (validate_frame_address (of_physical_frame frame) (po_physical_address_cap ownership)) (\<lambda>_.
       and_then (slice frames 0 index) (\<lambda>earlier.
       if list_ex (\<lambda>previous. of_physical_frame previous = of_physical_frame frame) earlier
       then Err DuplicateOwnedFrame
       else
         let root_count' = (if of_physical_frame frame = po_root_physical_frame ownership
                            then root_count + 1 else root_count)
         in if \<not> frame_reserved memory_map (of_physical_frame frame) then Err OwnedFrameNotReserved
            else Ok root_count')))"

definition validate_page_table_frames ::
    "validated_page_table_ownership \<Rightarrow> owned_page_table_frame list \<Rightarrow> memory_descriptor list
     \<Rightarrow> (unit, extension_error) result" where
  "validate_page_table_frames ownership frames memory_map =
     (if length frames \<noteq> unat (po_owned_frame_count (vo_raw ownership)) then Err OwnedFrameCountMismatch
      else
        and_then (try_fold (check_owned_table_frame (vo_raw ownership) frames memory_map) 0
          (zip [0 ..< length frames] frames)) (\<lambda>root_count.
        if root_count \<noteq> 1 then Err RootFrameMissingOrDuplicated else Ok ()))"

section \<open>The grammar of the area\<close>

lemma to_from_le_bytes:
  assumes "LENGTH('a) = 8 * length bs"
  shows "to_le_bytes (length bs) (from_le_bytes bs :: 'a::len word) = bs"
proof (rule nth_equalityI)
  fix i assume "i < length (to_le_bytes (length bs) (from_le_bytes bs :: 'a word))"
  then have i: "i < length bs" by simp
  show "to_le_bytes (length bs) (from_le_bytes bs :: 'a word) ! i = bs ! i"
  proof (rule bit_word_eqI)
    fix j assume j: "j < LENGTH(8)"
    have "(8 * i + j) div 8 = i" "(8 * i + j) mod 8 = j" using j by auto
    then show "bit (to_le_bytes (length bs) (from_le_bytes bs :: 'a word) ! i) j = bit (bs ! i) j"
      using i j assms by (simp add: to_le_bytes_def bit_simps bit_from_le_bytes)
  qed
qed simp

lemma read_in_range:
  "offset + 2 \<le> length bytes \<Longrightarrow> read_u16 bytes offset = Ok (from_le_bytes (take 2 (drop offset bytes)))"
  "offset + 4 \<le> length bytes \<Longrightarrow> read_u32 bytes offset = Ok (from_le_bytes (take 4 (drop offset bytes)))"
  "offset + 8 \<le> length bytes \<Longrightarrow> read_u64 bytes offset = Ok (from_le_bytes (take 8 (drop offset bytes)))"
proof -
  have "take 2 (drop offset bytes) = [bytes ! offset, bytes ! (offset + 1)]" if "offset + 2 \<le> length bytes"
    using that by (intro nth_equalityI) (auto simp: less_Suc_eq numeral_eq_Suc)
  then show "offset + 2 \<le> length bytes \<Longrightarrow> read_u16 bytes offset = Ok (from_le_bytes (take 2 (drop offset bytes)))"
    by (simp add: read_u16_def)
  have "take 4 (drop offset bytes) 
      = [bytes ! offset, bytes ! (offset + 1), bytes ! (offset + 2), bytes ! (offset + 3)]" if "offset + 4 \<le> length bytes"
    using that by (intro nth_equalityI) (auto simp: less_Suc_eq numeral_eq_Suc)
  then show "offset + 4 \<le> length bytes \<Longrightarrow> read_u32 bytes offset = Ok (from_le_bytes (take 4 (drop offset bytes)))"
    by (simp add: read_u32_def)
  have "take 8 (drop offset bytes) 
      = [bytes ! offset, bytes ! (offset + 1), bytes ! (offset + 2), bytes ! (offset + 3), bytes ! (offset + 4), bytes ! (offset + 5), bytes ! (offset + 6), bytes ! (offset + 7)]" if "offset + 8 \<le> length bytes"
    using that by (intro nth_equalityI) (auto simp: less_Suc_eq numeral_eq_Suc)
  then show "offset + 8 \<le> length bytes \<Longrightarrow> read_u64 bytes offset = Ok (from_le_bytes (take 8 (drop offset bytes)))"
    by (simp add: read_u64_def)
qed

text \<open>The bytes of a header, and the header that sixteen bytes hold.\<close>

definition header_bytes :: "extension_header \<Rightarrow> u8 list" where
  "header_bytes h = to_le_bytes 4 (eh_kind h) @ to_le_bytes 2 (eh_version h) @ to_le_bytes 2 (eh_header_size h)
     @ to_le_bytes 4 (eh_total_size h) @ to_le_bytes 4 (eh_flags h)"

lemma length_header_bytes [simp]: "length (header_bytes h) = 16"
  by (simp add: header_bytes_def)

lemma parse_header_bytes [simp]: "parse_extension_header (header_bytes h) = Ok h"
  by (cases h) (simp add: parse_extension_header_def header_bytes_def read_in_range from_to_le_bytes)

lemma take_drop_join: "take n (drop k xs) @ drop (k + n) xs = drop k xs"
  by (metis add.commute append_take_drop_id drop_drop)

lemma header_bytes_parse:
  assumes "length bs = 16"
  obtains h where "parse_extension_header bs = Ok h" "header_bytes h = bs"
proof -
  let ?h = "\<lparr>eh_kind = from_le_bytes (take 4 bs), eh_version = from_le_bytes (take 2 (drop 4 bs)),
    eh_header_size = from_le_bytes (take 2 (drop 6 bs)), eh_total_size = from_le_bytes (take 4 (drop 8 bs)),
    eh_flags = from_le_bytes (take 4 (drop 12 bs))\<rparr>"
  have "parse_extension_header bs = Ok ?h"
    using assms by (simp add: parse_extension_header_def read_in_range)
  moreover have "header_bytes ?h = take 4 bs @ take 2 (drop 4 bs) @ take 2 (drop 6 bs) @ take 4 (drop 8 bs) @ take 4 (drop 12 bs)"
    using assms to_from_le_bytes [of "take 4 bs", where 'a = 32] to_from_le_bytes [of "take 2 (drop 4 bs)", where 'a = 16]
      to_from_le_bytes [of "take 2 (drop 6 bs)", where 'a = 16] to_from_le_bytes [of "take 4 (drop 8 bs)", where 'a = 32]
      to_from_le_bytes [of "take 4 (drop 12 bs)", where 'a = 32]
    by (simp add: header_bytes_def)
  moreover have "\<dots> = bs"
    using take_drop_join [of 4 0 bs] take_drop_join [of 2 4 bs] take_drop_join [of 2 6 bs]
      take_drop_join [of 4 8 bs] assms
    by simp

  ultimately show thesis using that by metis
qed

lemma flag_values: "f AND NOT EXTENSION_FLAG_REQUIRED = 0 \<longleftrightarrow> f = 0 \<or> f = 1"
proof
  assume "f AND NOT EXTENSION_FLAG_REQUIRED = 0"
  then have "f = f AND EXTENSION_FLAG_REQUIRED"
    by (metis bit.conj_disj_distrib bit.disj_cancel_right and.right_neutral or.right_neutral)
  then have "unat f = unat f mod 2" by (simp add: const_defs and_one_eq word_eq_nat unat_mod_distrib)
  then have "unat f < 2" using mod_less_divisor [of 2 "unat f"] by linarith
  then have "unat f = 0 \<or> unat f = 1" by auto
  then show "f = 0 \<or> f = 1" by (simp add: word_eq_nat)
qed (auto simp: const_defs)

definition record_wf :: "extension_header \<times> u8 list \<Rightarrow> bool" where
  "record_wf = (\<lambda>(h, body). eh_header_size h = 16 \<and> unat (eh_total_size h) = 16 + length body
     \<and> length body mod 8 = 0 \<and> eh_flags h \<in> {0, 1})"

definition record_effect ::
    "extension_header \<times> u8 list \<Rightarrow> validated_page_table_ownership option
     \<Rightarrow> (validated_page_table_ownership option, extension_error) result" where
  "record_effect = (\<lambda>(h, body) ownership.
     if eh_kind h = 1 \<and> eh_version h = 1 then
       (if length body \<noteq> 64 then Err TruncatedPageTableOwnership
        else if ownership \<noteq> None then Err DuplicatePageTableOwnership
        else and_then (parse_page_table_ownership body) (\<lambda>raw. and_then (po_validate raw) (\<lambda>v. Ok (Some v))))
     else if eh_flags h = 0 then Ok ownership
     else Err (if eh_kind h = 1 then UnsupportedPageTableExtensionVersion else UnknownRequiredExtension))"

definition record_image :: "extension_header \<times> u8 list \<Rightarrow> u8 list" where
  "record_image = (\<lambda>(h, body). header_bytes h @ body)"

lemma record_body_effect:
  assumes "record_wf (h, body)"
  shows "(if eh_kind h = EXTENSION_KIND_PAGE_TABLE_OWNERSHIP then
            (if eh_version h \<noteq> EXTENSION_VERSION_1 then
               (if eh_flags h AND EXTENSION_FLAG_REQUIRED \<noteq> 0
                then Err UnsupportedPageTableExtensionVersion else Ok ownership)
             else if eh_total_size h \<noteq> PAGE_TABLE_OWNERSHIP_SIZE then Err TruncatedPageTableOwnership
             else if ownership \<noteq> None then Err DuplicatePageTableOwnership
             else
               and_then (parse_page_table_ownership body) (\<lambda>raw.
               and_then (po_validate raw) (\<lambda>v. Ok (Some v))))
          else if eh_flags h AND EXTENSION_FLAG_REQUIRED \<noteq> 0 then Err UnknownRequiredExtension
          else Ok ownership) = record_effect (h, body) ownership"
proof -
  have "eh_total_size h = 80 \<longleftrightarrow> length body = 64" "eh_flags h = 0 \<or> eh_flags h = 1"
    using assms by (auto simp: record_wf_def word_eq_nat)
  then show ?thesis by (auto simp: record_effect_def const_defs)
qed

lemma extension_record_image:
  assumes "record_wf r" and "length xs + length (record_image r) + length zs < 2 ^ 64"
  shows "extension_record (xs @ record_image r @ zs) (length xs) ownership
    = and_then (record_effect r ownership) (\<lambda>o'. Ok (length xs + length (record_image r), o'))"
proof -
  obtain h body where r: "r = (h, body)" by (cases r)
  have wf: "eh_header_size h = 16" "unat (eh_total_size h) = 16 + length body" "length body mod 8 = 0"
      "eh_flags h AND NOT EXTENSION_FLAG_REQUIRED = 0"
    using assms(1) by (auto simp: r record_wf_def flag_values)
  have "(16 + length body) mod 8 = 0" using wf(3) by presburger
  then show ?thesis
    unfolding r record_body_effect [OF assms(1) [unfolded r], symmetric]
    using wf assms(2)
    by (simp add: r extension_record_def record_image_def usize_add_def const_defs word_nat)
qed


lemma extension_record_split:
  assumes "extension_record bytes offset ownership = Ok (record_end, o')" and "length bytes < 2 ^ 64"
  obtains r zs where "record_wf r" "drop offset bytes = record_image r @ zs"
    "record_end = offset + length (record_image r)" "offset \<le> length bytes"
proof -
  have le: "offset + 16 \<le> length bytes"
    using assms(1) by (auto simp: extension_record_def guard_outcome const_defs)
  obtain h where h: "parse_extension_header (take 16 (drop offset bytes)) = Ok h"
      "header_bytes h = take 16 (drop offset bytes)"
    using header_bytes_parse [of "take 16 (drop offset bytes)"] le by auto
  let ?n = "unat (eh_total_size h) - 16"
  have "parse_extension_header (take 16 (drop offset bytes)) = (Ok h :: (_, extension_error) result)"
    using h(2) parse_header_bytes [of h] by simp
  then have wf: "eh_header_size h = 16" "16 \<le> unat (eh_total_size h)" "unat (eh_total_size h) mod 8 = 0"
    "eh_flags h AND NOT EXTENSION_FLAG_REQUIRED = 0" "record_end = offset + unat (eh_total_size h)"
    "offset + unat (eh_total_size h) \<le> length bytes"
    using assms le
    by (auto simp: extension_record_def guard_outcome const_defs usize_add_def word_nat split: if_splits)
  show thesis
  proof (rule that)
    show "record_wf (h, take ?n (drop (offset + 16) bytes))"
      using wf by (auto simp: record_wf_def flag_values mod_eq_0_iff_dvd dvd_diff_nat)
    show "drop offset bytes = record_image (h, take ?n (drop (offset + 16) bytes)) @ drop record_end bytes"
      using wf take_drop_join [of 16 offset bytes] take_drop_join [of ?n "offset + 16" bytes]
      by (simp add: record_image_def h(2))
    show "record_end = offset + length (record_image (h, take ?n (drop (offset + 16) bytes)))"
      using wf by (simp add: record_image_def)
    show "offset \<le> length bytes" using le by simp
  qed
qed


definition area_holds ::
    "u8 list \<Rightarrow> validated_page_table_ownership option \<Rightarrow> (extension_header \<times> u8 list) list
     \<Rightarrow> validated_page_table_ownership option \<Rightarrow> bool" where
  "area_holds bytes ownership rs ownership' \<longleftrightarrow> bytes = concat (map record_image rs)
     \<and> (\<forall>r \<in> set rs. record_wf r) \<and> try_fold (\<lambda>ow r. record_effect r ow) ownership rs = Ok ownership'"

lemma record_image_length: "16 \<le> length (record_image r)"
  by (simp add: record_image_def split: prod.splits)

lemma record_at:
  assumes "record_wf r" "drop offset bytes = record_image r @ zs" "length bytes < 2 ^ 64" "offset \<le> length bytes"
  shows "extension_record bytes offset ownership
    = and_then (record_effect r ownership) (\<lambda>o'. Ok (offset + length (record_image r), o'))"
    and "drop (offset + length (record_image r)) bytes = zs" "offset < length bytes"
proof -
  have b: "bytes = take offset bytes @ record_image r @ zs" using assms(2) by (metis append_take_drop_id)
  have len: "length bytes = offset + length (record_image r) + length zs"
    using arg_cong [OF assms(2), of length] assms(4) by simp
  have "length (take offset bytes) = offset" using assms(4) by simp
  then show "extension_record bytes offset ownership
    = and_then (record_effect r ownership) (\<lambda>o'. Ok (offset + length (record_image r), o'))"
    using extension_record_image [OF assms(1), of "take offset bytes" zs ownership] b len assms(3) by simp
  show "drop (offset + length (record_image r)) bytes = zs"
    using assms(2) by (metis add.commute append_eq_conv_conj drop_drop)
  show "offset < length bytes" using len record_image_length [of r] by linarith
qed

lemma extension_loop_sound:
  assumes "extension_loop bytes offset c ownership = Ok s" "length bytes < 2 ^ 64" "offset \<le> length bytes"
  shows "\<exists>rs. area_holds (drop offset bytes) ownership rs (es_page_table_ownership s)
       \<and> unat (es_extension_count s) = unat c + length rs"
  using assms
proof (induction bytes offset c ownership rule: extension_loop.induct)
  case (1 bytes offset c ownership)
  show ?case
  proof (cases "offset < length bytes")
    case False
    then have "s = \<lparr>es_page_table_ownership = ownership, es_extension_count = c\<rparr>"
      using "1.prems"(1) by (subst (asm) extension_loop.simps) auto
    then show ?thesis using False by (intro exI [of _ "[]"]) (simp add: area_holds_def)
  next
    case True
    then obtain e o' c' where rec: "extension_record bytes offset ownership = Ok (e, o')"
        and c': "ok_or (checked_add c 1) ExtensionCountOverflow = Ok c'" "extension_loop bytes e c' o' = Ok s"
      using "1.prems"(1) by (subst (asm) extension_loop.simps) (auto simp del: checked_add_Some)
    obtain r zs where r: "record_wf r" "drop offset bytes = record_image r @ zs" "e = offset + length (record_image r)"
      by (rule extension_record_split [OF rec "1.prems"(2)])
    note at = record_at [OF r(1,2) "1.prems"(2,3)]
    obtain rs where "area_holds (drop e bytes) o' rs (es_page_table_ownership s)"
        "unat (es_extension_count s) = unat c' + length rs"
      using "1.IH" [OF _ rec _ c'(1)] True c'(2) "1.prems"(2) extension_record_advances [OF rec] by auto
    then show ?thesis
      using r at(2) c'(1) rec unfolding at(1) by (intro exI [of _ "r # rs"]) (auto simp: area_holds_def)
  qed
qed

lemma extension_loop_complete:
  assumes "area_holds (drop offset bytes) ownership rs ownership'" "unat c' = unat c + length rs"
    and "length bytes < 2 ^ 64" "offset \<le> length bytes"
  shows "extension_loop bytes offset c ownership
    = Ok \<lparr>es_page_table_ownership = ownership', es_extension_count = c'\<rparr>"
  using assms
proof (induction rs arbitrary: offset c ownership)
  case Nil
  then show ?case by (subst extension_loop.simps) (auto simp: area_holds_def word_eq_nat)
next
  case (Cons r rs)
  have r: "record_wf r" "drop offset bytes = record_image r @ concat (map record_image rs)"
    using Cons.prems(1) by (auto simp: area_holds_def)
  note at = record_at [OF this Cons.prems(3,4)]
  obtain o' where o': "record_effect r ownership = Ok o'"
      "area_holds (drop (offset + length (record_image r)) bytes) o' rs ownership'"
    using Cons.prems(1) at(2) by (auto simp: area_holds_def)
  have le: "offset + length (record_image r) \<le> length bytes"
    using arg_cong [OF r(2), of length] Cons.prems(4) by simp
  obtain d where d: "checked_add c 1 = Some d" "unat d = unat c + 1"
    using Cons.prems(2) unat_bound [of c'] by (auto simp: checked_add_def unat_word_ariths)
  have "extension_loop bytes (offset + length (record_image r)) d o'
      = Ok \<lparr>es_page_table_ownership = ownership', es_extension_count = c'\<rparr>"
    using Cons.IH [OF o'(2) _ Cons.prems(3) le] d(2) Cons.prems(2) by simp
  then show ?case
    using at(1,3) o'(1) d(1) by (subst extension_loop.simps) (simp del: checked_add_Some)
qed

definition is_ownership :: "extension_header \<times> u8 list \<Rightarrow> bool" where
  "is_ownership r \<longleftrightarrow> eh_kind (fst r) = 1 \<and> eh_version (fst r) = 1"

definition decode_ownership ::
    "extension_header \<times> u8 list \<Rightarrow> (validated_page_table_ownership, extension_error) result" where
  "decode_ownership r =
     (if length (snd r) \<noteq> 64 then Err TruncatedPageTableOwnership
      else and_then (parse_page_table_ownership (snd r)) po_validate)"

text \<open>The ownership found in a sequence of records, and that everything else in it is optional.\<close>

definition found_ownership ::
    "(extension_header \<times> u8 list) list \<Rightarrow> validated_page_table_ownership option \<Rightarrow> bool" where
  "found_ownership rs found \<longleftrightarrow>
     list_all (\<lambda>r. is_ownership r \<or> eh_flags (fst r) = 0) rs \<and>
     (case filter is_ownership rs of
        [] \<Rightarrow> found = None
      | [r] \<Rightarrow> (\<exists>v. decode_ownership r = Ok v \<and> found = Some v)
      | _ \<Rightarrow> False)"

lemma record_effect_Ok:
  "record_effect r ownership = Ok o' \<longleftrightarrow>
     (if is_ownership r then ownership = None \<and> (\<exists>v. decode_ownership r = Ok v \<and> o' = Some v)
      else eh_flags (fst r) = 0 \<and> o' = ownership)"
  by (cases r) (auto simp: record_effect_def is_ownership_def decode_ownership_def guard_outcome)

lemma records_effect_Some:
  "try_fold (\<lambda>ow r. record_effect r ow) (Some v) rs = Ok o' \<longleftrightarrow>
     list_all (\<lambda>r. \<not> is_ownership r \<and> eh_flags (fst r) = 0) rs \<and> o' = Some v"
  by (induction rs) (auto simp: record_effect_Ok)

lemma records_effect_None:
  "try_fold (\<lambda>ow r. record_effect r ow) None rs = Ok o' \<longleftrightarrow> found_ownership rs o'"
proof (induction rs)
  case (Cons r rs)
  have "filter is_ownership rs = [] \<longleftrightarrow> list_all (\<lambda>r. \<not> is_ownership r) rs"
    by (induction rs) auto
  moreover have "list_all (\<lambda>r. \<not> is_ownership r \<and> eh_flags (fst r) = 0) rs \<longleftrightarrow>
      list_all (\<lambda>r. \<not> is_ownership r) rs \<and> list_all (\<lambda>r. is_ownership r \<or> eh_flags (fst r) = 0) rs"
    by (induction rs) auto
  ultimately show ?case using Cons.IH
    by (auto simp: record_effect_Ok records_effect_Some found_ownership_def split: list.splits)
qed (auto simp: found_ownership_def)

section \<open>Ownership records\<close>

definition ownership_bytes :: "page_table_ownership \<Rightarrow> u8 list" where
  "ownership_bytes p =
     to_le_bytes 2 (po_hierarchy_version p) @ [po_paging_level_count p, po_state p]
     @ to_le_bytes 4 (po_page_size p) @ to_le_bytes 8 (po_root_physical_frame p)
     @ to_le_bytes 8 (po_owned_frame_list_physical_address p) @ to_le_bytes 4 (po_owned_frame_count p)
     @ to_le_bytes 4 (po_descriptor_stride p) @ to_le_bytes 8 (po_physical_address_cap p)
     @ to_le_bytes 8 (po_reserved0 p) @ to_le_bytes 8 (po_reserved1 p) @ to_le_bytes 8 (po_reserved2 p)"

lemma parse_ownership_bytes: "parse_page_table_ownership (ownership_bytes p) = Ok p"
  by (cases p)
    (simp add: parse_page_table_ownership_def ownership_bytes_def read_in_range from_to_le_bytes
      nth_append nth_Cons' arr_get_def)

definition frame_ok :: "u64 \<Rightarrow> u64 \<Rightarrow> bool" where
  "frame_ok cap a \<longleftrightarrow> a \<noteq> 0 \<and> unat a mod 4096 = 0 \<and> unat a + 4096 \<le> unat cap"

lemma validate_frame_address_Ok: "validate_frame_address a cap = Ok u \<longleftrightarrow> frame_ok cap a"
  using unat_bound [of cap]
  by (auto simp: validate_frame_address_def frame_ok_def guard_outcome const_defs word_nat not_less
      ex_unat_conj [of _ "\<lambda>n. n \<le> unat cap"])

definition po_ok :: "page_table_ownership \<Rightarrow> bool" where
  "po_ok p \<longleftrightarrow> po_hierarchy_version p = 1 \<and> po_paging_level_count p = 4 \<and> po_state p \<in> {1, 2}
     \<and> po_page_size p = 4096 \<and> po_physical_address_cap p = 0x400000000000
     \<and> frame_ok 0x400000000000 (po_root_physical_frame p)
     \<and> po_owned_frame_list_physical_address p \<noteq> 0 \<and> unat (po_owned_frame_list_physical_address p) mod 8 = 0
     \<and> po_owned_frame_count p \<noteq> 0 \<and> 16 \<le> unat (po_descriptor_stride p)
     \<and> unat (po_descriptor_stride p) mod 8 = 0
     \<and> unat (po_owned_frame_list_physical_address p)
         + unat (po_owned_frame_count p) * unat (po_descriptor_stride p) \<le> 2 ^ 46
     \<and> po_reserved0 p = 0 \<and> po_reserved1 p = 0 \<and> po_reserved2 p = 0"

lemma po_validate_Ok:
  "po_validate p = Ok v \<longleftrightarrow> po_ok p \<and> vo_raw v = p
     \<and> unat (vo_list_byte_length v) = unat (po_owned_frame_count p) * unat (po_descriptor_stride p)"
  by (cases v)
    (auto simp: po_validate_def po_ok_def guard_outcome const_defs word_nat not_less
      validate_frame_address_Ok ex_unat_conj [of _ "\<lambda>n. n \<le> 70368744177664"])

text \<open>The frame checks, with the frames and the root they are about.\<close>

definition page_table_memory :: "memory_descriptor list \<Rightarrow> u64 \<Rightarrow> bool" where
  "page_table_memory memory_map a \<longleftrightarrow> (\<exists>d \<in> set memory_map. md_ok d \<and> md_kind d = MEMORY_KIND_PAGE_TABLE
     \<and> unat (md_physical_start d) \<le> unat a
     \<and> unat a < unat (md_physical_start d) + unat (md_page_count d) * 4096)"

lemma frame_reserved_iff: "frame_reserved memory_map a \<longleftrightarrow> page_table_memory memory_map a"
proof -
  have "a < md_physical_start d + md_page_count d * 4096 \<longleftrightarrow>
      unat a < unat (md_physical_start d) + unat (md_page_count d) * 4096" if "md_ok d" for d
  proof -
    have n: "unat (md_physical_start d) + unat (md_page_count d) * 4096 < 2 ^ 64" using that by (simp add: md_ok_def)
    then show ?thesis by (simp add: word_less_nat_alt unat_word_ariths)
  qed
  moreover have "is_ok (md_validate d) \<longleftrightarrow> md_ok d" for d by (simp add: is_ok_iff md_validate_outcome)
  ultimately show ?thesis
    by (auto simp: frame_reserved_def page_table_memory_def list_ex_iff const_defs word_le_nat_alt)
qed

definition owned_frame_ok ::
    "page_table_ownership \<Rightarrow> memory_descriptor list \<Rightarrow> owned_page_table_frame \<Rightarrow> bool" where
  "owned_frame_ok p memory_map f \<longleftrightarrow> of_reserved0 f = 0
     \<and> frame_ok (po_physical_address_cap p) (of_physical_frame f)
     \<and> page_table_memory memory_map (of_physical_frame f)"

lemma check_owned_table_frame_Ok:
  assumes "index \<le> length frames"
  shows "check_owned_table_frame p frames memory_map n (index, f) = Ok m \<longleftrightarrow>
    owned_frame_ok p memory_map f \<and> of_physical_frame f \<notin> of_physical_frame ` set (take index frames)
    \<and> m = (if of_physical_frame f = po_root_physical_frame p then n + 1 else n)"
  using assms
  by (auto simp: check_owned_table_frame_def owned_frame_ok_def guard_outcome validate_frame_address_Ok
      frame_reserved_iff list_ex_iff Let_def image_iff)

lemma owned_frame_loop:
  assumes "k \<le> length frames"
  shows "try_fold (check_owned_table_frame p frames memory_map) 0 (zip [0 ..< k] (take k frames)) = Ok m \<longleftrightarrow>
    (\<forall>f \<in> set (take k frames). owned_frame_ok p memory_map f)
    \<and> distinct (map of_physical_frame (take k frames))
    \<and> m = (if po_root_physical_frame p \<in> of_physical_frame ` set (take k frames) then 1 else 0)"
  using assms
proof (induction k arbitrary: m)
  case (Suc k)
  then have k: "k < length frames" by simp
  have "zip [0 ..< Suc k] (take (Suc k) frames) = zip [0 ..< k] (take k frames) @ [(k, frames ! k)]"
    using k by (simp add: take_Suc_conv_app_nth)
  then show ?case
    using Suc k by (auto simp: try_fold_append check_owned_table_frame_Ok take_Suc_conv_app_nth)
qed auto

lemma extension_area_Ok:
  "validate_extension_area major minor declared bytes = Ok s \<longleftrightarrow>
     unat declared = 128 + length bytes \<and>
     (major = 1 \<and> bytes = [] \<and> s = \<lparr>es_page_table_ownership = None, es_extension_count = 0\<rparr>
      \<or> major = 2 \<and> length bytes mod 8 = 0 \<and>
        (\<exists>rs. bytes = concat (map record_image rs) \<and> list_all record_wf rs
           \<and> found_ownership rs (es_page_table_ownership s) \<and> unat (es_extension_count s) = length rs))"
proof -
  have loop: "extension_loop bytes 0 0 None = Ok s \<longleftrightarrow>
      (\<exists>rs. bytes = concat (map record_image rs) \<and> list_all record_wf rs
         \<and> found_ownership rs (es_page_table_ownership s) \<and> unat (es_extension_count s) = length rs)"
    if "length bytes < 2 ^ 32"
    using extension_loop_sound [of bytes 0 0 None s] extension_loop_complete [of 0 bytes None _ "es_page_table_ownership s" "es_extension_count s" 0] that
    by (cases s) (auto simp: area_holds_def records_effect_None list_all_iff)
  have size: "(\<exists>len. u32_try_from (length bytes) = Some len \<and> checked_add 128 len = Some declared)
      \<longleftrightarrow> unat declared = 128 + length bytes"
    using unat_bound [of declared] by (auto simp: u32_try_from_def unat_of_nat)
  have u64: "length bytes < 2 ^ 32" if "unat declared = 128 + length bytes"
    using that unat_bound [of declared] by simp
  have unfolded: "validate_extension_area major minor declared bytes = Ok s \<longleftrightarrow>
      (\<exists>len. u32_try_from (length bytes) = Some len \<and> checked_add 128 len = Some declared) \<and>
      (major = 1 \<and> declared = 128 \<and> bytes = [] \<and> s = \<lparr>es_page_table_ownership = None, es_extension_count = 0\<rparr>
       \<or> major = 2 \<and> length bytes mod 8 = 0 \<and> extension_loop bytes 0 0 None = Ok s)"
    by (auto simp: validate_extension_area_def guard_outcome const_defs simp del: checked_add_Some)
  have "declared = 128" if "unat declared = 128" using that by (simp add: word_eq_nat)
  then show ?thesis unfolding unfolded size using loop u64 by auto
qed

section \<open>Properties\<close>

text \<open>
  The parser reads only bytes it has checked to be there: no header, body or area makes it panic.
\<close>

lemma read_no_panic:
  "offset + 2 \<le> length bytes \<Longrightarrow> (read_u16 bytes offset :: (_, 'x) result) \<noteq> Panic"
  "offset + 4 \<le> length bytes \<Longrightarrow> (read_u32 bytes offset :: (_, 'x) result) \<noteq> Panic"
  "offset + 8 \<le> length bytes \<Longrightarrow> (read_u64 bytes offset :: (_, 'x) result) \<noteq> Panic"
  by (simp_all add: read_in_range)

lemma parse_no_panic:
  "16 \<le> length bytes \<Longrightarrow> (parse_extension_header bytes :: (_, 'x) result) \<noteq> Panic"
  "64 \<le> length bytes \<Longrightarrow> (parse_page_table_ownership bytes :: (_, 'x) result) \<noteq> Panic"
  by (simp_all add: parse_extension_header_def parse_page_table_ownership_def read_no_panic)

lemma po_validate_no_panic: "po_validate raw \<noteq> Panic"
  by (simp add: po_validate_def validate_frame_address_def guard_outcome)

lemma extension_record_no_panic:
  "extension_record bytes offset ownership \<noteq> Panic"
  by (auto simp: extension_record_def guard_outcome parse_no_panic po_validate_no_panic const_defs word_nat
      word_eq_nat not_less split: if_splits)

lemma extension_loop_no_panic: "extension_loop bytes offset n ownership \<noteq> Panic"
proof (induction bytes offset n ownership rule: extension_loop.induct)
  case (1 bytes offset n ownership)
  then show ?case
    by (subst extension_loop.simps) (auto simp: extension_record_no_panic simp del: checked_add_Some)
qed

text \<open>
  C31. The extension parser terminates on every byte area, with a summary or an error and never
  with a panic, and it accepts exactly the areas of the documented grammar. For version 1 the area
  is empty. For version 2 it is a sequence of well-formed records, each a 16-byte header and a body
  whose size the header gives; at most one of them is a page-table ownership record, which must be
  valid; every other record must be optional. The summary counts the records and holds the
  ownership. The declared size is the block's size plus the area's.
\<close>
theorem extension_area_grammar:
  "validate_extension_area major minor declared bytes \<noteq> Panic
   \<and> (validate_extension_area major minor declared bytes = Ok s \<longleftrightarrow>
     unat declared = 128 + length bytes \<and>
     (major = 1 \<and> bytes = [] \<and> s = \<lparr>es_page_table_ownership = None, es_extension_count = 0\<rparr>
      \<or> major = 2 \<and> length bytes mod 8 = 0 \<and>
        (\<exists>rs. bytes = concat (map record_image rs) \<and> list_all record_wf rs
           \<and> found_ownership rs (es_page_table_ownership s) \<and> unat (es_extension_count s) = length rs)))"
proof
  show "validate_extension_area major minor declared bytes \<noteq> Panic"
    by (simp add: validate_extension_area_def guard_outcome extension_loop_no_panic)
qed (rule extension_area_Ok)

text \<open>
  C32. An encoded ownership record is read back: the area that holds just the record's header and
  the encoded ownership parses to that ownership, validated, whether the record is required or not.
\<close>
theorem ownership_record_roundtrip:
  assumes "po_ok p" and "flags \<in> {0, 1}"
  shows "\<exists>v. vo_raw v = p \<and> validate_extension_area 2 minor 208
      (record_image (\<lparr>eh_kind = 1, eh_version = 1, eh_header_size = 16, eh_total_size = 80, eh_flags = flags\<rparr>,
        ownership_bytes p)) = Ok \<lparr>es_page_table_ownership = Some v, es_extension_count = 1\<rparr>"
proof -
  let ?r = "(\<lparr>eh_kind = 1, eh_version = 1, eh_header_size = 16, eh_total_size = 80, eh_flags = flags\<rparr>, ownership_bytes p)"
  have len: "length (ownership_bytes p) = 64" by (simp add: ownership_bytes_def)
  obtain n :: u64 where "unat n = unat (po_owned_frame_count p) * unat (po_descriptor_stride p)"
    using assms(1) ex_unat [where 'a = 64] by (fastforce simp: po_ok_def)
  then obtain v where v: "po_validate p = Ok v" "vo_raw v = p"
    using assms(1) po_validate_Ok [of p "\<lparr>vo_raw = p, vo_list_byte_length = n\<rparr>"] by auto
  have "record_wf ?r" using assms(2) len by (auto simp: record_wf_def)
  moreover have "found_ownership [?r] (Some v)"
    using v(1) len by (simp add: found_ownership_def is_ownership_def decode_ownership_def parse_ownership_bytes)
  ultimately have "validate_extension_area 2 minor 208 (record_image ?r)
      = Ok \<lparr>es_page_table_ownership = Some v, es_extension_count = 1\<rparr>"
    unfolding extension_area_Ok
    by (intro conjI disjI2 exI [of _ "[?r]"]) (simp_all add: record_image_def len)
  then show ?thesis using v(2) by blast
qed

definition sample_ownership :: page_table_ownership where
  "sample_ownership = \<lparr>po_hierarchy_version = 1, po_paging_level_count = 4, po_state = 1, po_page_size = 4096,
     po_root_physical_frame = 0x100000, po_owned_frame_list_physical_address = 0x9000,
     po_owned_frame_count = 2, po_descriptor_stride = 16, po_physical_address_cap = 0x400000000000,
     po_reserved0 = 0, po_reserved1 = 0, po_reserved2 = 0\<rparr>"

theorem ownership_record_roundtrip_witness:
  "po_ok sample_ownership \<and> (\<exists>v. vo_raw v = sample_ownership \<and> validate_extension_area 2 0 208
      (record_image (\<lparr>eh_kind = 1, eh_version = 1, eh_header_size = 16, eh_total_size = 80, eh_flags = 1\<rparr>,
        ownership_bytes sample_ownership)) = Ok \<lparr>es_page_table_ownership = Some v, es_extension_count = 1\<rparr>)"
proof -
  have "po_ok sample_ownership" by (simp add: po_ok_def sample_ownership_def frame_ok_def)
  then show ?thesis using ownership_record_roundtrip [of sample_ownership 1 0] by simp
qed

text \<open>
  C33. The owned page-table frames are accepted exactly when their number is the announced one,
  they are pairwise different, each is a nonzero page-aligned frame below the physical limit that
  lies in a valid page-table descriptor of the memory map, their reserved words are zero, and the
  announced root is one of them.
\<close>
theorem page_table_frames_correct:
  "validate_page_table_frames ownership frames memory_map = Ok () \<longleftrightarrow>
     length frames = unat (po_owned_frame_count (vo_raw ownership))
     \<and> list_all (owned_frame_ok (vo_raw ownership) memory_map) frames
     \<and> distinct (map of_physical_frame frames)
     \<and> po_root_physical_frame (vo_raw ownership) \<in> of_physical_frame ` set frames"
  using owned_frame_loop [of "length frames" frames "vo_raw ownership" memory_map]
  by (auto simp: validate_page_table_frames_def guard_outcome list_all_iff)

end
