(* ===== verification/Kernel_Validation.thy ===== *)
theory Kernel_Validation
  imports Boot_Protocol
begin

text \<open>
  The kernel's checks of what the loader hands over (\<^verbatim>\<open>crates/kernel/src/lib.rs\<close>): the entry
  registers and the stack, the canary, and the boot-information block together with its memory
  map, in which every range the kernel occupies must be covered by descriptors that are not
  usable memory.
\<close>

definition STACK_BYTES :: u64 where [const_defs]: "STACK_BYTES = 64 * 1024"
definition STACK_CANARY :: u64 where [const_defs]: "STACK_CANARY = 0x554e4f535354414b"

record handoff_inputs =
  hi_boot_info_address :: u64
  hi_stack_bottom :: u64
  hi_stack_top :: u64
  hi_entry_rsp :: u64

record kernel_range =
  kr_start :: u64
  kr_end :: u64

datatype kernel_validation_error =
  KvPointer | KvStack | KvBootInfo | KvMapShape | KvDescriptor | KvUsableReservation

definition validate_handoff_inputs :: "handoff_inputs \<Rightarrow> (unit, kernel_validation_error) result" where
  "validate_handoff_inputs input =
     (if hi_boot_info_address input = 0 \<or> \<not> is_multiple_of (hi_boot_info_address input) 8
      then Err KvPointer
      else if \<not> is_multiple_of (hi_stack_bottom input) 4096 \<or> \<not> is_multiple_of (hi_stack_top input) 16
        \<or> hi_entry_rsp input \<noteq> hi_stack_top input
      then Err KvStack
      else if checked_sub (hi_stack_top input) (hi_stack_bottom input) \<noteq> Some STACK_BYTES
      then Err KvStack
      else Ok ())"

definition validate_canary :: "u64 \<Rightarrow> (unit, kernel_validation_error) result" where
  "validate_canary observed = (if observed = STACK_CANARY then Ok () else Err KvStack)"

text \<open>The closure of the search: a descriptor whose end overflows ends at zero, and covers nothing.\<close>

definition covers_cursor :: "u64 \<Rightarrow> memory_descriptor \<Rightarrow> bool" where
  "covers_cursor cursor item =
     (let limit = (case checked_add (md_physical_start item) (saturating_mul (md_page_count item) 4096) of
                     Some e \<Rightarrow> e | None \<Rightarrow> 0)
      in md_physical_start item \<le> cursor \<and> cursor < limit)"

definition descriptor_end :: "memory_descriptor \<Rightarrow> (u64, kernel_validation_error) result" where
  "descriptor_end d =
     and_then (ok_or (checked_mul (md_page_count d) 4096) KvDescriptor) (\<lambda>bytes.
     ok_or (checked_add (md_physical_start d) bytes) KvDescriptor)"

lemma saturating_mul_exact: "checked_mul a b = Some c \<Longrightarrow> saturating_mul a b = c"
  by (simp add: checked_mul_def saturating_mul_def del: checked_mul_Some split: if_splits)

lemma covers_cursor_iff:
  assumes "descriptor_end d = Ok e"
  shows "covers_cursor cursor d \<longleftrightarrow> md_physical_start d \<le> cursor \<and> cursor < e"
proof -
  obtain bytes where "checked_mul (md_page_count d) 4096 = Some bytes"
      and e: "checked_add (md_physical_start d) bytes = Some e"
    using assms unfolding descriptor_end_def by (auto simp del: checked_mul_Some checked_add_Some)
  from saturating_mul_exact [OF this(1)] e show ?thesis
    by (simp add: covers_cursor_def del: checked_add_Some)
qed

lemma find_covers:
  assumes "List.find (covers_cursor cursor) descriptors = Some d" and "descriptor_end d = Ok e"
  shows "d \<in> set descriptors" "md_physical_start d \<le> cursor" "cursor < e"
  using find_SomeD [OF assms(1)] by (simp_all add: covers_cursor_iff [OF assms(2)])

function covered_from ::
    "u64 \<Rightarrow> memory_descriptor list \<Rightarrow> u64 \<Rightarrow> (bool, kernel_validation_error) result" where
  "covered_from range_end descriptors cursor =
     (if \<not> cursor < range_end then Ok True
      else
        case List.find (covers_cursor cursor) descriptors of
          None \<Rightarrow> Ok False
        | Some d \<Rightarrow>
            if md_kind d = MEMORY_KIND_USABLE then Ok False
            else and_then (descriptor_end d) (\<lambda>e. covered_from range_end descriptors (min e range_end)))"
  by pat_completeness auto
termination
proof (relation "measure (\<lambda>(range_end, _, cursor). unat range_end - unat cursor)")
qed (auto dest: find_covers(3) simp: word_less_nat_alt min_def word_le_nat_alt)

declare covered_from.simps [simp del]

definition covered_non_usable ::
    "kernel_range \<Rightarrow> memory_descriptor list \<Rightarrow> (bool, kernel_validation_error) result" where
  "covered_non_usable r descriptors = covered_from (kr_end r) descriptors (kr_start r)"

definition check_reserved ::
    "memory_descriptor list \<Rightarrow> kernel_range \<Rightarrow> (unit, kernel_validation_error) result" where
  "check_reserved descriptors r =
     (if kr_start r \<ge> kr_end r then Err KvUsableReservation
      else and_then (covered_non_usable r descriptors) (\<lambda>covered.
        if \<not> covered then Err KvUsableReservation else Ok ()))"

definition validate_boot_state ::
    "boot_info \<Rightarrow> memory_descriptor list \<Rightarrow> kernel_range list \<Rightarrow> (unit, kernel_validation_error) result" where
  "validate_boot_state boot descriptors reserved =
     and_then (map_err (\<lambda>_. KvBootInfo) (bi_validate boot)) (\<lambda>_.
     let m = bi_memory_map boot in
     if mm_descriptor_stride m \<noteq> MEMORY_DESCRIPTOR_SIZE
       \<or> unat (mm_descriptor_count m) \<noteq> length descriptors
     then Err KvMapShape
     else
       and_then (ok_or (checked_mul (mm_descriptor_count m) (ucast MEMORY_DESCRIPTOR_SIZE)) KvMapShape)
         (\<lambda>bytes.
       if mm_byte_length m \<noteq> bytes then Err KvMapShape
       else
         and_then (try_fold (\<lambda>_ d. and_then (map_err (\<lambda>_. KvDescriptor) (md_validate d)) (\<lambda>_. Ok ()))
           () descriptors) (\<lambda>_.
         try_fold (\<lambda>_. check_reserved descriptors) () reserved)))"

section \<open>Coverage\<close>

definition md_covers :: "memory_descriptor \<Rightarrow> u64 \<Rightarrow> bool" where
  "md_covers d a \<longleftrightarrow> unat (md_physical_start d) \<le> unat a
     \<and> unat a < unat (md_physical_start d) + unat (md_page_count d) * 4096"

definition reserved_at :: "memory_descriptor list \<Rightarrow> u64 \<Rightarrow> bool" where
  "reserved_at ds a \<longleftrightarrow> (\<exists>d \<in> set ds. md_kind d \<noteq> MEMORY_KIND_USABLE \<and> md_covers d a)"

definition md_disjoint :: "memory_descriptor list \<Rightarrow> bool" where
  "md_disjoint ds \<longleftrightarrow> (\<forall>d \<in> set ds. \<forall>d' \<in> set ds. \<forall>a. md_covers d a \<longrightarrow> md_covers d' a \<longrightarrow> d = d')"

lemma descriptor_end_Ok:
  assumes "md_ok d"
  obtains e where "descriptor_end d = Ok e"
    "unat e = unat (md_physical_start d) + unat (md_page_count d) * 4096"
proof -
  have "\<exists>bytes :: u64. unat bytes = unat (md_page_count d) * 4096"
    "\<exists>e :: u64. unat e = unat (md_physical_start d) + unat (md_page_count d) * 4096"
    using assms by (auto simp: ex_unat md_ok_def)
  then obtain bytes e :: u64 where n: "unat bytes = unat (md_page_count d) * 4096"
    "unat e = unat (md_physical_start d) + unat (md_page_count d) * 4096" by blast
  then have "descriptor_end d = Ok e" by (auto simp: descriptor_end_def intro!: exI [of _ bytes])
  then show thesis using that n(2) by blast
qed

lemma covers_cursor_md:
  assumes "md_ok d"
  shows "covers_cursor a d \<longleftrightarrow> md_covers d a"
  by (rule descriptor_end_Ok [OF assms])
    (simp add: covers_cursor_iff md_covers_def word_less_nat_alt word_le_nat_alt)

lemma covered_step:
  assumes ok: "\<forall>d \<in> set ds. md_ok d" and d: "List.find (covers_cursor c) ds = Some d"
  obtains e where "descriptor_end d = Ok e" "md_ok d" "d \<in> set ds" "md_covers d c" "c < e"
    "\<forall>a. c \<le> a \<longrightarrow> a < e \<longrightarrow> md_covers d a"
proof -
  have "d \<in> set ds" "covers_cursor c d" using find_SomeD [OF d] by auto
  then have d: "d \<in> set ds" "md_ok d" "md_covers d c" using ok covers_cursor_md by auto
  obtain e where e: "descriptor_end d = Ok e"
      "unat e = unat (md_physical_start d) + unat (md_page_count d) * 4096"
    by (rule descriptor_end_Ok [OF d(2)])
  show thesis
    using that [OF e(1) d(2,1,3)] d(3) e(2)
    by (auto simp: md_covers_def word_less_nat_alt word_le_nat_alt)
qed

lemma covered_from_sound:
  assumes "\<forall>d \<in> set ds. md_ok d" and "covered_from e ds c = Ok True" and "c \<le> a" and "a < e"
  shows "reserved_at ds a"
  using assms
proof (induction e ds c rule: covered_from.induct)
  case (1 e ds c)
  have c: "c < e" using "1.prems"(3,4) by (rule le_less_trans)
  then obtain d where d: "List.find (covers_cursor c) ds = Some d" "md_kind d \<noteq> MEMORY_KIND_USABLE"
    using "1.prems"(2) by (subst (asm) covered_from.simps) (auto split: option.splits if_splits)
  obtain l where l: "descriptor_end d = Ok l" "d \<in> set ds" "\<forall>a. c \<le> a \<longrightarrow> a < l \<longrightarrow> md_covers d a"
    by (rule covered_step [OF "1.prems"(1) d(1)])
  have rest: "covered_from e ds (min l e) = Ok True"
    using "1.prems"(2) c d l(1) by (subst (asm) covered_from.simps) simp
  show ?case
  proof (cases "a < l")
    case True
    then show ?thesis using l d(2) "1.prems"(3) by (auto simp: reserved_at_def)
  next
    case False
    have "min l e \<le> a" using False by (simp add: min_le_iff_disj not_less)
    then show ?thesis using "1.IH" [OF _ d(1) d(2) l(1)] c "1.prems"(1,4) rest by simp
  qed
qed

lemma covered_from_outcome:
  assumes "\<forall>d \<in> set ds. md_ok d"
  shows "\<exists>b. covered_from e ds c = Ok b"
  using assms
proof (induction e ds c rule: covered_from.induct)
  case (1 e ds c)
  show ?case
  proof (cases "List.find (covers_cursor c) ds")
    case (Some d)
    obtain l where l: "descriptor_end d = Ok l" by (rule covered_step [OF "1.prems" Some])
    then show ?thesis using "1.IH" [OF _ Some _ l] "1.prems" Some by (subst covered_from.simps) auto
  qed (subst covered_from.simps, auto)
qed

lemma covered_from_complete:
  assumes "\<forall>d \<in> set ds. md_ok d" and "md_disjoint ds"
    and "\<And>a. c \<le> a \<Longrightarrow> a < e \<Longrightarrow> reserved_at ds a"
  shows "covered_from e ds c = Ok True"
  using assms
proof (induction e ds c rule: covered_from.induct)
  case (1 e ds c)
  show ?case
  proof (cases "c < e")
    case True
    then obtain d' where d': "d' \<in> set ds" "md_kind d' \<noteq> MEMORY_KIND_USABLE" "md_covers d' c"
      using "1.prems"(3) [of c] by (auto simp: reserved_at_def)
    then have "\<exists>d. List.find (covers_cursor c) ds = Some d"
      using "1.prems"(1) covers_cursor_md by (auto simp: find_None_iff simp flip: not_None_eq)
    then obtain d where d: "List.find (covers_cursor c) ds = Some d" ..
    obtain l where l: "descriptor_end d = Ok l" "d \<in> set ds" "md_covers d c" "c < l"
      by (rule covered_step [OF "1.prems"(1) d])
    have kind: "md_kind d \<noteq> MEMORY_KIND_USABLE" using "1.prems"(2) d' l by (auto simp: md_disjoint_def)
    have "c \<le> min l e" using l(4) True by (simp add: less_imp_le)
    then have "reserved_at ds a" if "min l e \<le> a" "a < e" for a
      using "1.prems"(3) that order_trans by blast
    then have "covered_from e ds (min l e) = Ok True"
      using "1.IH" [OF _ d kind l(1)] True "1.prems"(1,2) by blast
    then show ?thesis using True d l(1) kind by (subst covered_from.simps) simp
  qed (subst covered_from.simps, simp)
qed


section \<open>Properties\<close>

definition boot_state_shape :: "boot_info \<Rightarrow> memory_descriptor list \<Rightarrow> bool" where
  "boot_state_shape boot ds \<longleftrightarrow> is_ok (bi_validate boot) \<and> mm_descriptor_stride (bi_memory_map boot) = 32
     \<and> unat (mm_descriptor_count (bi_memory_map boot)) = length ds \<and> (\<forall>d \<in> set ds. md_ok d)"

lemma validate_boot_state_Ok:
  "validate_boot_state boot ds rs = Ok () \<longleftrightarrow> boot_state_shape boot ds \<and>
     (\<forall>r \<in> set rs. kr_start r < kr_end r \<and> covered_non_usable r ds = Ok True)"
proof -
  have bytes: "(mm_byte_length m \<noteq> b \<longleftrightarrow> False)"
    if "mm_ok m" "mm_descriptor_stride m = 32" "unat b = unat (mm_descriptor_count m) * 32" for m b
    using that by (simp add: mm_ok_def word_eq_nat)
  have size: "\<exists>b :: u64. unat b = unat (mm_descriptor_count m) * 32"
    if "mm_ok m" "mm_descriptor_stride m = 32" for m
    using that by (intro exI [of _ "mm_byte_length m"]) (simp add: mm_ok_def)
  have reserved: "check_reserved ds r = Ok () \<longleftrightarrow> kr_start r < kr_end r \<and> covered_non_usable r ds = Ok True" for r
    by (auto simp: check_reserved_def guard_outcome)
  show ?thesis
    using bytes [of "bi_memory_map boot"] size [of "bi_memory_map boot"]
    by (auto simp: validate_boot_state_def boot_state_shape_def Let_def guard_outcome try_fold_unit_Ok
        md_validate_outcome reserved const_defs is_ok_iff bi_validate_Ok)
qed

text \<open>
  C29. The kernel accepts a boot state only when every address of every range it occupies lies in
  a descriptor that is not usable memory, however the descriptors overlap. On a memory map
  without overlaps, and with a well-formed block and well-formed descriptors, it accepts exactly
  those. The coverage search always ends.
\<close>
theorem kernel_ranges_reserved:
  "(validate_boot_state boot ds rs = Ok () \<longrightarrow> boot_state_shape boot ds
      \<and> (\<forall>r \<in> set rs. kr_start r < kr_end r \<and> (\<forall>a. kr_start r \<le> a \<longrightarrow> a < kr_end r \<longrightarrow> reserved_at ds a)))
   \<and> (md_disjoint ds \<and> boot_state_shape boot ds
      \<and> (\<forall>r \<in> set rs. kr_start r < kr_end r \<and> (\<forall>a. kr_start r \<le> a \<longrightarrow> a < kr_end r \<longrightarrow> reserved_at ds a))
      \<longrightarrow> validate_boot_state boot ds rs = Ok ())"
  unfolding validate_boot_state_Ok covered_non_usable_def boot_state_shape_def
  using covered_from_sound covered_from_complete by blast

definition sample_boot :: boot_info where
  "sample_boot = BootInfo_new
     \<lparr>mm_physical_address = 0x5000, mm_descriptor_count = 2, mm_descriptor_stride = 32,
      mm_descriptor_version = 1, mm_reserved0 = 0, mm_byte_length = 64, mm_reserved1 = 0\<rparr>
     \<lparr>fb_physical_address = 0x80000000, fb_byte_length = 0x300000, fb_width = 1024, fb_height = 768,
      fb_pixels_per_scanline = 1024, fb_pixel_format = 1, fb_reserved0 = 0\<rparr>"

definition sample_map :: "memory_descriptor list" where
  "sample_map =
     [\<lparr>md_kind = 5, md_reserved0 = 0, md_physical_start = 0x200000, md_page_count = 16, md_attributes = 0\<rparr>,
      \<lparr>md_kind = 1, md_reserved0 = 0, md_physical_start = 0x210000, md_page_count = 16, md_attributes = 0\<rparr>]"

theorem kernel_ranges_reserved_witness:
  "validate_boot_state sample_boot sample_map [\<lparr>kr_start = 0x200000, kr_end = 0x208000\<rparr>] = Ok ()"
proof -
  have "is_ok (bi_validate sample_boot)"
    by (simp add: is_ok_iff bi_validate_Ok sample_boot_def BootInfo_new_def header_ok_def mm_ok_def
        fb_ok_def required_bytes_of_def const_defs word_le_nat_alt ex_unat)
  then have "boot_state_shape sample_boot sample_map"
    by (simp add: boot_state_shape_def sample_boot_def BootInfo_new_def sample_map_def md_ok_def)
  moreover have "md_disjoint sample_map"
    by (auto simp: md_disjoint_def sample_map_def md_covers_def)
  moreover have "reserved_at sample_map a" if "0x200000 \<le> a" "a < 0x208000" for a
    using that by (auto simp: reserved_at_def sample_map_def md_covers_def const_defs word_nat)
  ultimately show ?thesis
    using kernel_ranges_reserved [of sample_boot sample_map "[\<lparr>kr_start = 0x200000, kr_end = 0x208000\<rparr>]"]
    by (simp add: word_less_nat_alt)
qed

text \<open>
  C30. The entry checks separate three cases by the address of the boot-information block and by
  the stack. A block address that is zero or not 8-byte aligned is a pointer error, whatever the
  stack is. With a good block address, the inputs are accepted exactly when the stack is the 64 KiB
  range, without wrap-around, that starts at a page boundary and ends at the stack pointer, so that
  the stack is still empty; a stack pointer anywhere else, also an aligned one inside the stack, is
  a stack error. An accepted stack pointer is 16-byte aligned. The canary check accepts exactly the
  canary.
\<close>
theorem handoff_inputs_correct:
  "(validate_handoff_inputs i = Err KvPointer \<longleftrightarrow>
      hi_boot_info_address i = 0 \<or> \<not> 8 dvd unat (hi_boot_info_address i))
   \<and> (validate_handoff_inputs i = Ok () \<longleftrightarrow>
      hi_boot_info_address i \<noteq> 0 \<and> 8 dvd unat (hi_boot_info_address i)
      \<and> 4096 dvd unat (hi_stack_bottom i) \<and> unat (hi_stack_top i) = unat (hi_stack_bottom i) + 65536
      \<and> hi_entry_rsp i = hi_stack_top i)
   \<and> validate_handoff_inputs i \<in> {Ok (), Err KvPointer, Err KvStack}
   \<and> (validate_handoff_inputs i = Ok () \<longrightarrow> 16 dvd unat (hi_entry_rsp i))
   \<and> validate_canary c = (if c = STACK_CANARY then Ok () else Err KvStack)"
proof -
  have "16 dvd unat (hi_stack_bottom i) + 65536" if "4096 dvd unat (hi_stack_bottom i)"
    using that dvd_trans [of 16 4096 "unat (hi_stack_bottom i)"] by (simp add: dvd_add)
  then show ?thesis
    by (auto simp: validate_handoff_inputs_def validate_canary_def guard_outcome word_nat const_defs)
qed

theorem handoff_inputs_correct_witness:
  "validate_handoff_inputs \<lparr>hi_boot_info_address = 0x9000, hi_stack_bottom = 0x100000, hi_stack_top = 0x110000,
     hi_entry_rsp = 0x110000\<rparr> = Ok () \<and> 16 dvd unat (0x110000 :: u64)
   \<and> validate_handoff_inputs \<lparr>hi_boot_info_address = 0x9000, hi_stack_bottom = 0x100000, hi_stack_top = 0x110000,
     hi_entry_rsp = 0x10fff0\<rparr> = Err KvStack"
  using handoff_inputs_correct [of "\<lparr>hi_boot_info_address = 0x9000, hi_stack_bottom = 0x100000,
      hi_stack_top = 0x110000, hi_entry_rsp = 0x110000\<rparr>"]
    handoff_inputs_correct [of "\<lparr>hi_boot_info_address = 0x9000, hi_stack_bottom = 0x100000,
      hi_stack_top = 0x110000, hi_entry_rsp = 0x10fff0\<rparr>"]
  by auto

end
