(* ===== verification/Kernel_Image.thy ===== *)
theory Kernel_Image
  imports Rust_Prelude
begin

text \<open>
  Validation of the ELF64 kernel image (\<^verbatim>\<open>crates/kernel-image/src/lib.rs\<close>): raw headers, the checks
  of the program and section tables, the load segments, and the two image profiles (identity
  mapped bootstrap image, higher-half image). An unchecked addition of the source is an addition
  that panics on overflow.
\<close>

section \<open>Constants, errors and raw data\<close>

definition ELF_HEADER_SIZE :: u16 where [const_defs]: "ELF_HEADER_SIZE = 64"
definition PROGRAM_HEADER_SIZE :: u16 where [const_defs]: "PROGRAM_HEADER_SIZE = 56"
definition SECTION_HEADER_SIZE :: u16 where [const_defs]: "SECTION_HEADER_SIZE = 64"
definition MAX_PROGRAM_HEADERS :: u16 where [const_defs]: "MAX_PROGRAM_HEADERS = 128"
definition BOOTSTRAP_LINK_ADDRESS :: u64 where [const_defs]: "BOOTSTRAP_LINK_ADDRESS = 0x00200000"
definition BOOTSTRAP_PAGE_SIZE :: u64 where [const_defs]: "BOOTSTRAP_PAGE_SIZE = 4096"
definition ELF_BOOTSTRAP_PHYSICAL_END :: u64 where [const_defs]: "ELF_BOOTSTRAP_PHYSICAL_END = 0x04200000"
definition HIGHER_HALF_VIRTUAL_OFFSET :: u64 where
  [const_defs]: "HIGHER_HALF_VIRTUAL_OFFSET = 0xffffffff80000000"
definition HIGHER_HALF_LINK_ADDRESS :: u64 where
  [const_defs]: "HIGHER_HALF_LINK_ADDRESS = 0xffffffff80200000"
definition KERNEL_IMAGE_VIRTUAL_START :: u64 where
  [const_defs]: "KERNEL_IMAGE_VIRTUAL_START = 0xffffffff80000000"
definition KERNEL_IMAGE_VIRTUAL_END :: u64 where
  [const_defs]: "KERNEL_IMAGE_VIRTUAL_END = 0xffffffffc0000000"
definition PT_LOAD :: u32 where [const_defs]: "PT_LOAD = 1"
definition PT_DYNAMIC :: u32 where [const_defs]: "PT_DYNAMIC = 2"
definition PT_INTERP :: u32 where [const_defs]: "PT_INTERP = 3"
definition PT_TLS :: u32 where [const_defs]: "PT_TLS = 7"
definition PF_EXECUTE :: u32 where [const_defs]: "PF_EXECUTE = 1"
definition PF_WRITE :: u32 where [const_defs]: "PF_WRITE = 2"
definition PF_READ :: u32 where [const_defs]: "PF_READ = 4"
definition SHT_SYMTAB :: u32 where [const_defs]: "SHT_SYMTAB = 2"
definition SHT_RELA :: u32 where [const_defs]: "SHT_RELA = 4"
definition SHT_REL :: u32 where [const_defs]: "SHT_REL = 9"
definition SHT_DYNSYM :: u32 where [const_defs]: "SHT_DYNSYM = 11"
definition ELF64_SYMBOL_SIZE :: u64 where [const_defs]: "ELF64_SYMBOL_SIZE = 24"

datatype elf_error =
    HeaderTooSmall | ElfBadMagic | UnsupportedClass | UnsupportedEndianness | UnsupportedIdentVersion
  | UnsupportedOsAbi | UnsupportedObjectType | UnsupportedMachine | UnsupportedElfVersion
  | ElfInvalidHeaderSize | InvalidProgramHeaderSize | TooManyProgramHeaders
  | ProgramHeaderTableOverflow | ProgramHeaderTableOutsideFile | InvalidSectionHeaderSize
  | SectionHeaderTableOverflow | SectionHeaderTableOutsideFile | RuntimeRelocations
  | InterpreterSegment | DynamicSegment | TlsSegment | NoLoadSegments | ZeroLengthLoadSegment
  | FileSizeExceedsMemorySize | SegmentFileRangeOverflow | SegmentOutsideFile
  | SegmentMemoryRangeOverflow | ElfInvalidAlignment | InvalidOffsetAddressCongruence
  | WritableExecutableSegment | NonCanonicalAddress | PhysicalVirtualAddressMismatch
  | OverlappingLoadSegments | OverlappingVirtualLoadSegments | EntryOutsideExecutableSegment
  | InvalidPageSize | InvalidSymbolTable | UndefinedRuntimeSymbol

datatype bootstrap_validation_error =
    BsElf elf_error | BsUnexpectedEntry | BsUnexpectedLoadStart | BsMisalignedLoadSegment
  | BsMissingExecuteSegment | BsMissingReadOnlySegment | BsMissingWritableSegment | BsMissingBss

datatype higher_half_validation_error =
    HhElf elf_error | HhUnexpectedEntry | UnexpectedPhysicalStart | UnexpectedVirtualStart
  | HhMisalignedLoadSegment | PhysicalOutsideBootstrapWindow | VirtualOutsideKernelRegion
  | InconsistentTranslationOffset | InvalidSegmentPermissions | HhMissingExecuteSegment
  | HhMissingReadOnlySegment | HhMissingWritableSegment | HhMissingBss
  | EntryTranslationOverflow | EntryWithoutPhysicalBacking | SpanOverflow

record raw_header =
  rh_class :: u8
  rh_endianness :: u8
  rh_ident_version :: u8
  rh_os_abi :: u8
  rh_object_type :: u16
  rh_machine :: u16
  rh_elf_version :: u32
  rh_entry :: u64
  rh_program_header_offset :: u64
  rh_section_header_offset :: u64
  rh_header_size :: u16
  rh_program_header_size :: u16
  rh_program_header_count :: u16
  rh_section_header_size :: u16
  rh_section_header_count :: u16

record raw_program_header =
  ph_segment_type :: u32
  ph_flags :: u32
  ph_file_offset :: u64
  ph_virtual_address :: u64
  ph_physical_address :: u64
  ph_file_size :: u64
  ph_memory_size :: u64
  ph_alignment :: u64

record raw_image =
  ri_bytes :: "u8 list"
  ri_header :: raw_header

record load_segment =
  ls_file_offset :: u64
  ls_file_size :: u64
  ls_memory_size :: u64
  ls_physical_address :: u64
  ls_virtual_address :: u64
  ls_alignment :: u64
  ls_flags :: u32

record validated_image =
  vi_raw :: raw_image
  vi_load_count :: u16
  vi_load_start :: u64
  vi_load_end :: u64
  vi_virtual_load_start :: u64
  vi_virtual_load_end :: u64

record validated_higher_half_image =
  hh_image :: validated_image
  hh_physical_entry :: u64

section \<open>Reading\<close>

definition elf_read_u16 :: "u8 list \<Rightarrow> nat \<Rightarrow> u16 option" where
  "elf_read_u16 bytes offset =
     Option.bind (usize_add offset 2) (\<lambda>limit.
     map_option (\<lambda>value. from_le_bytes [value ! 0, value ! 1]) (slice_get bytes offset limit))"

definition elf_read_u32 :: "u8 list \<Rightarrow> nat \<Rightarrow> u32 option" where
  "elf_read_u32 bytes offset =
     Option.bind (usize_add offset 4) (\<lambda>limit.
     map_option (\<lambda>value. from_le_bytes [value ! 0, value ! 1, value ! 2, value ! 3])
       (slice_get bytes offset limit))"

definition elf_read_u64 :: "u8 list \<Rightarrow> nat \<Rightarrow> u64 option" where
  "elf_read_u64 bytes offset =
     Option.bind (usize_add offset 8) (\<lambda>limit.
     map_option (\<lambda>value. from_le_bytes [value ! 0, value ! 1, value ! 2, value ! 3,
         value ! 4, value ! 5, value ! 6, value ! 7]) (slice_get bytes offset limit))"

definition read_u16_at :: "u8 list \<Rightarrow> u64 \<Rightarrow> u16 option" where
  "read_u16_at bytes offset = elf_read_u16 bytes (unat offset)"

definition read_u32_at :: "u8 list \<Rightarrow> u64 \<Rightarrow> u32 option" where
  "read_u32_at bytes offset = elf_read_u32 bytes (unat offset)"

definition read_u64_at :: "u8 list \<Rightarrow> u64 \<Rightarrow> u64 option" where
  "read_u64_at bytes offset = elf_read_u64 bytes (unat offset)"

definition elf_is_canonical :: "u64 \<Rightarrow> bool" where
  "elf_is_canonical address \<longleftrightarrow> address \<le> 0x00007fffffffffff \<or> address \<ge> 0xffff800000000000"

definition elf_ranges_overlap :: "u64 \<Rightarrow> u64 \<Rightarrow> u64 \<Rightarrow> u64 \<Rightarrow> bool" where
  "elf_ranges_overlap a_start a_end b_start b_end \<longleftrightarrow> a_start < b_end \<and> b_start < a_end"

definition parse_program_header :: "u8 list \<Rightarrow> u64 \<Rightarrow> raw_program_header option" where
  "parse_program_header bytes offset =
     Option.bind (read_u32_at bytes offset) (\<lambda>segment_type.
     Option.bind (Option.bind (checked_add offset 4) (read_u32_at bytes)) (\<lambda>flags.
     Option.bind (Option.bind (checked_add offset 8) (read_u64_at bytes)) (\<lambda>file_offset.
     Option.bind (Option.bind (checked_add offset 16) (read_u64_at bytes)) (\<lambda>virtual_address.
     Option.bind (Option.bind (checked_add offset 24) (read_u64_at bytes)) (\<lambda>physical_address.
     Option.bind (Option.bind (checked_add offset 32) (read_u64_at bytes)) (\<lambda>file_size.
     Option.bind (Option.bind (checked_add offset 40) (read_u64_at bytes)) (\<lambda>memory_size.
     Option.bind (Option.bind (checked_add offset 48) (read_u64_at bytes)) (\<lambda>alignment.
     Some \<lparr>ph_segment_type = segment_type, ph_flags = flags, ph_file_offset = file_offset,
           ph_virtual_address = virtual_address, ph_physical_address = physical_address,
           ph_file_size = file_size, ph_memory_size = memory_size, ph_alignment = alignment\<rparr>))))))))"

definition RawImage_parse :: "u8 list \<Rightarrow> (raw_image, elf_error) result" where
  "RawImage_parse bytes =
     (if length bytes < unat ELF_HEADER_SIZE then Err HeaderTooSmall
      else
        and_then (arr_get bytes 4) (\<lambda>class.
        and_then (arr_get bytes 5) (\<lambda>endianness.
        and_then (arr_get bytes 6) (\<lambda>ident_version.
        and_then (arr_get bytes 7) (\<lambda>os_abi.
        and_then (ok_or (elf_read_u16 bytes 16) HeaderTooSmall) (\<lambda>object_type.
        and_then (ok_or (elf_read_u16 bytes 18) HeaderTooSmall) (\<lambda>machine.
        and_then (ok_or (elf_read_u32 bytes 20) HeaderTooSmall) (\<lambda>elf_version.
        and_then (ok_or (elf_read_u64 bytes 24) HeaderTooSmall) (\<lambda>entry.
        and_then (ok_or (elf_read_u64 bytes 32) HeaderTooSmall) (\<lambda>program_header_offset.
        and_then (ok_or (elf_read_u64 bytes 40) HeaderTooSmall) (\<lambda>section_header_offset.
        and_then (ok_or (elf_read_u16 bytes 52) HeaderTooSmall) (\<lambda>header_size.
        and_then (ok_or (elf_read_u16 bytes 54) HeaderTooSmall) (\<lambda>program_header_size.
        and_then (ok_or (elf_read_u16 bytes 56) HeaderTooSmall) (\<lambda>program_header_count.
        and_then (ok_or (elf_read_u16 bytes 58) HeaderTooSmall) (\<lambda>section_header_size.
        and_then (ok_or (elf_read_u16 bytes 60) HeaderTooSmall) (\<lambda>section_header_count.
        Ok \<lparr>ri_bytes = bytes, ri_header =
          \<lparr>rh_class = class, rh_endianness = endianness, rh_ident_version = ident_version,
           rh_os_abi = os_abi, rh_object_type = object_type, rh_machine = machine,
           rh_elf_version = elf_version, rh_entry = entry,
           rh_program_header_offset = program_header_offset,
           rh_section_header_offset = section_header_offset, rh_header_size = header_size,
           rh_program_header_size = program_header_size,
           rh_program_header_count = program_header_count,
           rh_section_header_size = section_header_size,
           rh_section_header_count = section_header_count\<rparr>\<rparr>))))))))))))))))"

definition program_header :: "raw_image \<Rightarrow> nat \<Rightarrow> raw_program_header option" where
  "program_header raw index =
     (let h = ri_header raw in
      if index \<ge> unat (rh_program_header_count h) then None
      else
        Option.bind (checked_mul (of_nat index) (ucast (rh_program_header_size h))) (\<lambda>relative.
        Option.bind (checked_add (rh_program_header_offset h) relative) (\<lambda>offset.
        parse_program_header (ri_bytes raw) offset)))"

section \<open>Load segments\<close>

definition is_readable :: "load_segment \<Rightarrow> bool" where
  "is_readable s \<longleftrightarrow> ls_flags s AND 4 \<noteq> 0"

definition is_writable :: "load_segment \<Rightarrow> bool" where
  "is_writable s \<longleftrightarrow> ls_flags s AND PF_WRITE \<noteq> 0"

definition is_executable :: "load_segment \<Rightarrow> bool" where
  "is_executable s \<longleftrightarrow> ls_flags s AND PF_EXECUTE \<noteq> 0"

definition segment_page_count :: "load_segment \<Rightarrow> u64 \<Rightarrow> (u64, elf_error) result" where
  "segment_page_count s page_size =
     (if page_size = 0 \<or> \<not> is_power_of_two page_size then Err InvalidPageSize
      else
        and_then (ok_or (checked_add (ls_physical_address s) (ls_memory_size s))
            SegmentMemoryRangeOverflow) (\<lambda>limit.
        and_then (expect (checked_sub limit 1)) (\<lambda>last_byte.
        and_then (expect (checked_sub (last_byte div page_size) (ls_physical_address s div page_size)))
          (\<lambda>difference.
        expect (checked_add difference 1)))))"

definition segment_of :: "raw_program_header \<Rightarrow> load_segment" where
  "segment_of p =
     \<lparr>ls_file_offset = ph_file_offset p, ls_file_size = ph_file_size p,
      ls_memory_size = ph_memory_size p, ls_physical_address = ph_physical_address p,
      ls_virtual_address = ph_virtual_address p, ls_alignment = ph_alignment p, ls_flags = ph_flags p\<rparr>"

text \<open>The iterator ends at the first header that cannot be read.\<close>

fun segments_from :: "raw_image \<Rightarrow> nat list \<Rightarrow> load_segment list" where
  "segments_from raw [] = []"
| "segments_from raw (index # rest) =
     (case program_header raw index of
        None \<Rightarrow> []
      | Some p \<Rightarrow> if ph_segment_type p = PT_LOAD then segment_of p # segments_from raw rest
                  else segments_from raw rest)"

definition load_segments :: "validated_image \<Rightarrow> load_segment list" where
  "load_segments img =
     segments_from (vi_raw img) [0 ..< unat (rh_program_header_count (ri_header (vi_raw img)))]"

definition vi_entry :: "validated_image \<Rightarrow> u64" where
  "vi_entry img = rh_entry (ri_header (vi_raw img))"

section \<open>Validation\<close>

definition validate_magic :: "u8 list \<Rightarrow> (unit, elf_error) result" where
  "validate_magic bytes =
     (if length bytes < 4 then Err HeaderTooSmall
      else if take 4 bytes \<noteq> [0x7f, 0x45, 0x4c, 0x46] then Err ElfBadMagic
      else Ok ())"

definition elf_validate_header :: "raw_header \<Rightarrow> (unit, elf_error) result" where
  "elf_validate_header h =
     (if rh_class h \<noteq> 2 then Err UnsupportedClass
      else if rh_endianness h \<noteq> 1 then Err UnsupportedEndianness
      else if rh_ident_version h \<noteq> 1 then Err UnsupportedIdentVersion
      else if rh_os_abi h \<noteq> 0 then Err UnsupportedOsAbi
      else if rh_object_type h \<noteq> 2 then Err UnsupportedObjectType
      else if rh_machine h \<noteq> 62 then Err UnsupportedMachine
      else if rh_elf_version h \<noteq> 1 then Err UnsupportedElfVersion
      else if rh_header_size h \<noteq> ELF_HEADER_SIZE then Err ElfInvalidHeaderSize
      else if rh_program_header_size h \<noteq> PROGRAM_HEADER_SIZE then Err InvalidProgramHeaderSize
      else if rh_program_header_count h > MAX_PROGRAM_HEADERS then Err TooManyProgramHeaders
      else Ok ())"

definition validate_program_table :: "raw_image \<Rightarrow> (unit, elf_error) result" where
  "validate_program_table raw =
     (let h = ri_header raw in
      and_then (ok_or (checked_mul (ucast (rh_program_header_size h)) (ucast (rh_program_header_count h)))
          ProgramHeaderTableOverflow) (\<lambda>table_size :: u64.
      and_then (ok_or (checked_add (rh_program_header_offset h) table_size) ProgramHeaderTableOverflow)
        (\<lambda>table_end.
      if unat table_end > length (ri_bytes raw) then Err ProgramHeaderTableOutsideFile else Ok ())))"

definition check_symbol :: "u8 list \<Rightarrow> u64 \<Rightarrow> u64 \<Rightarrow> nat \<Rightarrow> (unit, elf_error) result" where
  "check_symbol bytes file_offset entry_size index =
     and_then (ok_or (checked_mul (of_nat index) entry_size) SectionHeaderTableOverflow) (\<lambda>relative.
     and_then (ok_or (checked_add file_offset relative) SectionHeaderTableOverflow) (\<lambda>symbol.
     and_then (expect (checked_add symbol 6)) (\<lambda>position.
     and_then (ok_or (read_u16_at bytes position) SectionHeaderTableOutsideFile) (\<lambda>section_index.
     if section_index = 0 then Err UndefinedRuntimeSymbol else Ok ()))))"

definition validate_symbol_table :: "u8 list \<Rightarrow> u64 \<Rightarrow> u64 \<Rightarrow> (unit, elf_error) result" where
  "validate_symbol_table bytes section_offset section_size =
     and_then (expect (checked_add section_offset 24)) (\<lambda>at.
     and_then (ok_or (read_u64_at bytes at) SectionHeaderTableOutsideFile) (\<lambda>file_offset.
     and_then (expect (checked_add section_offset 56)) (\<lambda>at'.
     and_then (ok_or (read_u64_at bytes at') SectionHeaderTableOutsideFile) (\<lambda>entry_size.
     if entry_size \<noteq> ELF64_SYMBOL_SIZE \<or> \<not> is_multiple_of section_size entry_size
     then Err InvalidSymbolTable
     else
       and_then (ok_or (checked_add file_offset section_size) SectionHeaderTableOverflow) (\<lambda>limit.
       if unat limit > length bytes then Err SectionHeaderTableOutsideFile
       else
         let count = section_size div entry_size in
         try_fold (\<lambda>_. check_symbol bytes file_offset entry_size) () [1 ..< unat count])))))"

definition check_section :: "raw_image \<Rightarrow> nat \<Rightarrow> (unit, elf_error) result" where
  "check_section raw index =
     (let h = ri_header raw in
      and_then (ok_or (checked_mul (of_nat index) (ucast (rh_section_header_size h)))
          SectionHeaderTableOverflow) (\<lambda>relative.
      and_then (ok_or (checked_add (rh_section_header_offset h) relative) SectionHeaderTableOverflow)
        (\<lambda>offset.
      and_then (expect (checked_add offset 4)) (\<lambda>type_at.
      and_then (ok_or (read_u32_at (ri_bytes raw) type_at) SectionHeaderTableOutsideFile) (\<lambda>section_type.
      and_then (expect (checked_add offset 32)) (\<lambda>size_at.
      and_then (ok_or (read_u64_at (ri_bytes raw) size_at) SectionHeaderTableOutsideFile) (\<lambda>section_size.
      if (section_type = SHT_REL \<or> section_type = SHT_RELA) \<and> section_size \<noteq> 0
      then Err RuntimeRelocations
      else if section_type = SHT_SYMTAB \<or> section_type = SHT_DYNSYM
      then validate_symbol_table (ri_bytes raw) offset section_size
      else Ok ())))))))"

definition validate_section_table :: "raw_image \<Rightarrow> (unit, elf_error) result" where
  "validate_section_table raw =
     (let h = ri_header raw in
      if rh_section_header_count h = 0 then Ok ()
      else if rh_section_header_size h \<noteq> SECTION_HEADER_SIZE then Err InvalidSectionHeaderSize
      else
        and_then (ok_or (checked_mul (ucast (rh_section_header_size h)) (ucast (rh_section_header_count h)))
            SectionHeaderTableOverflow) (\<lambda>table_size :: u64.
        and_then (ok_or (checked_add (rh_section_header_offset h) table_size) SectionHeaderTableOverflow)
          (\<lambda>table_end.
        if unat table_end > length (ri_bytes raw) then Err SectionHeaderTableOutsideFile
        else try_fold (\<lambda>_. check_section raw) () [0 ..< unat (rh_section_header_count h)])))"

definition validate_load_segment ::
    "u8 list \<Rightarrow> raw_program_header \<Rightarrow> (u64 \<times> u64, elf_error) result" where
  "validate_load_segment bytes p =
     (if ph_memory_size p = 0 then Err ZeroLengthLoadSegment
      else if ph_file_size p > ph_memory_size p then Err FileSizeExceedsMemorySize
      else
        and_then (ok_or (checked_add (ph_file_offset p) (ph_file_size p)) SegmentFileRangeOverflow)
          (\<lambda>file_end.
        if unat file_end > length bytes then Err SegmentOutsideFile
        else
          and_then (ok_or (checked_add (ph_physical_address p) (ph_memory_size p))
              SegmentMemoryRangeOverflow) (\<lambda>memory_end.
          and_then (ok_or (checked_add (ph_virtual_address p) (ph_memory_size p))
              SegmentMemoryRangeOverflow) (\<lambda>virtual_end.
          and_then (expect (checked_sub virtual_end 1)) (\<lambda>last_byte.
          if \<not> elf_is_canonical (ph_virtual_address p) \<or> \<not> elf_is_canonical last_byte
          then Err NonCanonicalAddress
          else if ph_alignment p > 1 \<and> \<not> is_power_of_two (ph_alignment p) then Err ElfInvalidAlignment
          else if ph_alignment p > 1
            \<and> ph_file_offset p mod ph_alignment p \<noteq> ph_virtual_address p mod ph_alignment p
          then Err InvalidOffsetAddressCongruence
          else if ph_flags p AND (PF_WRITE OR PF_EXECUTE) = PF_WRITE OR PF_EXECUTE
          then Err WritableExecutableSegment
          else Ok (memory_end, virtual_end))))))"

text \<open>The mutable locals of \<^verbatim>\<open>ValidatedImage::parse\<close>.\<close>

record parse_state =
  ps_load_count :: u16
  ps_load_start :: u64
  ps_load_end :: u64
  ps_virtual_load_start :: u64
  ps_virtual_load_end :: u64
  ps_entry_is_executable :: bool

definition check_previous_segment ::
    "raw_image \<Rightarrow> raw_program_header \<Rightarrow> u64 \<Rightarrow> u64 \<Rightarrow> nat \<Rightarrow> (unit, elf_error) result" where
  "check_previous_segment raw program physical_end virtual_end previous_index =
     and_then (ok_or (program_header raw previous_index) ProgramHeaderTableOutsideFile) (\<lambda>previous.
     if ph_segment_type previous = PT_LOAD then
       and_then (ok_or (checked_add (ph_physical_address previous) (ph_memory_size previous))
           SegmentMemoryRangeOverflow) (\<lambda>previous_physical_end.
       if elf_ranges_overlap (ph_physical_address previous) previous_physical_end
            (ph_physical_address program) physical_end
       then Err OverlappingLoadSegments
       else
         and_then (ok_or (checked_add (ph_virtual_address previous) (ph_memory_size previous))
             SegmentMemoryRangeOverflow) (\<lambda>previous_virtual_end.
         if elf_ranges_overlap (ph_virtual_address previous) previous_virtual_end
              (ph_virtual_address program) virtual_end
         then Err OverlappingVirtualLoadSegments
         else Ok ()))
     else Ok ())"

definition parse_load_segment ::
    "raw_image \<Rightarrow> parse_state \<Rightarrow> nat \<Rightarrow> raw_program_header \<Rightarrow> (parse_state, elf_error) result" where
  "parse_load_segment raw st index program =
     and_then (validate_load_segment (ri_bytes raw) program) (\<lambda>(physical_end, virtual_end).
     and_then (try_fold (\<lambda>_. check_previous_segment raw program physical_end virtual_end) ()
         [0 ..< index]) (\<lambda>_.
     and_then (expect (checked_add (ps_load_count st) 1)) (\<lambda>load_count.
     Ok \<lparr>ps_load_count = load_count,
         ps_load_start = min (ps_load_start st) (ph_physical_address program),
         ps_load_end = max (ps_load_end st) physical_end,
         ps_virtual_load_start = min (ps_virtual_load_start st) (ph_virtual_address program),
         ps_virtual_load_end = max (ps_virtual_load_end st) virtual_end,
         ps_entry_is_executable =
           (if ph_flags program AND PF_EXECUTE \<noteq> 0
              \<and> rh_entry (ri_header raw) \<ge> ph_virtual_address program
              \<and> rh_entry (ri_header raw) < virtual_end
            then True else ps_entry_is_executable st)\<rparr>)))"

definition parse_step ::
    "raw_image \<Rightarrow> parse_state \<Rightarrow> nat \<Rightarrow> (parse_state, elf_error) result" where
  "parse_step raw st index =
     and_then (ok_or (program_header raw index) ProgramHeaderTableOutsideFile) (\<lambda>program.
     if ph_segment_type program = PT_INTERP then Err InterpreterSegment
     else if ph_segment_type program = PT_DYNAMIC then Err DynamicSegment
     else if ph_segment_type program = PT_TLS then Err TlsSegment
     else if ph_segment_type program = PT_LOAD then parse_load_segment raw st index program
     else Ok st)"

definition ValidatedImage_parse :: "u8 list \<Rightarrow> (validated_image, elf_error) result" where
  "ValidatedImage_parse bytes =
     and_then (validate_magic bytes) (\<lambda>_.
     and_then (RawImage_parse bytes) (\<lambda>raw.
     and_then (elf_validate_header (ri_header raw)) (\<lambda>_.
     and_then (validate_program_table raw) (\<lambda>_.
     and_then (validate_section_table raw) (\<lambda>_.
     and_then (try_fold (parse_step raw)
         \<lparr>ps_load_count = 0, ps_load_start = - 1, ps_load_end = 0, ps_virtual_load_start = - 1,
          ps_virtual_load_end = 0, ps_entry_is_executable = False\<rparr>
         [0 ..< unat (rh_program_header_count (ri_header raw))]) (\<lambda>st.
     if ps_load_count st = 0 then Err NoLoadSegments
     else if \<not> elf_is_canonical (rh_entry (ri_header raw)) \<or> \<not> ps_entry_is_executable st
     then Err EntryOutsideExecutableSegment
     else Ok \<lparr>vi_raw = raw, vi_load_count = ps_load_count st, vi_load_start = ps_load_start st,
         vi_load_end = ps_load_end st, vi_virtual_load_start = ps_virtual_load_start st,
         vi_virtual_load_end = ps_virtual_load_end st\<rparr>))))))"

section \<open>Image profiles\<close>

record profile_flags =
  has_execute :: bool
  has_read_only :: bool
  has_writable :: bool
  has_bss :: bool

definition no_profile_flags :: profile_flags where
  "no_profile_flags = \<lparr>has_execute = False, has_read_only = False, has_writable = False, has_bss = False\<rparr>"

definition bootstrap_segment ::
    "profile_flags \<Rightarrow> load_segment \<Rightarrow> (profile_flags, bootstrap_validation_error) result" where
  "bootstrap_segment f s =
     (if ls_physical_address s \<noteq> ls_virtual_address s then Err (BsElf PhysicalVirtualAddressMismatch)
      else if ls_alignment s \<noteq> BOOTSTRAP_PAGE_SIZE \<or> ls_physical_address s mod BOOTSTRAP_PAGE_SIZE \<noteq> 0
        \<or> ls_file_offset s mod BOOTSTRAP_PAGE_SIZE \<noteq> 0
      then Err BsMisalignedLoadSegment
      else Ok
        \<lparr>has_execute = (has_execute f \<or> is_executable s),
         has_read_only = (has_read_only f \<or> is_readable s \<and> \<not> is_writable s \<and> \<not> is_executable s),
         has_writable = (has_writable f \<or> is_writable s \<and> \<not> is_executable s),
         has_bss = (has_bss f \<or> ls_memory_size s > ls_file_size s)\<rparr>)"

definition validate_bootstrap_image ::
    "u8 list \<Rightarrow> (validated_image, bootstrap_validation_error) result" where
  "validate_bootstrap_image bytes =
     and_then (map_err BsElf (ValidatedImage_parse bytes)) (\<lambda>img.
     if vi_entry img \<noteq> BOOTSTRAP_LINK_ADDRESS then Err BsUnexpectedEntry
     else if vi_load_start img \<noteq> BOOTSTRAP_LINK_ADDRESS then Err BsUnexpectedLoadStart
     else
       and_then (try_fold bootstrap_segment no_profile_flags (load_segments img)) (\<lambda>f.
       if \<not> has_execute f then Err BsMissingExecuteSegment
       else if \<not> has_read_only f then Err BsMissingReadOnlySegment
       else if \<not> has_writable f then Err BsMissingWritableSegment
       else if \<not> has_bss f then Err BsMissingBss
       else Ok img))"

definition higher_half_segment ::
    "profile_flags \<Rightarrow> load_segment \<Rightarrow> (profile_flags, higher_half_validation_error) result" where
  "higher_half_segment f s =
     (if ls_alignment s \<noteq> BOOTSTRAP_PAGE_SIZE
        \<or> \<not> is_multiple_of (ls_physical_address s) BOOTSTRAP_PAGE_SIZE
        \<or> \<not> is_multiple_of (ls_virtual_address s) BOOTSTRAP_PAGE_SIZE
        \<or> \<not> is_multiple_of (ls_file_offset s) BOOTSTRAP_PAGE_SIZE
      then Err HhMisalignedLoadSegment
      else
        and_then (ok_or (checked_add (ls_physical_address s) (ls_memory_size s)) SpanOverflow)
          (\<lambda>physical_end.
        and_then (ok_or (checked_add (ls_virtual_address s) (ls_memory_size s)) SpanOverflow)
          (\<lambda>virtual_end.
        if ls_physical_address s < BOOTSTRAP_LINK_ADDRESS \<or> physical_end > ELF_BOOTSTRAP_PHYSICAL_END
        then Err PhysicalOutsideBootstrapWindow
        else if ls_virtual_address s < KERNEL_IMAGE_VIRTUAL_START \<or> virtual_end > KERNEL_IMAGE_VIRTUAL_END
        then Err VirtualOutsideKernelRegion
        else if checked_sub (ls_virtual_address s) (ls_physical_address s) \<noteq> Some HIGHER_HALF_VIRTUAL_OFFSET
        then Err InconsistentTranslationOffset
        else
          and_then
            (if ls_flags s = PF_READ OR PF_EXECUTE then Ok (f\<lparr>has_execute := True\<rparr>)
             else if ls_flags s = PF_READ then Ok (f\<lparr>has_read_only := True\<rparr>)
             else if ls_flags s = PF_READ OR PF_WRITE then Ok (f\<lparr>has_writable := True\<rparr>)
             else Err InvalidSegmentPermissions) (\<lambda>f'.
          Ok (f'\<lparr>has_bss := (has_bss f' \<or> ls_memory_size s > ls_file_size s)\<rparr>)))))"

definition backs_entry :: "u64 \<Rightarrow> load_segment \<Rightarrow> bool" where
  "backs_entry physical_entry s =
     (let physical_end = checked_add (ls_physical_address s) (ls_memory_size s)
      in is_executable s \<and> physical_entry \<ge> ls_physical_address s
         \<and> (case physical_end of None \<Rightarrow> False | Some e \<Rightarrow> physical_entry < e))"

definition validate_higher_half_image ::
    "u8 list \<Rightarrow> (validated_higher_half_image, higher_half_validation_error) result" where
  "validate_higher_half_image bytes =
     and_then (map_err HhElf (ValidatedImage_parse bytes)) (\<lambda>img.
     if vi_entry img \<noteq> HIGHER_HALF_LINK_ADDRESS then Err HhUnexpectedEntry
     else if vi_load_start img \<noteq> BOOTSTRAP_LINK_ADDRESS then Err UnexpectedPhysicalStart
     else if vi_virtual_load_start img \<noteq> HIGHER_HALF_LINK_ADDRESS then Err UnexpectedVirtualStart
     else
       and_then (try_fold higher_half_segment no_profile_flags (load_segments img)) (\<lambda>f.
       if \<not> has_execute f then Err HhMissingExecuteSegment
       else if \<not> has_read_only f then Err HhMissingReadOnlySegment
       else if \<not> has_writable f then Err HhMissingWritableSegment
       else if \<not> has_bss f then Err HhMissingBss
       else
         and_then (ok_or (checked_sub (vi_entry img) HIGHER_HALF_VIRTUAL_OFFSET) EntryTranslationOverflow)
           (\<lambda>physical_entry.
         if \<not> list_ex (backs_entry physical_entry) (load_segments img)
         then Err EntryWithoutPhysicalBacking
         else Ok \<lparr>hh_image = img, hh_physical_entry = physical_entry\<rparr>)))"

definition total_physical_load_size ::
    "validated_higher_half_image \<Rightarrow> (u64, higher_half_validation_error) result" where
  "total_physical_load_size hh =
     try_fold (\<lambda>total s. ok_or (checked_add total (ls_memory_size s)) SpanOverflow) 0
       (load_segments (hh_image hh))"

end
