(* ===== verification/Kernel_Image_Facts.thy ===== *)
theory Kernel_Image_Facts
  imports Kernel_Image
begin

text \<open>
  What a validated kernel image guarantees: every load segment lies inside the file and inside
  the address space, segments are disjoint, no segment is writable and executable, and the entry
  point lies in an executable segment. Parsing never panics, on any file.
\<close>

section \<open>Reading\<close>

lemma elf_read_None:
  assumes "length bytes < 2 ^ 64"
  shows "elf_read_u16 bytes offset = None \<longleftrightarrow> length bytes < offset + 2"
    and "elf_read_u32 bytes offset = None \<longleftrightarrow> length bytes < offset + 4"
    and "elf_read_u64 bytes offset = None \<longleftrightarrow> length bytes < offset + 8"
  using assms by (auto simp: elf_read_u16_def elf_read_u32_def elf_read_u64_def usize_add_def slice_get_def)

lemma read_at_None:
  assumes "length bytes < 2 ^ 64"
  shows "read_u16_at bytes offset = None \<longleftrightarrow> length bytes < unat offset + 2"
    and "read_u32_at bytes offset = None \<longleftrightarrow> length bytes < unat offset + 4"
    and "read_u64_at bytes offset = None \<longleftrightarrow> length bytes < unat offset + 8"
  using elf_read_None [OF assms]
  by (simp_all add: read_u16_at_def read_u32_at_def read_u64_at_def)

lemma read_field:
  assumes "length bytes < 2 ^ 64" and "unat offset + 56 \<le> length bytes"
  shows "unat k \<le> 48 \<Longrightarrow> \<exists>v. Option.bind (checked_add offset k) (read_u64_at bytes) = Some v"
    and "unat k \<le> 48 \<Longrightarrow> \<exists>v. Option.bind (checked_add offset k) (read_u32_at bytes) = Some v"
    and "\<exists>v. read_u32_at bytes offset = Some v"
proof -
  have add: "checked_add offset k = Some (offset + k)" "unat (offset + k) = unat offset + unat k"
    if "unat k \<le> 48" for k
    using assms that checked_add_in_range [of offset k] by auto
  show "unat k \<le> 48 \<Longrightarrow> \<exists>v. Option.bind (checked_add offset k) (read_u64_at bytes) = Some v"
    using add assms read_at_None(3) [OF assms(1), of "offset + k"] by (cases "read_u64_at bytes (offset + k)") (auto simp del: checked_add_Some)
  show "unat k \<le> 48 \<Longrightarrow> \<exists>v. Option.bind (checked_add offset k) (read_u32_at bytes) = Some v"
    using add assms read_at_None(2) [OF assms(1), of "offset + k"] by (cases "read_u32_at bytes (offset + k)") (auto simp del: checked_add_Some)
  show "\<exists>v. read_u32_at bytes offset = Some v"
    using assms read_at_None(2) [OF assms(1), of offset] by (cases "read_u32_at bytes offset") auto
qed

lemma parse_program_header_readable:
  assumes "length bytes < 2 ^ 64" and "unat offset + 56 \<le> length bytes"
  shows "\<exists>p. parse_program_header bytes offset = Some p"
proof -
  note field = read_field [OF assms]
  obtain v0 v4 v8 v16 v24 v32 v40 v48 where
    "read_u32_at bytes offset = Some v0"
    "Option.bind (checked_add offset 4) (read_u32_at bytes) = Some v4"
    "Option.bind (checked_add offset 8) (read_u64_at bytes) = Some v8"
    "Option.bind (checked_add offset 16) (read_u64_at bytes) = Some v16"
    "Option.bind (checked_add offset 24) (read_u64_at bytes) = Some v24"
    "Option.bind (checked_add offset 32) (read_u64_at bytes) = Some v32"
    "Option.bind (checked_add offset 40) (read_u64_at bytes) = Some v40"
    "Option.bind (checked_add offset 48) (read_u64_at bytes) = Some v48"
    using field(3) field(2) [of 4] field(1) [of 8] field(1) [of 16] field(1) [of 24] field(1) [of 32]
      field(1) [of 40] field(1) [of 48]
    by (simp del: checked_add_Some) blast
  then show ?thesis unfolding parse_program_header_def by (simp del: checked_add_Some)
qed

section \<open>The program table\<close>

definition table_readable :: "raw_image \<Rightarrow> bool" where
  "table_readable raw \<longleftrightarrow> length (ri_bytes raw) < 2 ^ 64 \<and> rh_program_header_size (ri_header raw) = 56
     \<and> unat (rh_program_header_offset (ri_header raw)) + 56 * unat (rh_program_header_count (ri_header raw))
       \<le> length (ri_bytes raw)"

lemma program_header_readable:
  assumes "table_readable raw" and i: "i < unat (rh_program_header_count (ri_header raw))"
  shows "\<exists>p. program_header raw i = Some p"
proof -
  let ?h = "ri_header raw"
  have small: "i < 2 ^ 16" using i unat_bound [of "rh_program_header_count ?h"] by simp
  have le: "unat (rh_program_header_offset ?h) + i * 56 + 56 \<le> length (ri_bytes raw)"
    using assms by (auto simp: table_readable_def)
  then have "\<exists>r :: u64. unat r = i * 56" using assms(1) by (simp add: ex_unat table_readable_def)
  then obtain r :: u64 where r: "unat r = i * 56" ..
  obtain offset :: u64 where offset: "unat offset = unat (rh_program_header_offset ?h) + i * 56"
    using ex_unat [where 'a = 64, of "unat (rh_program_header_offset ?h) + i * 56"] le assms(1)
    by (auto simp: table_readable_def)
  have "checked_mul (of_nat i) (ucast (rh_program_header_size ?h)) = Some r"
    using assms(1) small r by (simp add: table_readable_def unat_of_nat)
  moreover have "checked_add (rh_program_header_offset ?h) r = Some offset" using r offset by simp
  moreover have "\<exists>p. parse_program_header (ri_bytes raw) offset = Some p"
    using parse_program_header_readable le offset assms(1) by (simp add: table_readable_def)
  ultimately show ?thesis
    using i by (simp add: program_header_def del: checked_add_Some checked_mul_Some)
qed

lemma validate_program_table_Ok:
  assumes "validate_program_table raw = Ok ()" and "elf_validate_header (ri_header raw) = Ok ()"
    and "length (ri_bytes raw) < 2 ^ 64"
  shows "table_readable raw"
  using assms
  by (auto simp: validate_program_table_def elf_validate_header_def table_readable_def guard_outcome
      const_defs Let_def)

text \<open>The headers of the table, and the load segments among the first of them.\<close>

definition header_at :: "raw_image \<Rightarrow> nat \<Rightarrow> raw_program_header" where
  "header_at raw i = the (program_header raw i)"

lemma segments_from_eq:
  assumes "\<forall>i \<in> set is. \<exists>p. program_header raw i = Some p"
  shows "segments_from raw is =
    map segment_of (filter (\<lambda>p. ph_segment_type p = PT_LOAD) (map (header_at raw) is))"
  using assms by (induction "is") (auto simp: header_at_def)

section \<open>Segments\<close>

definition segment_ok :: "u8 list \<Rightarrow> load_segment \<Rightarrow> bool" where
  "segment_ok bytes s \<longleftrightarrow> 0 < unat (ls_memory_size s) \<and> unat (ls_file_size s) \<le> unat (ls_memory_size s)
     \<and> unat (ls_file_offset s) + unat (ls_file_size s) \<le> length bytes
     \<and> unat (ls_physical_address s) + unat (ls_memory_size s) < 2 ^ 64
     \<and> unat (ls_virtual_address s) + unat (ls_memory_size s) < 2 ^ 64
     \<and> elf_is_canonical (ls_virtual_address s)
     \<and> elf_is_canonical (ls_virtual_address s + ls_memory_size s - 1)
     \<and> (1 < ls_alignment s \<longrightarrow> is_power_of_two (ls_alignment s)
         \<and> ls_file_offset s mod ls_alignment s = ls_virtual_address s mod ls_alignment s)
     \<and> \<not> (is_writable s \<and> is_executable s)"

definition segments_apart :: "load_segment \<Rightarrow> load_segment \<Rightarrow> bool" where
  "segments_apart s t \<longleftrightarrow>
     (unat (ls_physical_address s) + unat (ls_memory_size s) \<le> unat (ls_physical_address t)
      \<or> unat (ls_physical_address t) + unat (ls_memory_size t) \<le> unat (ls_physical_address s))
     \<and> (unat (ls_virtual_address s) + unat (ls_memory_size s) \<le> unat (ls_virtual_address t)
      \<or> unat (ls_virtual_address t) + unat (ls_memory_size t) \<le> unat (ls_virtual_address s))"

lemma flag_masks:
  "f AND PF_EXECUTE = 0 \<longleftrightarrow> \<not> bit f 0" "f AND PF_WRITE = 0 \<longleftrightarrow> \<not> bit f 1" "f AND 4 = 0 \<longleftrightarrow> \<not> bit f 2"
  "f AND (PF_WRITE OR PF_EXECUTE) = PF_WRITE OR PF_EXECUTE \<longleftrightarrow> bit f 0 \<and> bit f 1" for f :: u32
proof -
  have single: "f AND 2 ^ n = 0 \<longleftrightarrow> \<not> bit f n" for n by (simp add: and_exp_eq_0_iff_not_bit)
  show "f AND PF_EXECUTE = 0 \<longleftrightarrow> \<not> bit f 0" "f AND PF_WRITE = 0 \<longleftrightarrow> \<not> bit f 1" "f AND 4 = 0 \<longleftrightarrow> \<not> bit f 2"
    using single [of 0] single [of 1] single [of 2] by (simp_all add: const_defs)
  have subset: "f AND m = m \<longleftrightarrow> (\<forall>i. bit m i \<longrightarrow> bit f i)" for m
  proof
    show "f AND m = m \<Longrightarrow> \<forall>i. bit m i \<longrightarrow> bit f i" by (metis bit_and_iff)
    show "\<forall>i. bit m i \<longrightarrow> bit f i \<Longrightarrow> f AND m = m" by (auto intro!: bit_word_eqI simp: bit_simps)
  qed
  have "bit (PF_WRITE OR PF_EXECUTE) i \<longleftrightarrow> i = 0 \<or> i = 1" for i
  proof -
    have "PF_WRITE OR PF_EXECUTE = mask 2" by (simp add: const_defs mask_eq_exp_minus_1)
    then show ?thesis by (auto simp: bit_mask_iff)
  qed
  then show "f AND (PF_WRITE OR PF_EXECUTE) = PF_WRITE OR PF_EXECUTE \<longleftrightarrow> bit f 0 \<and> bit f 1"
    unfolding subset by auto
qed

lemma validate_load_segment_Ok:
  assumes "validate_load_segment bytes p = Ok (pe, ve)"
  shows "segment_ok bytes (segment_of p)
     \<and> unat pe = unat (ph_physical_address p) + unat (ph_memory_size p)
     \<and> unat ve = unat (ph_virtual_address p) + unat (ph_memory_size p)"
proof -
  have last: "v + m - 1 = le" if "unat v + unat m = Suc (unat le)" for v m le :: u64
  proof -
    have "v + m = le + 1" using that by (simp add: word_eq_nat unat_word_ariths)
    then show ?thesis by simp
  qed
  have shape: "ph_memory_size p \<noteq> 0" "\<not> ph_memory_size p < ph_file_size p"
      "\<exists>fe :: u64. unat fe = unat (ph_file_offset p) + unat (ph_file_size p) \<and> \<not> length bytes < unat fe"
      "unat pe = unat (ph_physical_address p) + unat (ph_memory_size p)"
      "unat ve = unat (ph_virtual_address p) + unat (ph_memory_size p)"
      "elf_is_canonical (ph_virtual_address p)" "\<exists>le. unat ve = unat le + unat (1 :: u64) \<and> elf_is_canonical le"
      "\<not> (1 < ph_alignment p \<and> \<not> is_power_of_two (ph_alignment p))"
      "\<not> (1 < ph_alignment p \<and> ph_file_offset p mod ph_alignment p \<noteq> ph_virtual_address p mod ph_alignment p)"
      "ph_flags p AND (PF_WRITE OR PF_EXECUTE) \<noteq> PF_WRITE OR PF_EXECUTE"
    using assms unfolding validate_load_segment_def guard_outcome by (auto simp: guard_outcome)
  obtain le where le: "unat ve = Suc (unat le)" "elf_is_canonical le" using shape(7) by auto
  have wx: "\<not> (is_writable (segment_of p) \<and> is_executable (segment_of p))"
    using shape(10) by (auto simp: flag_masks is_writable_def is_executable_def segment_of_def)
  show ?thesis
    using shape(1-6,8,9) wx le last [of "ph_virtual_address p" "ph_memory_size p" le] unat_bound [of pe] unat_bound [of ve]
    by (simp add: segment_ok_def segment_of_def word_less_nat_alt not_less unat_gt_0) auto
qed

section \<open>The parse loop\<close>

definition first_segments :: "raw_image \<Rightarrow> nat \<Rightarrow> load_segment list" where
  "first_segments raw n =
     map segment_of (filter (\<lambda>p. ph_segment_type p = PT_LOAD) (map (header_at raw) [0 ..< n]))"

definition span :: "(load_segment \<Rightarrow> u64) \<Rightarrow> load_segment list \<Rightarrow> u64 \<Rightarrow> u64 \<Rightarrow> bool" where
  "span addr S lo hi \<longleftrightarrow>
     (\<forall>s \<in> set S. lo \<le> addr s \<and> unat (addr s) + unat (ls_memory_size s) \<le> unat hi)
     \<and> (if S = [] then lo = - 1 \<and> hi = 0
        else (\<exists>s \<in> set S. addr s = lo) \<and> (\<exists>s \<in> set S. unat hi = unat (addr s) + unat (ls_memory_size s)))"

lemma span_snoc:
  assumes "span addr S lo hi" and "unat e = unat (addr s) + unat (ls_memory_size s)"
  shows "span addr (S @ [s]) (min lo (addr s)) (max hi e)"
proof (cases "S = []")
  case True
  have "min (- 1) (addr s) = addr s" "max 0 e = e" by (simp_all add: min_absorb2 max_absorb2)
  then show ?thesis using assms True by (simp add: span_def)
next
  case False
  have m: "min lo (addr s) = lo \<or> min lo (addr s) = addr s" "max hi e = hi \<or> max hi e = e"
    by (auto simp: min_def max_def)
  have le: "unat hi \<le> unat (max hi e)" "unat e \<le> unat (max hi e)" by (auto simp: max_def word_le_nat_alt)
  have "\<forall>t \<in> set (S @ [s]). min lo (addr s) \<le> addr t \<and> unat (addr t) + unat (ls_memory_size t) \<le> unat (max hi e)"
    using assms le by (auto simp: span_def min_le_iff_disj intro: order_trans)
  moreover have "\<exists>t \<in> set (S @ [s]). addr t = min lo (addr s)"
    "\<exists>t \<in> set (S @ [s]). unat (max hi e) = unat (addr t) + unat (ls_memory_size t)"
    using assms False m by (auto simp: span_def)
  ultimately show ?thesis by (simp add: span_def)
qed

definition parse_inv :: "raw_image \<Rightarrow> nat \<Rightarrow> parse_state \<Rightarrow> bool" where
  "parse_inv raw n st \<longleftrightarrow> (let S = first_segments raw n in
     (\<forall>s \<in> set S. segment_ok (ri_bytes raw) s) \<and> sorted_wrt segments_apart S
     \<and> unat (ps_load_count st) = length S
     \<and> span ls_physical_address S (ps_load_start st) (ps_load_end st)
     \<and> span ls_virtual_address S (ps_virtual_load_start st) (ps_virtual_load_end st)
     \<and> (ps_entry_is_executable st \<longleftrightarrow> (\<exists>s \<in> set S. is_executable s
          \<and> ls_virtual_address s \<le> rh_entry (ri_header raw)
          \<and> unat (rh_entry (ri_header raw)) < unat (ls_virtual_address s) + unat (ls_memory_size s))))"

lemma first_segments_Suc:
  "first_segments raw (Suc n) = first_segments raw n @
     (if ph_segment_type (header_at raw n) = PT_LOAD then [segment_of (header_at raw n)] else [])"
  by (simp add: first_segments_def)

lemma check_previous_Ok:
  assumes "try_fold (\<lambda>_. check_previous_segment raw p pe ve) () [0 ..< n] = Ok ()"
    and "unat pe = unat (ph_physical_address p) + unat (ph_memory_size p)"
    and "unat ve = unat (ph_virtual_address p) + unat (ph_memory_size p)"
  shows "\<forall>s \<in> set (first_segments raw n). segments_apart s (segment_of p)"
proof
  fix s assume "s \<in> set (first_segments raw n)"
  then obtain i where i: "i < n" "ph_segment_type (header_at raw i) = PT_LOAD" "s = segment_of (header_at raw i)"
    by (auto simp: first_segments_def)
  have "check_previous_segment raw p pe ve i = Ok ()" using assms(1) i(1) by (simp add: try_fold_unit_Ok)
  then show "segments_apart s (segment_of p)"
    using i(2,3) assms(2,3)
    by (auto simp: check_previous_segment_def guard_outcome elf_ranges_overlap_def segments_apart_def
        segment_of_def header_at_def word_less_nat_alt not_less)
qed

lemma parse_step_inv:
  assumes inv: "parse_inv raw n st" and step: "parse_step raw st n = Ok st'"
  shows "parse_inv raw (Suc n) st'"
proof (cases "ph_segment_type (header_at raw n) = PT_LOAD")
  case False
  then have "st' = st" using step by (auto simp: parse_step_def header_at_def guard_outcome split: if_splits)
  then show ?thesis using inv False by (simp add: parse_inv_def first_segments_Suc)
next
  case True
  let ?p = "header_at raw n" and ?S = "first_segments raw n"
  let ?s = "segment_of ?p"
  obtain pe ve where seg: "validate_load_segment (ri_bytes raw) ?p = Ok (pe, ve)"
      and prev: "try_fold (\<lambda>_. check_previous_segment raw ?p pe ve) () [0 ..< n] = Ok ()"
      and st': "st' = \<lparr>ps_load_count = ps_load_count st', ps_load_start = min (ps_load_start st) (ph_physical_address ?p),
         ps_load_end = max (ps_load_end st) pe,
         ps_virtual_load_start = min (ps_virtual_load_start st) (ph_virtual_address ?p),
         ps_virtual_load_end = max (ps_virtual_load_end st) ve,
         ps_entry_is_executable = (if ph_flags ?p AND PF_EXECUTE \<noteq> 0
              \<and> rh_entry (ri_header raw) \<ge> ph_virtual_address ?p \<and> rh_entry (ri_header raw) < ve
            then True else ps_entry_is_executable st)\<rparr>"
      and count: "unat (ps_load_count st') = unat (ps_load_count st) + 1"
    using step True by (auto simp: parse_step_def parse_load_segment_def header_at_def guard_outcome const_defs)
  note ok = validate_load_segment_Ok [OF seg]
  have apart: "\<forall>s \<in> set ?S. segments_apart s ?s" using check_previous_Ok [OF prev] ok by blast
  have s: "ls_physical_address ?s = ph_physical_address ?p" "ls_virtual_address ?s = ph_virtual_address ?p"
      "ls_memory_size ?s = ph_memory_size ?p" "is_executable ?s \<longleftrightarrow> ph_flags ?p AND PF_EXECUTE \<noteq> 0"
    by (simp_all add: segment_of_def is_executable_def)
  have sp: "span ls_physical_address ?S (ps_load_start st) (ps_load_end st)"
    "span ls_virtual_address ?S (ps_virtual_load_start st) (ps_virtual_load_end st)"
    using inv by (simp_all add: parse_inv_def Let_def)
  have "span ls_physical_address (?S @ [?s]) (min (ps_load_start st) (ph_physical_address ?p)) (max (ps_load_end st) pe)"
    "span ls_virtual_address (?S @ [?s]) (min (ps_virtual_load_start st) (ph_virtual_address ?p)) (max (ps_virtual_load_end st) ve)"
    using span_snoc [OF sp(1), of pe ?s] span_snoc [OF sp(2), of ve ?s] ok s by simp_all
  then have spans: "span ls_physical_address (?S @ [?s]) (ps_load_start st') (ps_load_end st')"
    "span ls_virtual_address (?S @ [?s]) (ps_virtual_load_start st') (ps_virtual_load_end st')"
    by (subst (1 2) st', simp)+
  have ve: "rh_entry (ri_header raw) < ve \<longleftrightarrow> unat (rh_entry (ri_header raw)) < unat (ls_virtual_address ?s) + unat (ls_memory_size ?s)"
    using ok unfolding s by (simp add: word_less_nat_alt)
  have "ps_entry_is_executable st' \<longleftrightarrow> is_executable ?s \<and> ls_virtual_address ?s \<le> rh_entry (ri_header raw)
      \<and> rh_entry (ri_header raw) < ve \<or> ps_entry_is_executable st"
    unfolding s by (subst st') auto
  with ve spans show ?thesis
    using inv ok apart True count
    by (auto simp: parse_inv_def Let_def first_segments_Suc sorted_wrt_append)
qed

section \<open>The validated image\<close>

lemma parse_loop_inv:
  assumes "try_fold (parse_step raw) st0 [0 ..< n] = Ok st" and "parse_inv raw 0 st0"
  shows "parse_inv raw n st"
  using assms(1)
proof (induction n arbitrary: st)
  case 0
  then show ?case using assms(2) by simp
next
  case (Suc n)
  then obtain st' where "try_fold (parse_step raw) st0 [0 ..< n] = Ok st'" "parse_step raw st' n = Ok st"
    by (auto simp: try_fold_append)
  then show ?case using Suc.IH parse_step_inv by blast
qed

definition image_ok :: "u8 list \<Rightarrow> validated_image \<Rightarrow> bool" where
  "image_ok bytes img \<longleftrightarrow> (let S = load_segments img in
     ri_bytes (vi_raw img) = bytes \<and> S \<noteq> [] \<and> length S = unat (vi_load_count img)
     \<and> (\<forall>s \<in> set S. segment_ok bytes s) \<and> sorted_wrt segments_apart S
     \<and> span ls_physical_address S (vi_load_start img) (vi_load_end img)
     \<and> span ls_virtual_address S (vi_virtual_load_start img) (vi_virtual_load_end img)
     \<and> elf_is_canonical (vi_entry img)
     \<and> (\<exists>s \<in> set S. is_executable s \<and> ls_virtual_address s \<le> vi_entry img
          \<and> unat (vi_entry img) < unat (ls_virtual_address s) + unat (ls_memory_size s)))"

lemma RawImage_parse_bytes: "RawImage_parse bytes = Ok raw \<Longrightarrow> ri_bytes raw = bytes"
  by (auto simp: RawImage_parse_def guard_outcome)

lemma parse_image_ok:
  assumes parse: "ValidatedImage_parse bytes = Ok img" and len: "length bytes < 2 ^ 64"
  shows "image_ok bytes img"
proof -
  let ?init = "\<lparr>ps_load_count = 0, ps_load_start = - 1, ps_load_end = 0, ps_virtual_load_start = - 1,
          ps_virtual_load_end = 0, ps_entry_is_executable = False\<rparr>"
  obtain raw st where raw: "RawImage_parse bytes = Ok raw" and header: "elf_validate_header (ri_header raw) = Ok ()"
    and table: "validate_program_table raw = Ok ()"
    and loop: "try_fold (parse_step raw) ?init [0 ..< unat (rh_program_header_count (ri_header raw))] = Ok st"
    and st: "ps_load_count st \<noteq> 0" "elf_is_canonical (rh_entry (ri_header raw))" "ps_entry_is_executable st"
    and img: "img = \<lparr>vi_raw = raw, vi_load_count = ps_load_count st, vi_load_start = ps_load_start st,
         vi_load_end = ps_load_end st, vi_virtual_load_start = ps_virtual_load_start st,
         vi_virtual_load_end = ps_virtual_load_end st\<rparr>"
    using parse by (auto simp: ValidatedImage_parse_def guard_outcome)
  have bytes: "ri_bytes raw = bytes" using raw by (rule RawImage_parse_bytes)
  have "table_readable raw" using validate_program_table_Ok [OF table header] len bytes by simp
  then have segs: "load_segments img = first_segments raw (unat (rh_program_header_count (ri_header raw)))"
    using program_header_readable by (simp add: load_segments_def img segments_from_eq first_segments_def)
  have "parse_inv raw 0 ?init" by (simp add: parse_inv_def first_segments_def span_def)
  then have inv: "parse_inv raw (unat (rh_program_header_count (ri_header raw))) st"
    using parse_loop_inv loop by blast
  moreover have "unat (ps_load_count st) \<noteq> 0" using st(1) by (simp add: unat_eq_zero)
  ultimately show ?thesis
    using st bytes segs by (auto simp: image_ok_def parse_inv_def Let_def img vi_entry_def)
qed

section \<open>No panic\<close>

lemma check_symbol_no_panic:
  assumes "unat file_offset + 24 * Suc i \<le> length bytes" "length bytes < 2 ^ 64" "entry_size = 24"
  shows "check_symbol bytes file_offset entry_size i \<noteq> Panic"
proof -
  have "\<exists>v :: u64. unat v = unat symbol + 6" if "unat symbol = unat file_offset + i * 24" for symbol :: u64
    using that assms by (simp add: ex_unat)
  moreover have "unat (of_nat i :: u64) = i" using assms by (simp add: unat_of_nat)
  ultimately show ?thesis
    using assms(3) by (auto simp: check_symbol_def guard_outcome)
qed

lemma validate_symbol_table_no_panic:
  assumes "unat offset + 64 \<le> length bytes" "length bytes < 2 ^ 64"
  shows "validate_symbol_table bytes offset section_size \<noteq> Panic"
proof -
  have add: "checked_add offset 24 = Some (offset + 24)" "checked_add offset 56 = Some (offset + 56)"
    using assms checked_add_in_range [of offset 24] checked_add_in_range [of offset 56] by simp_all
  have "check_symbol bytes fo 24 i \<noteq> Panic"
    if "checked_add fo section_size = Some limit" "unat limit \<le> length bytes"
      "is_multiple_of section_size 24" "i < unat (section_size div 24)" for fo limit :: u64 and i
  proof (rule check_symbol_no_panic)
    have "Suc i * 24 \<le> unat section_size" using that(4) by (simp add: unat_div)
    then show "unat fo + 24 * Suc i \<le> length bytes" using that(1,2) by auto
  qed (use assms in simp_all)
  then show ?thesis
    unfolding validate_symbol_table_def add
    by (auto simp: guard_outcome const_defs Let_def not_less simp del: checked_add_Some intro!: try_fold_not_Panic)
qed

lemma check_section_no_panic:
  assumes "unat (rh_section_header_offset (ri_header raw)) + 64 * Suc i \<le> length (ri_bytes raw)"
    "length (ri_bytes raw) < 2 ^ 64" "rh_section_header_size (ri_header raw) = 64"
  shows "check_section raw i \<noteq> Panic"
proof -
  have of_nat: "unat (of_nat i :: u64) = i" using assms by (simp add: unat_of_nat)
  have "checked_add offset 4 = Some (offset + 4) \<and> checked_add offset 32 = Some (offset + 32)
      \<and> validate_symbol_table (ri_bytes raw) offset section_size \<noteq> Panic"
    if "checked_add (rh_section_header_offset (ri_header raw)) relative = Some offset"
      "checked_mul (of_nat i) (ucast (rh_section_header_size (ri_header raw))) = Some relative"
    for relative offset section_size :: u64
  proof -
    have "unat offset = unat (rh_section_header_offset (ri_header raw)) + 64 * i" using that assms(3) of_nat by auto
    then have le: "unat offset + 64 \<le> length (ri_bytes raw)" using assms(1) by simp
    then show ?thesis
      using validate_symbol_table_no_panic [OF le assms(2)] assms(2)
        checked_add_in_range [of offset 4] checked_add_in_range [of offset 32] by simp
  qed
  then show ?thesis
    by (auto simp: check_section_def guard_outcome Let_def simp del: checked_add_Some checked_mul_Some)
qed

lemma validate_section_table_no_panic:
  assumes "length (ri_bytes raw) < 2 ^ 64"
  shows "validate_section_table raw \<noteq> Panic"
proof -
  let ?h = "ri_header raw"
  have "try_fold (\<lambda>_. check_section raw) () [0 ..< unat (rh_section_header_count ?h)] \<noteq> Panic"
    if size: "rh_section_header_size ?h = 64"
      and limit: "unat (rh_section_header_offset ?h) + 64 * unat (rh_section_header_count ?h) \<le> length (ri_bytes raw)"
  proof (rule try_fold_not_Panic)
    fix u i assume "i \<in> set [0 ..< unat (rh_section_header_count ?h)]"
    then have "64 * Suc i \<le> 64 * unat (rh_section_header_count ?h)" by simp
    then show "check_section raw i \<noteq> Panic" using check_section_no_panic assms size limit by simp
  qed
  then show ?thesis
    by (auto simp: validate_section_table_def guard_outcome Let_def const_defs not_less)
qed

lemma validate_load_segment_no_panic: "validate_load_segment bytes p \<noteq> Panic"
proof -
  have "\<exists>le :: u64. unat ve = unat le + 1" if "unat ve = unat v + unat m" "m \<noteq> 0" for ve v m :: u64
  proof
    have "1 \<le> unat ve" using that by (simp add: unat_gt_0 [symmetric])
    then show "unat ve = unat (ve - 1) + 1" using unat_sub [of 1 ve] by (simp add: word_le_nat_alt)
  qed
  then show ?thesis by (auto simp: validate_load_segment_def guard_outcome split: if_splits)
qed

lemma check_previous_no_panic: "check_previous_segment raw p pe ve i \<noteq> Panic"
  by (auto simp: check_previous_segment_def guard_outcome split: if_splits)

lemma parse_step_no_panic:
  assumes "unat (ps_load_count st) < 128"
  shows "parse_step raw st i \<noteq> Panic"
proof -
  have "\<exists>c :: u16. unat c = unat (ps_load_count st) + 1" using assms by (simp add: ex_unat)
  then have "parse_load_segment raw st i p \<noteq> Panic" for p
    using validate_load_segment_no_panic [of "ri_bytes raw" p]
      try_fold_not_Panic [of "[0 ..< i]" "\<lambda>_. check_previous_segment raw p _ _"]
    by (auto simp: parse_load_segment_def check_previous_no_panic try_fold_not_Panic)
  then show ?thesis by (auto simp: parse_step_def guard_outcome split: if_splits)
qed

lemma parse_loop_no_panic:
  assumes "parse_inv raw 0 st0" and "n \<le> 128"
  shows "try_fold (parse_step raw) st0 [0 ..< n] \<noteq> Panic"
  using assms(2)
proof (induction n)
  case (Suc n)
  have "parse_step raw st n \<noteq> Panic" if "try_fold (parse_step raw) st0 [0 ..< n] = Ok st" for st
  proof (rule parse_step_no_panic)
    have "unat (ps_load_count st) = length (first_segments raw n)"
      using parse_loop_inv [OF that assms(1)] by (simp add: parse_inv_def Let_def)
    also have "\<dots> \<le> n" unfolding first_segments_def by (metis length_filter_le length_map length_upt minus_nat.diff_0)
    finally show "unat (ps_load_count st) < 128" using Suc.prems by simp
  qed
  then show ?case using Suc by (auto simp: try_fold_append)
qed simp

lemma RawImage_parse_no_panic: "RawImage_parse bytes \<noteq> Panic"
  by (auto simp: RawImage_parse_def arr_get_def guard_outcome const_defs not_less)

lemma ValidatedImage_parse_no_panic:
  assumes "length bytes < 2 ^ 64"
  shows "ValidatedImage_parse bytes \<noteq> Panic"
proof -
  let ?init = "\<lparr>ps_load_count = 0, ps_load_start = - 1, ps_load_end = 0, ps_virtual_load_start = - 1,
          ps_virtual_load_end = 0, ps_entry_is_executable = False\<rparr>"
  have init: "parse_inv raw 0 ?init" for raw by (simp add: parse_inv_def first_segments_def span_def)
  have loop: "try_fold (parse_step raw) ?init [0 ..< unat (rh_program_header_count (ri_header raw))] \<noteq> Panic"
    if "elf_validate_header (ri_header raw) = Ok ()" for raw
    using parse_loop_no_panic [OF init] that
    by (auto simp: elf_validate_header_def guard_outcome const_defs word_nat not_less)
  have "validate_magic bytes \<noteq> Panic" "elf_validate_header h \<noteq> Panic" "validate_program_table raw \<noteq> Panic" for h raw
    by (auto simp: validate_magic_def elf_validate_header_def validate_program_table_def Let_def)
  then show ?thesis
    using RawImage_parse_no_panic [of bytes] validate_section_table_no_panic assms RawImage_parse_bytes [of bytes] loop
    by (auto simp: ValidatedImage_parse_def guard_outcome)
qed

section \<open>Profiles\<close>

definition bootstrap_segment_ok :: "load_segment \<Rightarrow> bool" where
  "bootstrap_segment_ok s \<longleftrightarrow> ls_virtual_address s = ls_physical_address s \<and> ls_alignment s = 4096
     \<and> unat (ls_physical_address s) mod 4096 = 0 \<and> unat (ls_file_offset s) mod 4096 = 0"

definition higher_half_segment_ok :: "load_segment \<Rightarrow> bool" where
  "higher_half_segment_ok s \<longleftrightarrow> ls_alignment s = 4096
     \<and> unat (ls_physical_address s) mod 4096 = 0 \<and> unat (ls_file_offset s) mod 4096 = 0
     \<and> 0x200000 \<le> unat (ls_physical_address s)
     \<and> unat (ls_physical_address s) + unat (ls_memory_size s) \<le> 0x4200000
     \<and> unat (ls_virtual_address s) = unat (ls_physical_address s) + 0xffffffff80000000
     \<and> ls_flags s \<in> {PF_READ OR PF_EXECUTE, PF_READ, PF_READ OR PF_WRITE}"

definition bootstrap_flags :: "profile_flags \<Rightarrow> load_segment \<Rightarrow> profile_flags" where
  "bootstrap_flags f s =
     \<lparr>has_execute = (has_execute f \<or> is_executable s),
      has_read_only = (has_read_only f \<or> is_readable s \<and> \<not> is_writable s \<and> \<not> is_executable s),
      has_writable = (has_writable f \<or> is_writable s \<and> \<not> is_executable s),
      has_bss = (has_bss f \<or> ls_memory_size s > ls_file_size s)\<rparr>"

definition higher_half_flags :: "profile_flags \<Rightarrow> load_segment \<Rightarrow> profile_flags" where
  "higher_half_flags f s =
     \<lparr>has_execute = (has_execute f \<or> ls_flags s = PF_READ OR PF_EXECUTE),
      has_read_only = (has_read_only f \<or> ls_flags s = PF_READ),
      has_writable = (has_writable f \<or> ls_flags s = PF_READ OR PF_WRITE),
      has_bss = (has_bss f \<or> ls_memory_size s > ls_file_size s)\<rparr>"

lemma foldl_bootstrap_flags:
  "has_execute (foldl bootstrap_flags f S) \<longleftrightarrow> has_execute f \<or> (\<exists>s \<in> set S. is_executable s)"
  "has_read_only (foldl bootstrap_flags f S) \<longleftrightarrow> has_read_only f
     \<or> (\<exists>s \<in> set S. is_readable s \<and> \<not> is_writable s \<and> \<not> is_executable s)"
  "has_writable (foldl bootstrap_flags f S) \<longleftrightarrow> has_writable f \<or> (\<exists>s \<in> set S. is_writable s \<and> \<not> is_executable s)"
  "has_bss (foldl bootstrap_flags f S) \<longleftrightarrow> has_bss f \<or> (\<exists>s \<in> set S. ls_file_size s < ls_memory_size s)"
  by (induction S arbitrary: f) (auto simp: bootstrap_flags_def)

lemma foldl_higher_half_flags:
  "has_execute (foldl higher_half_flags f S) \<longleftrightarrow> has_execute f \<or> (\<exists>s \<in> set S. ls_flags s = PF_READ OR PF_EXECUTE)"
  "has_read_only (foldl higher_half_flags f S) \<longleftrightarrow> has_read_only f \<or> (\<exists>s \<in> set S. ls_flags s = PF_READ)"
  "has_writable (foldl higher_half_flags f S) \<longleftrightarrow> has_writable f \<or> (\<exists>s \<in> set S. ls_flags s = PF_READ OR PF_WRITE)"
  "has_bss (foldl higher_half_flags f S) \<longleftrightarrow> has_bss f \<or> (\<exists>s \<in> set S. ls_file_size s < ls_memory_size s)"
  by (induction S arbitrary: f) (auto simp: higher_half_flags_def)

lemma bootstrap_segment_Ok:
  "bootstrap_segment f s = Ok f' \<longleftrightarrow> bootstrap_segment_ok s \<and> f' = bootstrap_flags f s"
  by (auto simp: bootstrap_segment_def bootstrap_segment_ok_def bootstrap_flags_def const_defs
      word_eq_nat unat_mod_distrib split: if_splits)

lemma higher_half_ends:
  fixes p m v :: u64
  shows "A \<and> unat p mod 4096 = 0 \<and> unat v mod 4096 = 0 \<and> C
      \<and> (\<exists>pe. checked_add p m = Some pe \<and> (\<exists>ve. checked_add v m = Some ve
        \<and> 0x200000 \<le> unat p \<and> unat pe \<le> 0x4200000 \<and> 0xffffffff80000000 \<le> unat v
        \<and> unat ve \<le> 0xffffffffc0000000 \<and> unat v = unat p + 0xffffffff80000000 \<and> Q))
    \<longleftrightarrow> A \<and> unat p mod 4096 = 0 \<and> C \<and> 0x200000 \<le> unat p \<and> unat p + unat m \<le> 0x4200000
      \<and> unat v = unat p + 0xffffffff80000000 \<and> Q" (is "?L \<longleftrightarrow> ?R")
proof
  assume R: ?R
  then have "unat p + unat m < 2 ^ 64" "unat v + unat m < 2 ^ 64" "unat v mod 4096 = 0" by auto
  then show ?L
    using R checked_add_in_range [of p m] checked_add_in_range [of v m] by (simp del: checked_add_Some)
qed auto

lemma higher_half_segment_Ok:
  "higher_half_segment f s = Ok f' \<longleftrightarrow> higher_half_segment_ok s \<and> f' = higher_half_flags f s"
proof -
  let ?p = "unat (ls_physical_address s)" and ?v = "unat (ls_virtual_address s)" and ?m = "unat (ls_memory_size s)"
  let ?flags = "if ls_flags s = PF_READ OR PF_EXECUTE then Ok (f\<lparr>has_execute := True\<rparr>)
             else if ls_flags s = PF_READ then Ok (f\<lparr>has_read_only := True\<rparr>)
             else if ls_flags s = PF_READ OR PF_WRITE then Ok (f\<lparr>has_writable := True\<rparr>)
             else Err InvalidSegmentPermissions"
  have off: "checked_sub (ls_virtual_address s) (ls_physical_address s) = Some HIGHER_HALF_VIRTUAL_OFFSET
      \<longleftrightarrow> ?v = ?p + 0xffffffff80000000"
    by (auto simp: const_defs)
  define fl where "fl = (?flags :: (profile_flags, higher_half_validation_error) result)"
  have flags: "(\<exists>f1. fl = Ok f1 \<and> f' = f1\<lparr>has_bss := (has_bss f1 \<or> ls_memory_size s > ls_file_size s)\<rparr>)
      \<longleftrightarrow> ls_flags s \<in> {PF_READ OR PF_EXECUTE, PF_READ, PF_READ OR PF_WRITE} \<and> f' = higher_half_flags f s"
    unfolding fl_def by (cases f) (auto simp: higher_half_flags_def const_defs)
  have "higher_half_segment f s = Ok f' \<longleftrightarrow>
      ls_alignment s = 4096 \<and> ?p mod 4096 = 0 \<and> ?v mod 4096 = 0 \<and> unat (ls_file_offset s) mod 4096 = 0
      \<and> (\<exists>pe. checked_add (ls_physical_address s) (ls_memory_size s) = Some pe
        \<and> (\<exists>ve. checked_add (ls_virtual_address s) (ls_memory_size s) = Some ve
        \<and> 0x200000 \<le> ?p \<and> unat pe \<le> 0x4200000 \<and> 0xffffffff80000000 \<le> ?v \<and> unat ve \<le> 0xffffffffc0000000
        \<and> ?v = ?p + 0xffffffff80000000
        \<and> (\<exists>f1. fl = Ok f1 \<and> f' = f1\<lparr>has_bss := (has_bss f1 \<or> ls_memory_size s > ls_file_size s)\<rparr>)))"
    unfolding higher_half_segment_def guard_outcome fl_def [symmetric] off
    by (simp add: guard_outcome const_defs word_nat not_less is_multiple_of_nat eq_commute [of f'] del: checked_add_Some)
  also have "\<dots> \<longleftrightarrow>
      ls_alignment s = 4096 \<and> ?p mod 4096 = 0 \<and> unat (ls_file_offset s) mod 4096 = 0
      \<and> 0x200000 \<le> ?p \<and> ?p + ?m \<le> 0x4200000 \<and> ?v = ?p + 0xffffffff80000000
      \<and> (\<exists>f1. fl = Ok f1 \<and> f' = f1\<lparr>has_bss := (has_bss f1 \<or> ls_memory_size s > ls_file_size s)\<rparr>)"
    by (rule higher_half_ends)
  also have "\<dots> \<longleftrightarrow> higher_half_segment_ok s \<and> f' = higher_half_flags f s"
    unfolding higher_half_segment_ok_def flags by blast
  finally show ?thesis .
qed

lemma higher_half_image_Ok:
  "validate_higher_half_image bytes = Ok hh \<longleftrightarrow> (let img = hh_image hh; S = load_segments img in
     ValidatedImage_parse bytes = Ok img \<and> hh_physical_entry hh = 0x200000
     \<and> vi_entry img = 0xffffffff80200000 \<and> vi_load_start img = 0x200000
     \<and> vi_virtual_load_start img = 0xffffffff80200000
     \<and> (\<forall>s \<in> set S. higher_half_segment_ok s)
     \<and> (\<exists>s \<in> set S. ls_flags s = PF_READ OR PF_EXECUTE) \<and> (\<exists>s \<in> set S. ls_flags s = PF_READ)
     \<and> (\<exists>s \<in> set S. ls_flags s = PF_READ OR PF_WRITE) \<and> (\<exists>s \<in> set S. ls_file_size s < ls_memory_size s)
     \<and> (\<exists>s \<in> set S. backs_entry 0x200000 s))"
proof -
  have entry: "checked_sub (0xffffffff80200000 :: u64) HIGHER_HALF_VIRTUAL_OFFSET = Some 0x200000"
    by (simp add: const_defs)
  show ?thesis
    unfolding validate_higher_half_image_def Let_def
    by (cases hh) (auto simp: guard_outcome try_fold_guarded [OF higher_half_segment_Ok] foldl_higher_half_flags
      no_profile_flags_def list_ex_iff HIGHER_HALF_LINK_ADDRESS_def BOOTSTRAP_LINK_ADDRESS_def entry
      simp del: checked_sub_Some)
qed

lemma bootstrap_image_Ok:
  "validate_bootstrap_image bytes = Ok img \<longleftrightarrow> (let S = load_segments img in
     ValidatedImage_parse bytes = Ok img \<and> vi_entry img = 0x200000 \<and> vi_load_start img = 0x200000
     \<and> (\<forall>s \<in> set S. bootstrap_segment_ok s)
     \<and> (\<exists>s \<in> set S. is_executable s) \<and> (\<exists>s \<in> set S. is_readable s \<and> \<not> is_writable s \<and> \<not> is_executable s)
     \<and> (\<exists>s \<in> set S. is_writable s \<and> \<not> is_executable s) \<and> (\<exists>s \<in> set S. ls_file_size s < ls_memory_size s))"
  unfolding validate_bootstrap_image_def Let_def
  by (auto simp: guard_outcome try_fold_guarded [OF bootstrap_segment_Ok] foldl_bootstrap_flags
      no_profile_flags_def BOOTSTRAP_LINK_ADDRESS_def)

lemma higher_half_no_panic:
  assumes "length bytes < 2 ^ 64"
  shows "validate_higher_half_image bytes \<noteq> Panic" "validate_bootstrap_image bytes \<noteq> Panic"
proof -
  have "higher_half_segment f s \<noteq> Panic" "bootstrap_segment f s \<noteq> Panic" for f s
    by (auto simp: higher_half_segment_def bootstrap_segment_def guard_outcome split: if_splits)
  then have "try_fold higher_half_segment f S \<noteq> Panic" "try_fold bootstrap_segment f S \<noteq> Panic" for f S
    by (simp_all add: try_fold_not_Panic)
  then show "validate_higher_half_image bytes \<noteq> Panic" "validate_bootstrap_image bytes \<noteq> Panic"
    using ValidatedImage_parse_no_panic [OF assms]
    by (auto simp: validate_higher_half_image_def validate_bootstrap_image_def guard_outcome)
qed

text \<open>The physical backing of the entry point follows from the other checks.\<close>

lemma entry_backed:
  assumes "image_ok bytes img" and "\<forall>s \<in> set (load_segments img). higher_half_segment_ok s"
    and "vi_entry img = 0xffffffff80200000"
  shows "\<exists>s \<in> set (load_segments img). backs_entry 0x200000 s"
proof -
  obtain s where s: "s \<in> set (load_segments img)" "is_executable s" "ls_virtual_address s \<le> vi_entry img"
      "unat (vi_entry img) < unat (ls_virtual_address s) + unat (ls_memory_size s)"
    using assms(1) by (auto simp: image_ok_def Let_def)
  have hh: "higher_half_segment_ok s" and ok: "segment_ok bytes s" using assms s(1) by (auto simp: image_ok_def Let_def)
  have sum: "unat (ls_physical_address s) + unat (ls_memory_size s) < 2 ^ 64" using ok by (simp add: segment_ok_def)
  have "ls_physical_address s \<le> 0x200000" "0x200000 < unat (ls_physical_address s) + unat (ls_memory_size s)"
    using hh s(3,4) assms(3) by (auto simp: higher_half_segment_ok_def word_le_nat_alt)
  then have "backs_entry 0x200000 s"
    using s(2) checked_add_in_range [OF sum] by (simp add: backs_entry_def word_less_nat_alt del: checked_add_Some)
  then show ?thesis using s(1) by blast
qed

section \<open>Size of the loaded image\<close>

lemma checked_sizes:
  assumes "unat acc + sum_list (map (\<lambda>s. unat (ls_memory_size s)) S) < 2 ^ 64"
  shows "\<exists>t. try_fold (\<lambda>acc s. ok_or (checked_add acc (ls_memory_size s)) e) acc S = Ok t
    \<and> unat t = unat acc + sum_list (map (\<lambda>s. unat (ls_memory_size s)) S)"
  using assms
proof (induction S arbitrary: acc)
  case (Cons s S)
  have "unat acc + unat (ls_memory_size s) < 2 ^ 64" using Cons.prems by simp
  note add = checked_add_in_range [OF this]
  then show ?case using Cons.IH [of "acc + ls_memory_size s"] Cons.prems by (simp add: add.assoc del: checked_add_Some)
qed simp

lemma entry_backing_error:
  assumes "\<And>img. ValidatedImage_parse bytes = Ok img \<Longrightarrow> \<forall>s \<in> set (load_segments img). higher_half_segment_ok s \<Longrightarrow>
      vi_entry img = 0xffffffff80200000 \<Longrightarrow> \<exists>s \<in> set (load_segments img). backs_entry 0x200000 s"
  shows "validate_higher_half_image bytes \<noteq> Err EntryWithoutPhysicalBacking"
proof
  assume err: "validate_higher_half_image bytes = Err EntryWithoutPhysicalBacking"
  have seg: "higher_half_segment f s \<noteq> Err EntryWithoutPhysicalBacking" for f s
    by (auto simp: higher_half_segment_def)
  have "try_fold higher_half_segment f S \<noteq> Err EntryWithoutPhysicalBacking" for f S
    using try_fold_Err [of higher_half_segment f S EntryWithoutPhysicalBacking] seg by blast
  moreover have "checked_sub (0xffffffff80200000 :: u64) HIGHER_HALF_VIRTUAL_OFFSET = Some 0x200000"
    by (simp add: const_defs)
  ultimately show False
    using err assms
    by (auto simp: validate_higher_half_image_def try_fold_guarded [OF higher_half_segment_Ok] list_ex_iff
        HIGHER_HALF_LINK_ADDRESS_def simp del: checked_sub_Some split: if_splits)
qed

section \<open>A sample image\<close>

text \<open>
  A complete image of three segments without file contents, linked at the higher half or at the
  physical addresses.
\<close>

definition small_offset :: "bool \<Rightarrow> u64" where
  "small_offset hh = (if hh then 0xffffffff80000000 else 0)"

definition small_top :: "bool \<Rightarrow> u8 list" where
  "small_top hh = (if hh then [0x80, 0xff, 0xff, 0xff, 0xff] else [0, 0, 0, 0, 0])"

definition small_header :: "bool \<Rightarrow> u8 list" where
  "small_header hh = [0x7f, 0x45, 0x4c, 0x46, 2, 1, 1, 0, 0, 0, 0, 0, 0, 0, 0, 0, 2, 0, 62, 0, 1, 0, 0, 0,
     0, 0, 0x20] @ small_top hh @ [64, 0, 0, 0, 0, 0, 0, 0, 0, 0, 0, 0, 0, 0, 0, 0,
     0, 0, 0, 0, 64, 0, 56, 0, 3, 0, 64, 0, 0, 0, 0, 0]"

definition small_program :: "bool \<Rightarrow> u8 \<Rightarrow> u8 \<Rightarrow> u8 list" where
  "small_program hh flags page = [1, 0, 0, 0, flags, 0, 0, 0, 0, 0, 0, 0, 0, 0, 0, 0,
     0, page, 0x20] @ small_top hh @ [0, page, 0x20, 0, 0, 0, 0, 0,
     0, 0, 0, 0, 0, 0, 0, 0, 0, 0x10, 0, 0, 0, 0, 0, 0, 0, 0x10, 0, 0, 0, 0, 0, 0]"

definition small_image :: "bool \<Rightarrow> u8 list" where
  "small_image hh = small_header hh @ small_program hh 5 0 @ small_program hh 4 0x10 @ small_program hh 6 0x20"

lemmas small_eval = small_image_def small_header_def small_program_def small_top_def small_offset_def
  elf_read_u16_def elf_read_u32_def elf_read_u64_def slice_get_def usize_add_def

definition small_raw_image :: "bool \<Rightarrow> raw_image" where
  "small_raw_image hh = \<lparr>ri_bytes = small_image hh, ri_header =
   \<lparr>rh_class = 2, rh_endianness = 1, rh_ident_version = 1, rh_os_abi = 0, rh_object_type = 2, rh_machine = 62,
    rh_elf_version = 1, rh_entry = 0x200000 + small_offset hh, rh_program_header_offset = 64,
    rh_section_header_offset = 0, rh_header_size = 64, rh_program_header_size = 56,
    rh_program_header_count = 3, rh_section_header_size = 64, rh_section_header_count = 0\<rparr>\<rparr>"

lemma small_raw: "RawImage_parse (small_image hh) = Ok (small_raw_image hh)"
  unfolding RawImage_parse_def small_raw_image_def
  by (cases hh) (simp_all add: small_eval arr_get_def const_defs)

definition small_program_header :: "bool \<Rightarrow> u32 \<Rightarrow> u64 \<Rightarrow> raw_program_header" where
  "small_program_header hh flags physical = \<lparr>ph_segment_type = 1, ph_flags = flags, ph_file_offset = 0,
     ph_virtual_address = physical + small_offset hh, ph_physical_address = physical, ph_file_size = 0,
     ph_memory_size = 4096, ph_alignment = 4096\<rparr>"

lemma small_program_headers:
  "parse_program_header (small_image hh) 64 = Some (small_program_header hh 5 0x200000)"
  "parse_program_header (small_image hh) 120 = Some (small_program_header hh 4 0x201000)"
  "parse_program_header (small_image hh) 176 = Some (small_program_header hh 6 0x202000)"
  unfolding parse_program_header_def small_program_header_def
  by (cases hh; simp add: small_eval read_u32_at_def read_u64_at_def checked_add_def)+

lemma length_small_image: "length (small_image hh) = 232"
  by (simp add: small_eval)

lemma small_table:
  "program_header (small_raw_image hh) 0 = Some (small_program_header hh 5 0x200000)"
  "program_header (small_raw_image hh) (Suc 0) = Some (small_program_header hh 4 0x201000)"
  "program_header (small_raw_image hh) 2 = Some (small_program_header hh 6 0x202000)"
  by (simp_all add: program_header_def small_raw_image_def small_program_headers checked_add_def checked_mul_def)

definition small_validated :: "bool \<Rightarrow> validated_image" where
  "small_validated hh = \<lparr>vi_raw = small_raw_image hh, vi_load_count = 3, vi_load_start = 0x200000,
     vi_load_end = 0x203000, vi_virtual_load_start = 0x200000 + small_offset hh,
     vi_virtual_load_end = 0x203000 + small_offset hh\<rparr>"

lemma page_size_power_of_two: "is_power_of_two (4096 :: u64)"
  by (simp add: is_power_of_two_iff) (intro exI [of _ 12], simp)

lemma small_segment_ok:
  "validate_load_segment (small_image hh) (small_program_header hh 5 0x200000) = Ok (0x201000, 0x201000 + small_offset hh)"
  "validate_load_segment (small_image hh) (small_program_header hh 4 0x201000) = Ok (0x202000, 0x202000 + small_offset hh)"
  "validate_load_segment (small_image hh) (small_program_header hh 6 0x202000) = Ok (0x203000, 0x203000 + small_offset hh)"
  by (cases hh; simp add: validate_load_segment_def small_program_header_def checked_add_def checked_sub_def
      length_small_image elf_is_canonical_def const_defs page_size_power_of_two small_offset_def)+

lemma small_image_fields:
  "ri_bytes (small_raw_image hh) = small_image hh"
  "rh_entry (ri_header (small_raw_image hh)) = 0x200000 + small_offset hh"
  "rh_program_header_count (ri_header (small_raw_image hh)) = 3"
  by (simp_all add: small_raw_image_def)

lemma small_apart:
  "check_previous_segment (small_raw_image hh) (small_program_header hh 4 0x201000) 0x202000 (0x202000 + small_offset hh) 0 = Ok ()"
  "check_previous_segment (small_raw_image hh) (small_program_header hh 6 0x202000) 0x203000 (0x203000 + small_offset hh) 0 = Ok ()"
  "check_previous_segment (small_raw_image hh) (small_program_header hh 6 0x202000) 0x203000 (0x203000 + small_offset hh) (Suc 0) = Ok ()"
  by (cases hh; simp add: check_previous_segment_def small_table small_program_header_def checked_add_def
      elf_ranges_overlap_def const_defs small_offset_def)+

lemma small_program_header_fields:
  "ph_segment_type (small_program_header hh f a) = 1" "ph_flags (small_program_header hh f a) = f"
  "ph_physical_address (small_program_header hh f a) = a"
  "ph_virtual_address (small_program_header hh f a) = a + small_offset hh"
  by (simp_all add: small_program_header_def)

lemma small_steps:
  "try_fold (parse_step (small_raw_image hh))
     \<lparr>ps_load_count = 0, ps_load_start = - 1, ps_load_end = 0, ps_virtual_load_start = - 1,
      ps_virtual_load_end = 0, ps_entry_is_executable = False\<rparr> [0, Suc 0, 2] =
     Ok \<lparr>ps_load_count = 3, ps_load_start = 0x200000, ps_load_end = 0x203000,
      ps_virtual_load_start = 0x200000 + small_offset hh, ps_virtual_load_end = 0x203000 + small_offset hh,
      ps_entry_is_executable = True\<rparr>"
proof -
  have upt: "[0 ..< 2] = [0, Suc 0 :: nat]" by (simp add: upt_conv_Cons)
  have max: "(- 1 :: u64) = 0xffffffffffffffff" by simp
  have top: "\<not> (- 1 :: u64) \<le> 0x200000" "\<not> (- 1 :: u64) \<le> 0x200000 + small_offset hh"
    unfolding max by (simp_all add: small_offset_def)
  have order: "0x200000 + small_offset hh \<le> 0x201000 + small_offset hh" "0x200000 + small_offset hh \<le> 0x202000 + small_offset hh"
    "0x201000 + small_offset hh \<le> 0x202000 + small_offset hh" "0x202000 + small_offset hh \<le> 0x203000 + small_offset hh"
    "0 \<le> 0x201000 + small_offset hh" "0x200000 + small_offset hh < 0x201000 + small_offset hh"
    by (cases hh; simp add: small_offset_def)+
  show ?thesis
    using order
    by (simp add: top parse_step_def small_table small_program_header_fields parse_load_segment_def small_image_fields
        small_segment_ok small_apart upt checked_add_def min_def max_def const_defs)
qed

lemma small_parse: "ValidatedImage_parse (small_image hh) = Ok (small_validated hh)"
proof -
  have upt: "[0 ..< 3] = [0, Suc 0, 2 :: nat]" by (simp add: upt_conv_Cons)
  have "validate_magic (small_image hh) = Ok ()" by (simp add: validate_magic_def small_eval)
  moreover have "elf_validate_header (ri_header (small_raw_image hh)) = Ok ()"
    "validate_program_table (small_raw_image hh) = Ok ()" "validate_section_table (small_raw_image hh) = Ok ()"
    by (simp_all add: elf_validate_header_def validate_program_table_def validate_section_table_def small_raw_image_def
        const_defs checked_add_def checked_mul_def length_small_image)
  moreover have "elf_is_canonical (0x200000 + small_offset hh)" by (simp add: elf_is_canonical_def small_offset_def)
  ultimately show ?thesis
    by (simp add: ValidatedImage_parse_def small_raw small_image_fields upt small_steps small_validated_def del: try_fold.simps)
qed

lemma small_segments: "load_segments (small_validated hh) =
    [segment_of (small_program_header hh 5 0x200000), segment_of (small_program_header hh 4 0x201000),
     segment_of (small_program_header hh 6 0x202000)]"
proof -
  have upt: "[0 ..< 3] = [0, Suc 0, 2 :: nat]" by (simp add: upt_conv_Cons)
  show ?thesis
    by (simp add: load_segments_def small_validated_def small_image_fields upt small_table small_program_header_fields const_defs)
qed

lemma small_higher_half:
  "validate_higher_half_image (small_image True) = Ok \<lparr>hh_image = small_validated True, hh_physical_entry = 0x200000\<rparr>"
proof -
  have "backs_entry 0x200000 (segment_of (small_program_header True 5 0x200000))"
    by (simp add: backs_entry_def segment_of_def small_program_header_def checked_add_def is_executable_def const_defs)
  then show ?thesis
    by (simp add: higher_half_image_Ok small_parse small_segments Let_def)
      (simp add: small_validated_def vi_entry_def small_image_fields segment_of_def small_program_header_def
        higher_half_segment_ok_def const_defs small_offset_def)
qed

lemma small_bootstrap: "validate_bootstrap_image (small_image False) = Ok (small_validated False)"
  by (simp add: bootstrap_image_Ok small_parse small_segments Let_def)
    (simp add: small_validated_def vi_entry_def small_image_fields segment_of_def small_program_header_def
        bootstrap_segment_ok_def is_executable_def is_readable_def is_writable_def const_defs small_offset_def)

section \<open>Properties\<close>

text \<open>
  C34. Validating a kernel image never panics, whatever bytes the file has, and an image that is
  accepted is safe to load: the iterator over load segments yields at least one segment, every
  segment has a size, lies inside the file, inside the physical and the canonical virtual address
  space, respects its alignment and is not both writable and executable; no two segments overlap,
  physically or virtually; the load ranges stored are the exact spans of the segments; and the
  entry point lies in an executable segment.
\<close>
theorem validated_image_safe:
  assumes "length bytes < 2 ^ 64"
  shows "ValidatedImage_parse bytes \<noteq> Panic
    \<and> (\<forall>img. ValidatedImage_parse bytes = Ok img \<longrightarrow> image_ok bytes img)"
  using ValidatedImage_parse_no_panic [OF assms] parse_image_ok [OF _ assms] by blast

theorem validated_image_safe_witness:
  "ValidatedImage_parse (small_image True) = Ok (small_validated True) \<and> image_ok (small_image True) (small_validated True)"
proof -
  have "length (small_image True) < 2 ^ 64" by (simp add: length_small_image)
  from validated_image_safe [OF this] show ?thesis using small_parse by blast
qed

text \<open>
  C35. The higher-half profile accepts exactly the valid images linked at the kernel's address:
  entry and spans start at the link addresses, every segment is page aligned, lies in the physical
  bootstrap window, is mapped at the fixed offset into the kernel image region, and is read-execute,
  read-only or read-write, with one segment of each kind and one with zero-initialised data. The
  physical entry is always \<open>0x200000\<close>: the check that a segment backs it cannot fail once the
  others pass. It never panics.
\<close>

theorem higher_half_image_correct:
  assumes "length bytes < 2 ^ 64"
  shows "validate_higher_half_image bytes \<noteq> Panic
    \<and> validate_higher_half_image bytes \<noteq> Err EntryWithoutPhysicalBacking
    \<and> (validate_higher_half_image bytes = Ok hh \<longleftrightarrow> (let img = hh_image hh; S = load_segments img in
     ValidatedImage_parse bytes = Ok img \<and> hh_physical_entry hh = 0x200000
     \<and> vi_entry img = 0xffffffff80200000 \<and> vi_load_start img = 0x200000
     \<and> vi_virtual_load_start img = 0xffffffff80200000
     \<and> (\<forall>s \<in> set S. higher_half_segment_ok s)
     \<and> (\<exists>s \<in> set S. ls_flags s = PF_READ OR PF_EXECUTE) \<and> (\<exists>s \<in> set S. ls_flags s = PF_READ)
     \<and> (\<exists>s \<in> set S. ls_flags s = PF_READ OR PF_WRITE) \<and> (\<exists>s \<in> set S. ls_file_size s < ls_memory_size s)))"
proof -
  have backed: "\<exists>s \<in> set (load_segments img). backs_entry 0x200000 s"
    if "ValidatedImage_parse bytes = Ok img" "\<forall>s \<in> set (load_segments img). higher_half_segment_ok s"
      "vi_entry img = 0xffffffff80200000" for img
    using entry_backed parse_image_ok assms that by blast
  have "validate_higher_half_image bytes \<noteq> Err EntryWithoutPhysicalBacking"
    using backed by (rule entry_backing_error)
  then show ?thesis
    unfolding higher_half_image_Ok Let_def using backed [of "hh_image hh"] higher_half_no_panic(1) [OF assms] by blast
qed

theorem higher_half_image_correct_witness:
  "validate_higher_half_image (small_image True) = Ok \<lparr>hh_image = small_validated True, hh_physical_entry = 0x200000\<rparr>
   \<and> list_all higher_half_segment_ok (load_segments (small_validated True))"
proof -
  have "length (small_image True) < 2 ^ 64" by (simp add: length_small_image)
  from higher_half_image_correct [OF this, of "\<lparr>hh_image = small_validated True, hh_physical_entry = 0x200000\<rparr>"]
  show ?thesis using small_higher_half by (simp add: Let_def list_all_iff)
qed

text \<open>
  C36. The bootstrap profile accepts exactly the valid images whose segments are identity mapped and
  page aligned, entered and loaded at \<open>0x200000\<close>, with an executable, a read-only and a writable
  segment and zero-initialised data; it never panics.
\<close>

theorem bootstrap_image_correct:
  assumes "length bytes < 2 ^ 64"
  shows "validate_bootstrap_image bytes \<noteq> Panic
    \<and> (validate_bootstrap_image bytes = Ok img \<longleftrightarrow> (let S = load_segments img in
     ValidatedImage_parse bytes = Ok img \<and> vi_entry img = 0x200000 \<and> vi_load_start img = 0x200000
     \<and> (\<forall>s \<in> set S. bootstrap_segment_ok s)
     \<and> (\<exists>s \<in> set S. is_executable s) \<and> (\<exists>s \<in> set S. is_readable s \<and> \<not> is_writable s \<and> \<not> is_executable s)
     \<and> (\<exists>s \<in> set S. is_writable s \<and> \<not> is_executable s) \<and> (\<exists>s \<in> set S. ls_file_size s < ls_memory_size s)))"
  using bootstrap_image_Ok higher_half_no_panic(2) [OF assms] by blast

theorem bootstrap_image_correct_witness:
  "validate_bootstrap_image (small_image False) = Ok (small_validated False)
   \<and> list_all bootstrap_segment_ok (load_segments (small_validated False))"
proof -
  have "length (small_image False) < 2 ^ 64" by (simp add: length_small_image)
  from bootstrap_image_correct [OF this, of "small_validated False"] show ?thesis
    using small_bootstrap by (simp add: Let_def list_all_iff)
qed

text \<open>
  C37. The total size of a higher-half image never overflows: it is the sum of the segment sizes, and
  at most the 64 MiB of the bootstrap window, because the segments are disjoint.
\<close>
theorem total_load_size_bounded:
  assumes "validate_higher_half_image bytes = Ok hh" and "length bytes < 2 ^ 64"
  shows "\<exists>t. total_physical_load_size hh = Ok t
    \<and> unat t = sum_list (map (\<lambda>s. unat (ls_memory_size s)) (load_segments (hh_image hh))) \<and> unat t \<le> 0x4000000"
proof -
  let ?S = "load_segments (hh_image hh)"
  have "ValidatedImage_parse bytes = Ok (hh_image hh)" and hh: "\<forall>s \<in> set ?S. higher_half_segment_ok s"
    using assms(1) by (simp_all add: higher_half_image_Ok Let_def)
  then have ok: "sorted_wrt segments_apart ?S"
    using parse_image_ok assms(2) by (auto simp: image_ok_def Let_def)
  have "sum_list (map (\<lambda>s. unat (ls_memory_size s)) ?S) \<le> 0x4200000 - 0x200000"
  proof (rule disjoint_lengths [where a = "\<lambda>s. unat (ls_physical_address s)"])
    show "sorted_wrt (\<lambda>s t. unat (ls_physical_address s) + unat (ls_memory_size s) \<le> unat (ls_physical_address t)
        \<or> unat (ls_physical_address t) + unat (ls_memory_size t) \<le> unat (ls_physical_address s)) ?S"
      using ok by (rule sorted_wrt_mono_rel [rotated]) (auto simp: segments_apart_def)
  qed (use hh in \<open>auto simp: higher_half_segment_ok_def\<close>)
  then show ?thesis using checked_sizes [of 0 ?S SpanOverflow] by (auto simp: total_physical_load_size_def)
qed

theorem total_load_size_bounded_witness:
  "\<exists>t. total_physical_load_size \<lparr>hh_image = small_validated True, hh_physical_entry = 0x200000\<rparr> = Ok t \<and> unat t = 12288"
  using total_load_size_bounded [OF small_higher_half] length_small_image
  by (auto simp: small_segments segment_of_def small_program_header_def)
end
