(* ===== verification/Page_Owner.thy ===== *)
theory Page_Owner
  imports Resource_Owner
begin

text \<open>
  Page allocations with ownership flags. \<^verbatim>\<open>TargetOwnership\<close> of the kernel loader and
  \<^verbatim>\<open>PreparedBootInfo\<close> keep an array of allocations and a parallel array of flags, and release
  them with the same two loops: from the last allocation to the first, \<^verbatim>\<open>try_release\<close> stopping at
  the first allocation the backend refuses, \<^verbatim>\<open>drop\<close> going on and keeping the flag of a refused
  one. The page backend (\<^verbatim>\<open>PageBackend\<close>, firmware) is a parameter.
\<close>

section \<open>The backend and the loops\<close>

record ('b, 'e) page_backend =
  allocate_at :: "'b \<Rightarrow> u64 \<Rightarrow> u64 \<Rightarrow> 'b \<times> ('e + unit)"
  free_pages :: "'b \<Rightarrow> u64 \<Rightarrow> u64 \<Rightarrow> 'b \<times> ('e + unit)"

text \<open>The start and the number of pages of an allocation.\<close>

type_synonym pages = "u64 \<times> u64"

fun release_flagged ::
    "('b \<Rightarrow> u64 \<Rightarrow> u64 \<Rightarrow> 'b \<times> ('e + unit)) \<Rightarrow> pages list \<Rightarrow> nat \<Rightarrow> 'b \<Rightarrow> bool list
     \<Rightarrow> ('b \<times> bool list, 'b \<times> bool list \<times> nat \<times> 'e) result" where
  "release_flagged free items 0 backend owned = Ok (backend, owned)"
| "release_flagged free items (Suc index) backend owned =
     and_then (arr_get owned index) (\<lambda>flag.
     if flag then
       and_then (arr_get items index) (\<lambda>(page_start, page_count).
       case free backend page_start page_count of
         (backend', Inl source) \<Rightarrow> Err (backend', owned, index, source)
       | (backend', Inr _) \<Rightarrow>
           and_then (arr_set owned index False) (\<lambda>owned'. release_flagged free items index backend' owned'))
     else release_flagged free items index backend owned)"

fun drop_flagged ::
    "('b \<Rightarrow> u64 \<Rightarrow> u64 \<Rightarrow> 'b \<times> ('e + unit)) \<Rightarrow> pages list \<Rightarrow> nat \<Rightarrow> 'b \<Rightarrow> bool list
     \<Rightarrow> ('b \<times> bool list, 'x) result" where
  "drop_flagged free items 0 backend owned = Ok (backend, owned)"
| "drop_flagged free items (Suc index) backend owned =
     and_then (arr_get owned index) (\<lambda>flag.
     if flag then
       and_then (arr_get items index) (\<lambda>(page_start, page_count).
       case free backend page_start page_count of
         (backend', Inl _) \<Rightarrow> drop_flagged free items index backend' owned
       | (backend', Inr _) \<Rightarrow>
           and_then (arr_set owned index False) (\<lambda>owned'. drop_flagged free items index backend' owned'))
     else drop_flagged free items index backend owned)"

text \<open>\<^verbatim>\<open>self.owned[..len].iter().filter(|owned| **owned).count()\<close>.\<close>

definition remaining_flags :: "nat \<Rightarrow> bool list \<Rightarrow> nat" where
  "remaining_flags n owned = length (filter id (take n owned))"

section \<open>Instrumented backends\<close>

text \<open>
  The log of the calls on the pages. A client that calls the backend for other work records it in
  the same log, as \<open>OtherCall\<close>, so that the order of all calls can be stated.
\<close>

datatype ('e, 'w) page_event =
    PagesAllocated u64 u64
  | PagesDenied u64 u64 'e
  | PagesFreed u64 u64
  | PagesRefused u64 u64 'e
  | OtherCall 'w

definition log_free ::
    "('b \<Rightarrow> u64 \<Rightarrow> u64 \<Rightarrow> 'b \<times> ('e + unit))
     \<Rightarrow> 'b \<times> ('e, 'w) page_event list \<Rightarrow> u64 \<Rightarrow> u64 \<Rightarrow> ('b \<times> ('e, 'w) page_event list) \<times> ('e + unit)" where
  "log_free free = (\<lambda>(b, log) s c. case free b s c of
      (b', Inl e) \<Rightarrow> ((b', log @ [PagesRefused s c e]), Inl e)
    | (b', Inr u) \<Rightarrow> ((b', log @ [PagesFreed s c]), Inr u))"

definition log_allocate ::
    "('b \<Rightarrow> u64 \<Rightarrow> u64 \<Rightarrow> 'b \<times> ('e + unit))
     \<Rightarrow> 'b \<times> ('e, 'w) page_event list \<Rightarrow> u64 \<Rightarrow> u64 \<Rightarrow> ('b \<times> ('e, 'w) page_event list) \<times> ('e + unit)" where
  "log_allocate allocate = (\<lambda>(b, log) s c. case allocate b s c of
      (b', Inl e) \<Rightarrow> ((b', log @ [PagesDenied s c e]), Inl e)
    | (b', Inr u) \<Rightarrow> ((b', log @ [PagesAllocated s c]), Inr u))"

fun pages_freed :: "('e, 'w) page_event list \<Rightarrow> pages list" where
  "pages_freed [] = []"
| "pages_freed (PagesFreed s c # log) = (s, c) # pages_freed log"
| "pages_freed (_ # log) = pages_freed log"

fun pages_allocated :: "('e, 'w) page_event list \<Rightarrow> pages list" where
  "pages_allocated [] = []"
| "pages_allocated (PagesAllocated s c # log) = (s, c) # pages_allocated log"
| "pages_allocated (_ # log) = pages_allocated log"

lemma pages_freed_append [simp]: "pages_freed (xs @ ys) = pages_freed xs @ pages_freed ys"
  by (induction xs rule: pages_freed.induct) auto

lemma pages_allocated_append [simp]:
  "pages_allocated (xs @ ys) = pages_allocated xs @ pages_allocated ys"
  by (induction xs rule: pages_allocated.induct) auto

lemma free_logged:
  obtains (refused) b' e where "free b s c = (b', Inl e)"
      "log_free free (b, log) s c = ((b', log @ [PagesRefused s c e]), Inl e)"
  | (accepted) b' where "free b s c = (b', Inr ())"
      "log_free free (b, log) s c = ((b', log @ [PagesFreed s c]), Inr ())"
  by (cases "free b s c"; cases "snd (free b s c)") (auto simp: log_free_def)

lemma allocate_logged:
  obtains (denied) b' e where "allocate b s c = (b', Inl e)"
      "log_allocate allocate (b, log) s c = ((b', log @ [PagesDenied s c e]), Inl e)"
  | (granted) b' where "allocate b s c = (b', Inr ())"
      "log_allocate allocate (b, log) s c = ((b', log @ [PagesAllocated s c]), Inr ())"
  by (cases "allocate b s c"; cases "snd (allocate b s c)") (auto simp: log_allocate_def)

section \<open>What the loops release\<close>

text \<open>The allocations among the first \<open>n\<close> whose flag is set, in order.\<close>

definition flagged :: "pages list \<Rightarrow> bool list \<Rightarrow> nat \<Rightarrow> pages list" where
  "flagged items owned n = map fst (filter snd (take n (zip items owned)))"

lemma flagged_0 [simp]: "flagged items owned 0 = []"
  by (simp add: flagged_def)

lemma flagged_Suc:
  "n < length items \<Longrightarrow> n < length owned \<Longrightarrow>
   flagged items owned (Suc n) = flagged items owned n @ (if owned ! n then [items ! n] else [])"
  by (simp add: flagged_def take_Suc_conv_app_nth)

lemma flagged_update [simp]: "n \<le> i \<Longrightarrow> flagged items (owned[i := v]) n = flagged items owned n"
  by (simp add: flagged_def take_zip)

lemma length_flagged:
  assumes "n \<le> length items" and "n \<le> length owned"
  shows "length (flagged items owned n) = remaining_flags n owned"
proof -
  have "length xs = length ys \<Longrightarrow> length (filter snd (zip xs ys)) = length (filter id ys)"
    for xs :: "pages list" and ys
    by (induction xs ys rule: list_induct2) auto
  then show ?thesis using assms by (simp add: flagged_def remaining_flags_def take_zip)
qed

text \<open>The flags from \<open>i\<close> to \<open>n\<close> cleared.\<close>

definition clear_flags :: "nat \<Rightarrow> nat \<Rightarrow> bool list \<Rightarrow> bool list" where
  "clear_flags i n owned = map (\<lambda>j. owned ! j \<and> \<not> (i \<le> j \<and> j < n)) [0 ..< length owned]"

lemma length_clear_flags [simp]: "length (clear_flags i n owned) = length owned"
  by (simp add: clear_flags_def)

lemma clear_flags_none [simp]: "clear_flags n n owned = owned"
  by (rule nth_equalityI) (auto simp: clear_flags_def)

lemma clear_flags_Suc:
  assumes "i \<le> n" "n < length owned"
  shows "clear_flags i n (owned[n := False]) = clear_flags i (Suc n) owned"
    and "\<not> owned ! n \<Longrightarrow> clear_flags i n owned = clear_flags i (Suc n) owned"
  using assms by (auto simp: clear_flags_def nth_list_update less_Suc_eq)

lemma flagged_clear:
  assumes "i \<le> n" "n \<le> length items" "n \<le> length owned"
  shows "flagged items (clear_flags i n owned) n = flagged items owned i"
proof -
  have "flagged items (clear_flags i n owned) k = flagged items owned (min i k)" if "k \<le> n" for k
    using that
  proof (induction k)
    case (Suc k)
    then show ?case using assms
      by (cases "i \<le> k") (auto simp: flagged_Suc clear_flags_def min_def not_less_eq_eq)
  qed simp
  from this [of n] show ?thesis using assms(1) by (simp add: min_def)
qed

abbreviation freed_events :: "pages list \<Rightarrow> ('e, 'w) page_event list" where
  "freed_events xs \<equiv> map (\<lambda>(s, c). PagesFreed s c) xs"

lemma pages_freed_events [simp]: "pages_freed (freed_events xs) = xs"
  by (induction xs) auto

lemma release_flagged_outcome:
  assumes "n \<le> length items" "n \<le> length owned"
  shows "(\<exists>b'. release_flagged (log_free free) items n (b, log) owned
          = Ok ((b', log @ freed_events (rev (flagged items owned n))), clear_flags 0 n owned))
    \<or> (\<exists>b' i e rest. release_flagged (log_free free) items n (b, log) owned
          = Err ((b', log @ freed_events (rev rest) @ [PagesRefused (fst (items ! i)) (snd (items ! i)) e]),
                 clear_flags (Suc i) n owned, i, e)
        \<and> i < n \<and> owned ! i \<and> flagged items owned n = flagged items owned (Suc i) @ rest)"
  using assms
proof (induction n arbitrary: b log owned)
  case (Suc n)
  obtain s c where sc: "items ! n = (s, c)" by fastforce
  note held = flagged_Suc [of n items owned]
  show ?case
  proof (cases "owned ! n")
    case False
    then have step: "release_flagged (log_free free) items (Suc n) (b, log) owned
        = release_flagged (log_free free) items n (b, log) owned" using Suc.prems by simp
    have clear: "i \<le> n \<Longrightarrow> clear_flags i n owned = clear_flags i (Suc n) owned" for i
      using clear_flags_Suc(2) [of i n owned] False Suc.prems by simp
    have same: "flagged items owned (Suc n) = flagged items owned n" using held False Suc.prems by simp
    show ?thesis unfolding step same using Suc.IH [of owned b log] clear Suc.prems by (metis Suc_leD Suc_leI less_Suc_eq zero_le)
  next
    case True
    show ?thesis
    proof (cases rule: free_logged [of free b s c log])
      case (refused b' e)
      then have step: "release_flagged (log_free free) items (Suc n) (b, log) owned
          = Err ((b', log @ [PagesRefused s c e]), owned, n, e)"
        using True sc Suc.prems by simp
      show ?thesis unfolding step
        by (intro disjI2 exI [of _ b'] exI [of _ n] exI [of _ e] exI [of _ "[]"]) (use True sc in simp)
    next
      case (accepted b')
      then have step: "release_flagged (log_free free) items (Suc n) (b, log) owned
          = release_flagged (log_free free) items n (b', log @ [PagesFreed s c]) (owned[n := False])"
        using True sc Suc.prems by simp
      have clear: "i \<le> n \<Longrightarrow> clear_flags i n (owned[n := False]) = clear_flags i (Suc n) owned" for i
        using clear_flags_Suc(1) [of i n owned] Suc.prems by simp
      have last: "flagged items owned (Suc n) = flagged items owned n @ [(s, c)]" using held True sc Suc.prems by simp
      consider (ok) b'' where "release_flagged (log_free free) items n (b', log @ [PagesFreed s c]) (owned[n := False])
          = Ok ((b'', (log @ [PagesFreed s c]) @ freed_events (rev (flagged items owned n))), clear_flags 0 (Suc n) owned)"
        | (err) b'' i e rest where "release_flagged (log_free free) items n (b', log @ [PagesFreed s c]) (owned[n := False])
          = Err ((b'', (log @ [PagesFreed s c]) @ freed_events (rev rest) @ [PagesRefused (fst (items ! i)) (snd (items ! i)) e]),
                 clear_flags (Suc i) (Suc n) owned, i, e)"
           "i < n" "owned ! i" "flagged items owned n = flagged items owned (Suc i) @ rest"
        using Suc.IH [of "owned[n := False]" b' "log @ [PagesFreed s c]"] Suc.prems clear by fastforce
      then show ?thesis
      proof cases
        case ok
        then show ?thesis unfolding step last by simp
      next
        case err
        then show ?thesis unfolding step last by (intro disjI2 exI [of _ b''] exI [of _ i] exI [of _ e] exI [of _ "rest @ [(s, c)]"]) simp
      qed
    qed
  qed
qed simp

lemma drop_flagged_outcome:
  fixes log :: "('e, 'w) page_event list"
  assumes "n \<le> length items" "n \<le> length owned"
  shows "\<exists>b' log' owned'. (drop_flagged (log_free free) items n (b, log) owned :: (_, 'x) result) = Ok ((b', log @ log'), owned')
    \<and> length owned' = length owned \<and> drop n owned' = drop n owned
    \<and> mset (flagged items owned n) = mset (pages_freed log') + mset (flagged items owned' n)"
  using assms
proof (induction n arbitrary: b log owned)
  case (Suc n)
  obtain s c where sc: "items ! n = (s, c)" by fastforce
  have IH: "\<exists>b' log' owned'. (drop_flagged (log_free free) items n (b1, log1) fl :: (_, 'x) result) = Ok ((b', log1 @ log'), owned')
    \<and> length owned' = length owned \<and> owned' ! n = fl ! n \<and> drop (Suc n) owned' = drop (Suc n) owned
    \<and> mset (flagged items owned n) = mset (pages_freed log') + mset (flagged items owned' n)"
    if "fl = owned \<or> fl = owned[n := False]" for b1 fl and log1 :: "('e, 'w) page_event list"
  proof -
    have fl: "length fl = length owned" "drop (Suc n) fl = drop (Suc n) owned" "flagged items fl n = flagged items owned n"
      using that by auto
    then obtain b' log' owned' where r: "(drop_flagged (log_free free) items n (b1, log1) fl :: (_, 'x) result) = Ok ((b', log1 @ log'), owned')"
      "length owned' = length owned" "drop n owned' = drop n fl"
      "mset (flagged items owned n) = mset (pages_freed log') + mset (flagged items owned' n)"
      using Suc.IH [of fl b1 log1] Suc.prems by (metis Suc_leD)
    have "owned' ! n # drop (Suc n) owned' = fl ! n # drop (Suc n) fl"
      using r(2,3) fl(1) Suc.prems by (simp add: Cons_nth_drop_Suc)
    then show ?thesis using r fl by auto
  qed
  note Sucs = flagged_Suc [of n items]
  show ?case
  proof (cases "owned ! n")
    case False
    then show ?thesis using IH [of owned b log] Sucs Suc.prems by fastforce
  next
    case True
    show ?thesis
    proof (cases rule: free_logged [of free b s c log])
      case (refused b' e)
      then have step: "(drop_flagged (log_free free) items (Suc n) (b, log) owned :: (_, 'x) result)
          = drop_flagged (log_free free) items n (b', log @ [PagesRefused s c e]) owned"
        using True sc Suc.prems by simp
      obtain b'' log' owned' where "(drop_flagged (log_free free) items n (b', log @ [PagesRefused s c e]) owned :: (_, 'x) result)
          = Ok ((b'', (log @ [PagesRefused s c e]) @ log'), owned')" "length owned' = length owned" "owned' ! n"
        "drop (Suc n) owned' = drop (Suc n) owned"
        "mset (flagged items owned n) = mset (pages_freed log') + mset (flagged items owned' n)"
        using IH [of owned b' "log @ [PagesRefused s c e]"] True by auto
      then show ?thesis unfolding step
        by (intro exI [of _ b''] exI [of _ "PagesRefused s c e # log'"] exI [of _ owned'])
          (use True Sucs Suc.prems in simp)
    next
      case (accepted b')
      then have step: "(drop_flagged (log_free free) items (Suc n) (b, log) owned :: (_, 'x) result)
          = drop_flagged (log_free free) items n (b', log @ [PagesFreed s c]) (owned[n := False])"
        using True sc Suc.prems by simp
      obtain b'' log' owned' where "(drop_flagged (log_free free) items n (b', log @ [PagesFreed s c]) (owned[n := False]) :: (_, 'x) result)
          = Ok ((b'', (log @ [PagesFreed s c]) @ log'), owned')" "length owned' = length owned" "\<not> owned' ! n"
        "drop (Suc n) owned' = drop (Suc n) owned"
        "mset (flagged items owned n) = mset (pages_freed log') + mset (flagged items owned' n)"
        using IH [of "owned[n := False]" b' "log @ [PagesFreed s c]"] Suc.prems by auto
      then show ?thesis unfolding step
        by (intro exI [of _ b''] exI [of _ "PagesFreed s c # log'"] exI [of _ owned'])
          (use True Sucs sc Suc.prems in simp)
    qed
  qed
qed simp
end
