(* ===== verification/Load_Plan.thy ===== *)
theory Load_Plan
  imports Kernel_Image_Facts
begin

text \<open>
  The load plan (\<^verbatim>\<open>crates/bootloader/src/load_plan.rs\<close>): where each segment of a kernel image goes,
  which pages it takes, and what is copied and cleared there.
\<close>

section \<open>Data\<close>

definition BOOTSTRAP_WINDOW_START :: u64 where [const_defs]: "BOOTSTRAP_WINDOW_START = 0x00200000"
definition BOOTSTRAP_WINDOW_END :: u64 where [const_defs]: "BOOTSTRAP_WINDOW_END = 0x04200000"
definition BOOTSTRAP_WINDOW_BYTES :: u64 where [const_defs]: "BOOTSTRAP_WINDOW_BYTES = 64 * 1024 * 1024"
definition LOAD_PAGE_SIZE :: u64 where [const_defs]: "LOAD_PAGE_SIZE = 4096"
definition MAX_LOAD_ITEMS :: nat where [const_defs]: "MAX_LOAD_ITEMS = unat MAX_PROGRAM_HEADERS"

datatype plan_error =
    NoSegments | TooManySegments | ZeroMemorySize | UnalignedTarget | SourceRangeOverflow
  | LpRangeOverflow | PageRoundingOverflow | SourceOutsideFile | BelowWindow | AboveWindow
  | TotalSizeOverflow | TotalSizeExceeded | RoundedOverlap | SourceOverlap
  | LpEntryOutsideExecutableSegment

record source_allocation =
  sa_page_start :: u64
  sa_page_count :: u64
  sa_file_length :: u64

definition sa_page_end :: "source_allocation \<Rightarrow> (u64, plan_error) result" where
  "sa_page_end source =
     and_then (ok_or (checked_mul (sa_page_count source) LOAD_PAGE_SIZE) LpRangeOverflow) (\<lambda>bytes.
     ok_or (checked_add (sa_page_start source) bytes) LpRangeOverflow)"

record segment_spec =
  ss_file_offset :: u64
  ss_file_size :: u64
  ss_memory_size :: u64
  ss_target :: u64
  ss_flags :: u32

record load_item =
  li_source_offset :: u64
  li_file_size :: u64
  li_memory_size :: u64
  li_target_start :: u64
  li_target_end :: u64
  li_page_start :: u64
  li_page_count :: u64
  li_flags :: u32
  li_bss_start :: u64
  li_bss_length :: u64
  li_zero_offset :: u64
  li_zero_length :: u64
  li_copy_offset :: u64
  li_padding_start :: u64
  li_padding_length :: u64

definition LoadItem_EMPTY :: load_item where
  "LoadItem_EMPTY =
     \<lparr>li_source_offset = 0, li_file_size = 0, li_memory_size = 0, li_target_start = 0, li_target_end = 0,
      li_page_start = 0, li_page_count = 0, li_flags = 0, li_bss_start = 0, li_bss_length = 0,
      li_zero_offset = 0, li_zero_length = 0, li_copy_offset = 0, li_padding_start = 0,
      li_padding_length = 0\<rparr>"

definition li_page_length :: "load_item \<Rightarrow> u64" where
  "li_page_length item = li_zero_length item"

definition li_is_executable :: "load_item \<Rightarrow> bool" where
  "li_is_executable item \<longleftrightarrow> li_flags item AND 1 \<noteq> 0"

record load_plan =
  lp_items :: "load_item list"
  lp_len :: nat
  lp_total_page_bytes :: u64
  lp_entry :: u64

section \<open>Operations\<close>

definition round_down :: "u64 \<Rightarrow> u64 \<Rightarrow> (u64, plan_error) result" where
  "round_down value alignment =
     and_then (expect (checked_sub alignment 1)) (\<lambda>low. Ok (value AND NOT low))"

definition round_up :: "u64 \<Rightarrow> u64 \<Rightarrow> (u64, plan_error) result" where
  "round_up value alignment =
     and_then (expect (checked_sub alignment 1)) (\<lambda>low.
     ok_or (map_option (\<lambda>rounded. rounded AND NOT low) (checked_add value low)) PageRoundingOverflow)"

definition lp_ranges_overlap :: "u64 \<Rightarrow> u64 \<Rightarrow> u64 \<Rightarrow> u64 \<Rightarrow> bool" where
  "lp_ranges_overlap left_start left_end right_start right_end \<longleftrightarrow>
     left_start < right_end \<and> right_start < left_end"

definition make_item :: "segment_spec \<Rightarrow> u64 \<Rightarrow> (load_item, plan_error) result" where
  "make_item segment source_length =
     (if ss_memory_size segment = 0 then Err ZeroMemorySize
      else if \<not> is_multiple_of (ss_target segment) LOAD_PAGE_SIZE then Err UnalignedTarget
      else
        and_then (ok_or (checked_add (ss_file_offset segment) (ss_file_size segment)) SourceRangeOverflow)
          (\<lambda>source_end.
        if source_end > source_length then Err SourceOutsideFile
        else
          and_then (ok_or (checked_add (ss_target segment) (ss_memory_size segment)) LpRangeOverflow)
            (\<lambda>target_end.
          and_then (round_down (ss_target segment) LOAD_PAGE_SIZE) (\<lambda>page_start.
          and_then (round_up target_end LOAD_PAGE_SIZE) (\<lambda>page_end.
          and_then (ok_or (checked_sub page_end page_start) LpRangeOverflow) (\<lambda>page_length.
          let page_count = page_length div LOAD_PAGE_SIZE in
          if page_count = 0 then Err ZeroMemorySize
          else
            and_then (ok_or (checked_add (ss_target segment) (ss_file_size segment)) LpRangeOverflow)
              (\<lambda>bss_start.
            and_then (ok_or (checked_sub (ss_memory_size segment) (ss_file_size segment)) LpRangeOverflow)
              (\<lambda>bss_length.
            and_then (ok_or (checked_sub (ss_target segment) page_start) LpRangeOverflow) (\<lambda>copy_offset.
            and_then (ok_or (checked_sub page_end target_end) LpRangeOverflow) (\<lambda>padding_length.
            Ok \<lparr>li_source_offset = ss_file_offset segment, li_file_size = ss_file_size segment,
                li_memory_size = ss_memory_size segment, li_target_start = ss_target segment,
                li_target_end = target_end, li_page_start = page_start, li_page_count = page_count,
                li_flags = ss_flags segment, li_bss_start = bss_start, li_bss_length = bss_length,
                li_zero_offset = 0, li_zero_length = page_length, li_copy_offset = copy_offset,
                li_padding_start = target_end, li_padding_length = padding_length\<rparr>))))))))))"

definition lp_live_items :: "load_plan \<Rightarrow> (load_item list, 'x) result" where
  "lp_live_items plan = slice (lp_items plan) 0 (lp_len plan)"

definition check_previous_item :: "load_item \<Rightarrow> u64 \<Rightarrow> load_item \<Rightarrow> (unit, plan_error) result" where
  "check_previous_item item page_end previous =
     and_then (ok_or (checked_add (li_page_start previous) (li_page_length previous)) LpRangeOverflow)
       (\<lambda>previous_end.
     if lp_ranges_overlap (li_page_start previous) previous_end (li_page_start item) page_end
     then Err RoundedOverlap else Ok ())"

text \<open>The body of the loop of \<^verbatim>\<open>LoadPlan::build\<close>.\<close>

definition plan_segment ::
    "source_allocation \<Rightarrow> u64 \<Rightarrow> load_plan \<Rightarrow> segment_spec \<Rightarrow> (load_plan, plan_error) result" where
  "plan_segment source source_page_end plan segment =
     (if lp_len plan = MAX_LOAD_ITEMS then Err TooManySegments
      else
        and_then (make_item segment (sa_file_length source)) (\<lambda>item.
        if li_page_start item < BOOTSTRAP_WINDOW_START then Err BelowWindow
        else
          and_then (ok_or (checked_add (li_page_start item) (li_page_length item)) LpRangeOverflow)
            (\<lambda>page_end.
          if page_end > BOOTSTRAP_WINDOW_END then Err AboveWindow
          else
            and_then (lp_live_items plan) (\<lambda>live.
            and_then (try_fold (\<lambda>_. check_previous_item item page_end) () live) (\<lambda>_.
            if lp_ranges_overlap (sa_page_start source) source_page_end (li_page_start item) page_end
            then Err SourceOverlap
            else
              and_then (ok_or (checked_add (lp_total_page_bytes plan) (li_page_length item)) TotalSizeOverflow)
                (\<lambda>total_bytes.
              if total_bytes > BOOTSTRAP_WINDOW_BYTES then Err TotalSizeExceeded
              else
                and_then (arr_set (lp_items plan) (lp_len plan) item) (\<lambda>items.
                Ok (plan\<lparr>lp_items := items, lp_len := lp_len plan + 1,
                          lp_total_page_bytes := total_bytes\<rparr>))))))))"

definition entry_item :: "u64 \<Rightarrow> load_item \<Rightarrow> bool" where
  "entry_item entry item \<longleftrightarrow>
     li_is_executable item \<and> entry \<ge> li_target_start item \<and> entry < li_target_end item"

definition LoadPlan_build ::
    "u64 \<Rightarrow> segment_spec list \<Rightarrow> source_allocation \<Rightarrow> (load_plan, plan_error) result" where
  "LoadPlan_build entry segments source =
     and_then (sa_page_end source) (\<lambda>source_page_end.
     and_then (try_fold (plan_segment source source_page_end)
         \<lparr>lp_items = replicate MAX_LOAD_ITEMS LoadItem_EMPTY, lp_len = 0, lp_total_page_bytes = 0,
          lp_entry = entry\<rparr> segments) (\<lambda>plan.
     if lp_len plan = 0 then Err NoSegments
     else
       and_then (lp_live_items plan) (\<lambda>live.
       if \<not> list_ex (entry_item entry) live then Err LpEntryOutsideExecutableSegment
       else Ok plan)))"

definition spec_of_segment :: "load_segment \<Rightarrow> segment_spec" where
  "spec_of_segment s =
     \<lparr>ss_file_offset = ls_file_offset s, ss_file_size = ls_file_size s, ss_memory_size = ls_memory_size s,
      ss_target = ls_physical_address s, ss_flags = ls_flags s\<rparr>"

definition LoadPlan_from_validated ::
    "validated_image \<Rightarrow> source_allocation \<Rightarrow> (load_plan, plan_error) result" where
  "LoadPlan_from_validated img source =
     LoadPlan_build (vi_entry img) (map spec_of_segment (load_segments img)) source"

section \<open>Rounding\<close>

lemma unat_round_page:
  "unat (x AND NOT 0xFFF :: u64) = unat x - unat x mod 4096"
proof -
  have "(0xFFF :: u64) = mask 12" by (simp add: mask_eq_exp_minus_1)
  then show ?thesis using unat_and_not_mask [of x 12] by simp
qed

definition page_ceiling :: "nat \<Rightarrow> nat" where
  "page_ceiling n = (n + 4095) div 4096 * 4096"

lemma page_ceiling_bounds: "n \<le> page_ceiling n" "page_ceiling n < n + 4096" "page_ceiling n mod 4096 = 0"
  by (auto simp: page_ceiling_def)

lemma page_ceiling_least: "n \<le> k \<Longrightarrow> k mod 4096 = 0 \<Longrightarrow> page_ceiling n \<le> k"
proof -
  assume "n \<le> k" "k mod 4096 = 0"
  then obtain q where "n \<le> q * 4096" "k = q * 4096" by (metis mod_0_imp_dvd dvd_div_mult_self)
  then show ?thesis using div_less_iff_less_mult [of 4096 "n + 4095" "Suc q"] by (simp add: page_ceiling_def less_Suc_eq_le)
qed

lemma round_down_aligned: "unat v mod 4096 = 0 \<Longrightarrow> round_down v LOAD_PAGE_SIZE = Ok v"
proof -
  assume "unat v mod 4096 = 0"
  then have "v AND NOT 0xFFF = v" by (simp only: word_eq_nat unat_round_page)
  moreover have "checked_sub (4096 :: u64) 1 = Some 0xFFF" by simp
  ultimately show ?thesis by (simp add: round_down_def const_defs del: checked_sub_Some)
qed

lemma round_up_Ok: "round_up v LOAD_PAGE_SIZE = Ok r \<longleftrightarrow> unat v + 4095 < 2 ^ 64 \<and> unat r = page_ceiling (unat v)"
proof -
  have low: "checked_sub (4096 :: u64) 1 = Some 0xFFF" by simp
  have "unat (w AND NOT 0xFFF) = page_ceiling (unat v)" if "unat w = unat v + 4095" for w :: u64
    unfolding unat_round_page that page_ceiling_def by (simp add: minus_mod_eq_div_mult)
  then show ?thesis
    using ex_unat [where 'a = 64, of "unat v + 4095"]
    by (auto simp: round_up_def const_defs low word_eq_nat simp del: checked_sub_Some)
qed

lemma round_no_panic: "round_down v LOAD_PAGE_SIZE \<noteq> Panic" "round_up v LOAD_PAGE_SIZE \<noteq> Panic"
proof -
  have low: "checked_sub (4096 :: u64) 1 = Some 0xFFF" by simp
  show "round_down v LOAD_PAGE_SIZE \<noteq> Panic" "round_up v LOAD_PAGE_SIZE \<noteq> Panic"
    by (simp_all add: round_down_def round_up_def const_defs low del: checked_sub_Some)
qed

section \<open>Items\<close>

text \<open>What a segment asks for, and the item it becomes.\<close>

definition spec_end :: "segment_spec \<Rightarrow> nat" where
  "spec_end seg = page_ceiling (unat (ss_target seg) + unat (ss_memory_size seg))"

definition spec_fits :: "u64 \<Rightarrow> segment_spec \<Rightarrow> bool" where
  "spec_fits source_length seg \<longleftrightarrow> ss_memory_size seg \<noteq> 0 \<and> unat (ss_target seg) mod 4096 = 0
     \<and> unat (ss_file_offset seg) + unat (ss_file_size seg) \<le> unat source_length
     \<and> ss_file_size seg \<le> ss_memory_size seg
     \<and> unat (ss_target seg) + unat (ss_memory_size seg) + 4095 < 2 ^ 64"

definition item_of :: "segment_spec \<Rightarrow> load_item" where
  "item_of seg = (let page_end = of_nat (spec_end seg); target_end = ss_target seg + ss_memory_size seg in
     \<lparr>li_source_offset = ss_file_offset seg, li_file_size = ss_file_size seg,
      li_memory_size = ss_memory_size seg, li_target_start = ss_target seg, li_target_end = target_end,
      li_page_start = ss_target seg, li_page_count = (page_end - ss_target seg) div 4096,
      li_flags = ss_flags seg, li_bss_start = ss_target seg + ss_file_size seg,
      li_bss_length = ss_memory_size seg - ss_file_size seg, li_zero_offset = 0,
      li_zero_length = page_end - ss_target seg, li_copy_offset = 0, li_padding_start = target_end,
      li_padding_length = page_end - target_end\<rparr>)"

lemma checked_sub_in_range:
  "unat b \<le> unat (a :: u64) \<Longrightarrow> checked_sub a b = Some (a - b) \<and> unat (a - b) = unat a - unat b"
  by (simp add: checked_sub_def word_le_nat_alt unat_sub)

lemma spec_end_facts:
  assumes "spec_fits L seg"
  defines "e \<equiv> of_nat (spec_end seg) :: u64"
  shows "unat e = spec_end seg" "unat (ss_target seg) + unat (ss_memory_size seg) \<le> unat e"
    "unat (ss_target seg) + 4096 \<le> unat e" "(unat e - unat (ss_target seg)) mod 4096 = 0"
    "round_up (ss_target seg + ss_memory_size seg) LOAD_PAGE_SIZE = Ok e"
proof -
  let ?t = "unat (ss_target seg)" and ?m = "unat (ss_memory_size seg)"
  have fits: "?m \<noteq> 0" "?t mod 4096 = 0" "?t + ?m + 4095 < 2 ^ 64" using assms(1) by (auto simp: spec_fits_def unat_eq_zero)
  note bounds = page_ceiling_bounds [of "?t + ?m"]
  have "spec_end seg < 2 ^ 64" using bounds fits unfolding spec_end_def by linarith
  then show e: "unat e = spec_end seg" by (simp add: e_def unat_of_nat)
  show "?t + ?m \<le> unat e" using bounds by (simp add: e spec_end_def)
  show mult: "(unat e - ?t) mod 4096 = 0"
    using bounds fits(2) unfolding e spec_end_def by (meson dvd_diff_nat mod_0_imp_dvd mod_eq_0_iff_dvd)
  then obtain q where q: "unat e - ?t = q * 4096" by (metis mod_0_imp_dvd dvd_div_mult_self)
  moreover have "unat e - ?t \<noteq> 0" using bounds fits(1) by (simp add: e spec_end_def)
  ultimately show "?t + 4096 \<le> unat e" by (cases q) auto
  have "unat (ss_target seg + ss_memory_size seg) = ?t + ?m" using checked_add_in_range fits(3) by simp
  then show "round_up (ss_target seg + ss_memory_size seg) LOAD_PAGE_SIZE = Ok e"
    using e fits(3) by (simp add: round_up_Ok spec_end_def)
qed

lemma make_item_of_spec:
  assumes "spec_fits L seg"
  shows "make_item seg L = Ok (item_of seg)"
proof -
  let ?e = "of_nat (spec_end seg) :: u64"
  note e = spec_end_facts [OF assms]
  have fits: "ss_memory_size seg \<noteq> 0" "unat (ss_target seg) mod 4096 = 0"
      "unat (ss_file_offset seg) + unat (ss_file_size seg) \<le> unat L" "unat (ss_file_size seg) \<le> unat (ss_memory_size seg)"
      "unat (ss_target seg) + unat (ss_memory_size seg) + 4095 < 2 ^ 64"
    using assms by (auto simp: spec_fits_def word_le_nat_alt)
  have target: "unat (ss_target seg + ss_memory_size seg) = unat (ss_target seg) + unat (ss_memory_size seg)"
    using checked_add_in_range fits(5) by simp
  have "4096 \<le> unat (?e - ss_target seg)" using e checked_sub_in_range [of "ss_target seg" ?e] by simp
  then have count: "(?e - ss_target seg) div 4096 \<noteq> 0" by (simp add: word_eq_nat unat_div)
  have source: "unat (ss_file_offset seg) + unat (ss_file_size seg) < 2 ^ 64" using fits(3) unat_bound [of L] by simp
  have end_: "\<not> L < ss_file_offset seg + ss_file_size seg"
    using checked_add_in_range [OF source] fits(3) by (simp add: word_less_nat_alt)
  have checked: "checked_add (ss_file_offset seg) (ss_file_size seg) = Some (ss_file_offset seg + ss_file_size seg)"
      "checked_add (ss_target seg) (ss_memory_size seg) = Some (ss_target seg + ss_memory_size seg)"
      "checked_add (ss_target seg) (ss_file_size seg) = Some (ss_target seg + ss_file_size seg)"
      "checked_sub ?e (ss_target seg) = Some (?e - ss_target seg)"
      "checked_sub (ss_memory_size seg) (ss_file_size seg) = Some (ss_memory_size seg - ss_file_size seg)"
      "checked_sub (ss_target seg) (ss_target seg) = Some 0"
      "checked_sub ?e (ss_target seg + ss_memory_size seg) = Some (?e - (ss_target seg + ss_memory_size seg))"
    using checked_add_in_range checked_sub_in_range source fits e target by simp_all
  show ?thesis
    using checked e(5) fits(1,2) end_ count round_down_aligned [OF fits(2)]
    by (simp add: make_item_def item_of_def Let_def is_multiple_of_nat LOAD_PAGE_SIZE_def
        del: checked_add_Some checked_sub_Some)
qed

lemma make_item_Ok: "make_item seg L = Ok item \<longleftrightarrow> spec_fits L seg \<and> item = item_of seg"
proof
  assume ok: "make_item seg L = Ok item"
  have "spec_fits L seg"
  proof -
    have al: "unat (ss_target seg) mod 4096 = 0" using ok by (auto simp: make_item_def guard_outcome const_defs word_nat)
    show ?thesis
      using ok unfolding make_item_def guard_outcome Let_def
      by (auto simp: guard_outcome Let_def spec_fits_def round_up_Ok al word_le_nat_alt not_less)
  qed
  then show "spec_fits L seg \<and> item = item_of seg" using make_item_of_spec ok by simp
qed (simp add: make_item_of_spec)

lemma make_item_no_panic: "make_item seg L \<noteq> Panic"
  using round_no_panic by (auto simp: make_item_def guard_outcome Let_def)

lemma make_item_no_total: "make_item seg L \<noteq> Err TotalSizeOverflow" "make_item seg L \<noteq> Err TotalSizeExceeded"
  by (auto simp: make_item_def Let_def round_up_def round_down_def split: if_splits)

section \<open>Building the plan\<close>

definition pages_apart :: "segment_spec \<Rightarrow> segment_spec \<Rightarrow> bool" where
  "pages_apart s t \<longleftrightarrow> spec_end s \<le> unat (ss_target t) \<or> spec_end t \<le> unat (ss_target s)"

definition spec_placed :: "source_allocation \<Rightarrow> u64 \<Rightarrow> segment_spec \<Rightarrow> bool" where
  "spec_placed source source_end seg \<longleftrightarrow> spec_fits (sa_file_length source) seg
     \<and> 0x200000 \<le> unat (ss_target seg) \<and> spec_end seg \<le> 0x4200000
     \<and> (spec_end seg \<le> unat (sa_page_start source) \<or> unat source_end \<le> unat (ss_target seg))"

definition specs_placed :: "source_allocation \<Rightarrow> u64 \<Rightarrow> segment_spec list \<Rightarrow> bool" where
  "specs_placed source source_end S \<longleftrightarrow> length S \<le> 128 \<and> (\<forall>seg \<in> set S. spec_placed source source_end seg)
     \<and> sorted_wrt pages_apart S"

definition plan_of :: "u64 \<Rightarrow> segment_spec list \<Rightarrow> load_plan" where
  "plan_of entry S =
     \<lparr>lp_items = map item_of S @ replicate (128 - length S) LoadItem_EMPTY, lp_len = length S,
      lp_total_page_bytes = of_nat (sum_list (map (\<lambda>s. spec_end s - unat (ss_target s)) S)), lp_entry = entry\<rparr>"

lemma item_of_pages:
  assumes "spec_fits L seg"
  shows "li_page_start (item_of seg) = ss_target seg"
    "unat (li_page_length (item_of seg)) = spec_end seg - unat (ss_target seg)"
    "unat (ss_target seg) < spec_end seg"
    "unat (li_page_count (item_of seg)) = (spec_end seg - unat (ss_target seg)) div 4096"
proof -
  note e = spec_end_facts [OF assms]
  have sub: "unat (of_nat (spec_end seg) - ss_target seg) = spec_end seg - unat (ss_target seg)"
    using checked_sub_in_range [of "ss_target seg" "of_nat (spec_end seg)"] e by simp
  then show "unat (li_page_length (item_of seg)) = spec_end seg - unat (ss_target seg)"
    "unat (li_page_count (item_of seg)) = (spec_end seg - unat (ss_target seg)) div 4096"
    by (simp_all add: item_of_def Let_def li_page_length_def unat_div)
  show "li_page_start (item_of seg) = ss_target seg" by (simp add: item_of_def Let_def)
  show "unat (ss_target seg) < spec_end seg" using e by simp
qed

lemma placed_total:
  assumes "specs_placed source source_end S"
  shows "sum_list (map (\<lambda>s. spec_end s - unat (ss_target s)) S) \<le> 0x4000000"
proof -
  have end_: "\<forall>s \<in> set S. unat (ss_target s) < spec_end s"
    using assms item_of_pages(3) by (auto simp: specs_placed_def spec_placed_def)
  have "sum_list (map (\<lambda>s. spec_end s - unat (ss_target s)) S) \<le> 0x4200000 - 0x200000"
  proof (rule disjoint_lengths [where a = "\<lambda>s. unat (ss_target s)"])
    have "sorted_wrt pages_apart S" using assms by (simp add: specs_placed_def)
    then show "sorted_wrt (\<lambda>s t. unat (ss_target s) + (spec_end s - unat (ss_target s)) \<le> unat (ss_target t)
        \<or> unat (ss_target t) + (spec_end t - unat (ss_target t)) \<le> unat (ss_target s)) S"
      by (rule sorted_wrt_mono_rel [rotated]) (use end_ in \<open>force simp: pages_apart_def\<close>)
  qed (use assms end_ in \<open>force simp: specs_placed_def spec_placed_def\<close>)
  then show ?thesis by simp
qed

lemma plan_of_live: "length S \<le> 128 \<Longrightarrow> lp_live_items (plan_of entry S) = Ok (map item_of S)"
  by (simp add: lp_live_items_def plan_of_def)

lemma check_previous_item_Ok:
  assumes "spec_fits L s" and "spec_fits L' seg"
  shows "check_previous_item (item_of seg) page_end (item_of s) = Ok u
     \<longleftrightarrow> unat page_end \<le> unat (ss_target s) \<or> spec_end s \<le> unat (ss_target seg)"
    and "check_previous_item (item_of seg) page_end (item_of s) \<noteq> Panic"
proof -
  note i = item_of_pages [OF assms(1)]
  have "unat (li_page_start (item_of s)) + unat (li_page_length (item_of s)) = spec_end s" using i by simp
  moreover have "spec_end s < 2 ^ 64" using spec_end_facts(1) [OF assms(1)] unat_bound [of "of_nat (spec_end s) :: u64"] by simp
  ultimately obtain e where e: "checked_add (li_page_start (item_of s)) (li_page_length (item_of s)) = Some e" "unat e = spec_end s"
    using checked_add_in_range by metis
  show "check_previous_item (item_of seg) page_end (item_of s) = Ok u
     \<longleftrightarrow> unat page_end \<le> unat (ss_target s) \<or> spec_end s \<le> unat (ss_target seg)"
    "check_previous_item (item_of seg) page_end (item_of s) \<noteq> Panic"
    using e i(1) item_of_pages(1) [OF assms(2)]
    by (auto simp: check_previous_item_def lp_ranges_overlap_def word_less_nat_alt simp del: checked_add_Some)
qed

lemma plan_segment_fits:
  assumes S: "specs_placed source source_end S" and len: "length S < 128" and fits: "spec_fits (sa_file_length source) seg"
  shows "plan_segment source source_end (plan_of entry S) seg = Ok p
     \<longleftrightarrow> specs_placed source source_end (S @ [seg]) \<and> p = plan_of entry (S @ [seg])"
    and "plan_segment source source_end (plan_of entry S) seg \<notin> {Panic, Err TotalSizeOverflow, Err TotalSizeExceeded}"
proof -
  let ?item = "item_of seg"
  note i = item_of_pages [OF fits]
  have fitS: "\<forall>s \<in> set S. spec_fits (sa_file_length source) s" using S by (auto simp: specs_placed_def spec_placed_def)
  have "spec_end seg < 2 ^ 64" using spec_end_facts(1) [OF fits] unat_bound [of "of_nat (spec_end seg) :: u64"] by simp
  then obtain e where e: "checked_add (li_page_start ?item) (li_page_length ?item) = Some e" "unat e = spec_end seg"
    using checked_add_in_range [of "li_page_start ?item" "li_page_length ?item"] i by auto
  have prev: "try_fold (\<lambda>_. check_previous_item ?item e) () (map item_of S) = Ok u
      \<longleftrightarrow> (\<forall>s \<in> set S. pages_apart s seg)" for u
    using check_previous_item_Ok(1) [OF _ fits, of "sa_file_length source"] fitS e(2)
    by (auto simp: try_fold_unit_Ok pages_apart_def)
  have prevp: "try_fold (\<lambda>_. check_previous_item ?item e) () (map item_of S) \<noteq> Panic"
    using check_previous_item_Ok(2) [OF _ fits] fitS by (intro try_fold_not_Panic) auto
  let ?sum = "sum_list (map (\<lambda>s. spec_end s - unat (ss_target s)) S)"
  have total: "checked_add (lp_total_page_bytes (plan_of entry S)) (li_page_length ?item)
        = Some (lp_total_page_bytes (plan_of entry (S @ [seg])))"
      "\<not> BOOTSTRAP_WINDOW_BYTES < lp_total_page_bytes (plan_of entry (S @ [seg]))"
    if "specs_placed source source_end (S @ [seg])"
  proof -
    have bound: "?sum + (spec_end seg - unat (ss_target seg)) \<le> 0x4000000" using placed_total [OF that] by simp
    then have n: "unat (of_nat (?sum + (spec_end seg - unat (ss_target seg))) :: u64) = ?sum + (spec_end seg - unat (ss_target seg))"
      "unat (of_nat ?sum :: u64) = ?sum" by (simp_all add: unat_of_nat del: of_nat_add)
    then show "checked_add (lp_total_page_bytes (plan_of entry S)) (li_page_length ?item)
        = Some (lp_total_page_bytes (plan_of entry (S @ [seg])))"
      by (simp add: plan_of_def i del: of_nat_add)
    show "\<not> BOOTSTRAP_WINDOW_BYTES < lp_total_page_bytes (plan_of entry (S @ [seg]))"
      using n bound by (simp add: plan_of_def const_defs word_less_nat_alt del: of_nat_add)
  qed
  have set: "arr_set (lp_items (plan_of entry S)) (length S) ?item = Ok (lp_items (plan_of entry (S @ [seg])))"
  proof -
    have "128 - length S = Suc (128 - Suc (length S))" using len by simp
    then show ?thesis using len by (simp add: plan_of_def list_update_append)
  qed
  have placed: "specs_placed source source_end (S @ [seg]) \<longleftrightarrow> 0x200000 \<le> unat (ss_target seg) \<and> spec_end seg \<le> 0x4200000
      \<and> (\<forall>s \<in> set S. pages_apart s seg) \<and> (spec_end seg \<le> unat (sa_page_start source) \<or> unat source_end \<le> unat (ss_target seg))"
    using S len fits by (auto simp: specs_placed_def spec_placed_def sorted_wrt_append)
  have plen: "lp_len (plan_of entry S) = length S" "lp_entry (plan_of entry S) = entry" by (simp_all add: plan_of_def)
  have result: "plan_of entry S\<lparr>lp_items := lp_items (plan_of entry (S @ [seg])), lp_len := Suc (length S),
      lp_total_page_bytes := lp_total_page_bytes (plan_of entry (S @ [seg]))\<rparr> = plan_of entry (S @ [seg])"
    by (simp add: plan_of_def)
  have step: "plan_segment source source_end (plan_of entry S) seg =
    (if li_page_start ?item < BOOTSTRAP_WINDOW_START then Err BelowWindow
     else if BOOTSTRAP_WINDOW_END < e then Err AboveWindow
     else and_then (try_fold (\<lambda>_. check_previous_item ?item e) () (map item_of S)) (\<lambda>_.
       if lp_ranges_overlap (sa_page_start source) source_end (li_page_start ?item) e then Err SourceOverlap
       else and_then (ok_or (checked_add (lp_total_page_bytes (plan_of entry S)) (li_page_length ?item)) TotalSizeOverflow)
         (\<lambda>total_bytes. if BOOTSTRAP_WINDOW_BYTES < total_bytes then Err TotalSizeExceeded
            else Ok (plan_of entry S\<lparr>lp_items := lp_items (plan_of entry (S @ [seg])), lp_len := Suc (length S),
              lp_total_page_bytes := total_bytes\<rparr>))))"
    using len e
    by (simp add: set plan_of_live plan_segment_def make_item_of_spec [OF fits] MAX_LOAD_ITEMS_def MAX_PROGRAM_HEADERS_def plen
        del: checked_add_Some cong: if_cong)
  have window: "specs_placed source source_end (S @ [seg]) \<longleftrightarrow> \<not> li_page_start ?item < BOOTSTRAP_WINDOW_START
      \<and> \<not> BOOTSTRAP_WINDOW_END < e \<and> (\<forall>s \<in> set S. pages_apart s seg)
      \<and> \<not> lp_ranges_overlap (sa_page_start source) source_end (li_page_start ?item) e"
    unfolding placed by (auto simp: i(1) e(2) const_defs lp_ranges_overlap_def word_less_nat_alt)
  show "plan_segment source source_end (plan_of entry S) seg = Ok p
     \<longleftrightarrow> specs_placed source source_end (S @ [seg]) \<and> p = plan_of entry (S @ [seg])"
  proof (cases "specs_placed source source_end (S @ [seg])")
    case True
    then show ?thesis using total [OF True] window prev [of "()"] unfolding step
      by (auto simp: result guard_outcome simp del: checked_add_Some)
  next
    case False
    then show ?thesis using window prev unfolding step by (auto simp: guard_outcome simp del: checked_add_Some)
  qed
  have preve: "try_fold (\<lambda>_. check_previous_item ?item e) () (map item_of S) \<noteq> Err error"
    if "error = TotalSizeOverflow \<or> error = TotalSizeExceeded" for error
    using try_fold_unit_Err [of "check_previous_item ?item e" "map item_of S" error] that
    by (auto simp: check_previous_item_def split: if_splits)
  show "plan_segment source source_end (plan_of entry S) seg \<notin> {Panic, Err TotalSizeOverflow, Err TotalSizeExceeded}"
  proof (cases "specs_placed source source_end (S @ [seg])")
    case True
    then show ?thesis using total [OF True] window prev [of "()"] unfolding step by (simp del: checked_add_Some)
  next
    case False
    then show ?thesis using window prev prevp preve unfolding step by (auto simp: guard_outcome simp del: checked_add_Some)
  qed
qed

lemma plan_segment_Ok:
  assumes "specs_placed source source_end S"
  shows "plan_segment source source_end (plan_of entry S) seg = Ok p
     \<longleftrightarrow> specs_placed source source_end (S @ [seg]) \<and> p = plan_of entry (S @ [seg])"
    and "plan_segment source source_end (plan_of entry S) seg \<notin> {Panic, Err TotalSizeOverflow, Err TotalSizeExceeded}"
proof -
  have full: "lp_len (plan_of entry S) = length S" by (simp add: plan_of_def)
  have "length S \<le> 128" using assms by (simp add: specs_placed_def)
  then consider "length S = 128" | "length S < 128" "\<not> spec_fits (sa_file_length source) seg"
    | "length S < 128" "spec_fits (sa_file_length source) seg" by linarith
  then have "(plan_segment source source_end (plan_of entry S) seg = Ok p
     \<longleftrightarrow> specs_placed source source_end (S @ [seg]) \<and> p = plan_of entry (S @ [seg]))
    \<and> plan_segment source source_end (plan_of entry S) seg \<notin> {Panic, Err TotalSizeOverflow, Err TotalSizeExceeded}"
  proof cases
    case 1
    then show ?thesis by (simp add: plan_segment_def full MAX_LOAD_ITEMS_def MAX_PROGRAM_HEADERS_def specs_placed_def)
  next
    case 2
    then show ?thesis using make_item_no_panic [of seg] make_item_no_total [of seg]
      by (simp add: plan_segment_def full MAX_LOAD_ITEMS_def MAX_PROGRAM_HEADERS_def make_item_Ok specs_placed_def spec_placed_def)
  next
    case 3
    then show ?thesis using plan_segment_fits [OF assms] by blast
  qed
  then show "plan_segment source source_end (plan_of entry S) seg = Ok p
     \<longleftrightarrow> specs_placed source source_end (S @ [seg]) \<and> p = plan_of entry (S @ [seg])"
    "plan_segment source source_end (plan_of entry S) seg \<notin> {Panic, Err TotalSizeOverflow, Err TotalSizeExceeded}" by simp_all
qed

lemma plan_segments_Ok:
  assumes "specs_placed source source_end S"
  shows "(try_fold (plan_segment source source_end) (plan_of entry S) T = Ok p
     \<longleftrightarrow> specs_placed source source_end (S @ T) \<and> p = plan_of entry (S @ T))
    \<and> try_fold (plan_segment source source_end) (plan_of entry S) T \<notin> {Panic, Err TotalSizeOverflow, Err TotalSizeExceeded}"
  using assms
proof (induction T arbitrary: S)
  case (Cons seg T)
  show ?case
  proof (cases "specs_placed source source_end (S @ [seg])")
    case True
    then have "plan_segment source source_end (plan_of entry S) seg = Ok (plan_of entry (S @ [seg]))"
      using plan_segment_Ok [OF Cons.prems] by simp
    then show ?thesis using Cons.IH [OF True] by simp
  next
    case False
    have "\<not> specs_placed source source_end (S @ seg # T)"
      using False by (auto simp: specs_placed_def sorted_wrt_append)
    then show ?thesis using plan_segment_Ok [OF Cons.prems] False by simp
  qed
qed auto

lemma build_Ok:
  "LoadPlan_build entry segs source = Ok plan \<longleftrightarrow>
     (\<exists>source_end. unat source_end = unat (sa_page_start source) + unat (sa_page_count source) * 4096
       \<and> specs_placed source source_end segs) \<and> segs \<noteq> [] \<and> plan = plan_of entry segs
     \<and> (\<exists>seg \<in> set segs. entry_item entry (item_of seg))"
  and build_errors: "LoadPlan_build entry segs source \<notin> {Panic, Err TotalSizeOverflow, Err TotalSizeExceeded}"
proof -
  have init: "\<lparr>lp_items = replicate MAX_LOAD_ITEMS LoadItem_EMPTY, lp_len = 0, lp_total_page_bytes = 0,
          lp_entry = entry\<rparr> = plan_of entry []"
    by (simp add: plan_of_def MAX_LOAD_ITEMS_def MAX_PROGRAM_HEADERS_def)
  have nil: "specs_placed source se []" for se by (simp add: specs_placed_def)
  have loop: "try_fold (plan_segment source se) (plan_of entry []) segs = Ok p
      \<longleftrightarrow> specs_placed source se segs \<and> p = plan_of entry segs"
    "try_fold (plan_segment source se) (plan_of entry []) segs \<notin> {Panic, Err TotalSizeOverflow, Err TotalSizeExceeded}" for se p
    using plan_segments_Ok [OF nil] by simp_all
  have live: "lp_live_items (plan_of entry segs) = Ok (map item_of segs)" if "specs_placed source se segs" for se
    using that by (simp add: plan_of_live specs_placed_def)
  have len: "lp_len (plan_of entry segs) = length segs" by (simp add: plan_of_def)
  have source_end: "sa_page_end source = Ok se \<longleftrightarrow> unat se = unat (sa_page_start source) + unat (sa_page_count source) * 4096" for se
    using unat_bound [of se] ex_unat [where 'a = 64, of "unat (sa_page_count source) * 4096"]
    by (auto simp: sa_page_end_def const_defs)
  show "LoadPlan_build entry segs source = Ok plan \<longleftrightarrow>
     (\<exists>source_end. unat source_end = unat (sa_page_start source) + unat (sa_page_count source) * 4096
       \<and> specs_placed source source_end segs) \<and> segs \<noteq> [] \<and> plan = plan_of entry segs
     \<and> (\<exists>seg \<in> set segs. entry_item entry (item_of seg))"
    unfolding LoadPlan_build_def init
    by (auto simp: guard_outcome source_end loop(1) len live list_ex_iff) blast+
  show "LoadPlan_build entry segs source \<notin> {Panic, Err TotalSizeOverflow, Err TotalSizeExceeded}"
    unfolding LoadPlan_build_def init using loop(2)
    by (auto simp: guard_outcome loop(1) live sa_page_end_def)
qed

section \<open>From a validated image to a plan\<close>

lemma length_segments_from: "length (segments_from raw is) \<le> length is"
  by (induction "is") (auto split: option.splits)

lemma parse_segment_count:
  assumes "ValidatedImage_parse bytes = Ok img"
  shows "length (load_segments img) \<le> 128"
proof -
  have "elf_validate_header (ri_header (vi_raw img)) = Ok ()"
    using assms by (auto simp: ValidatedImage_parse_def guard_outcome)
  then have "unat (rh_program_header_count (ri_header (vi_raw img))) \<le> 128"
    by (auto simp: elf_validate_header_def guard_outcome const_defs word_nat not_less)
  then show ?thesis using length_segments_from [of "vi_raw img" "[0 ..< unat (rh_program_header_count (ri_header (vi_raw img)))]"]
    by (simp add: load_segments_def)
qed

lemma spec_of_segment_fields [simp]:
  "ss_target (spec_of_segment s) = ls_physical_address s" "ss_memory_size (spec_of_segment s) = ls_memory_size s"
  "ss_file_size (spec_of_segment s) = ls_file_size s" "ss_file_offset (spec_of_segment s) = ls_file_offset s"
  "ss_flags (spec_of_segment s) = ls_flags s"
  by (simp_all add: spec_of_segment_def)

text \<open>Page-aligned segments of a validated image below the end of the window can all be placed.\<close>

lemma image_placed:
  assumes ok: "image_ok bytes img" and count: "length (load_segments img) \<le> 128"
    and aligned: "\<forall>s \<in> set (load_segments img). unat (ls_physical_address s) mod 4096 = 0"
    and start: "0x200000 \<le> unat (vi_load_start img)" and limit: "unat (vi_load_end img) \<le> 0x4200000"
    and len: "unat (sa_file_length source) = length bytes"
    and outside: "\<forall>s \<in> set (load_segments img). spec_end (spec_of_segment s) \<le> unat (sa_page_start source)
      \<or> unat source_end \<le> unat (ls_physical_address s)"
  shows "specs_placed source source_end (map spec_of_segment (load_segments img))"
proof -
  let ?S = "load_segments img"
  have seg: "segment_ok bytes s" "0x200000 \<le> unat (ls_physical_address s)"
      "unat (ls_physical_address s) + unat (ls_memory_size s) \<le> 0x4200000" if "s \<in> set ?S" for s
    using ok start limit that by (force simp: image_ok_def Let_def span_def word_le_nat_alt)+
  have end_: "spec_end (spec_of_segment s) \<le> 0x4200000" if "s \<in> set ?S" for s
    using seg(3) [OF that] page_ceiling_least [of _ "0x4200000"] by (simp add: spec_end_def)
  have "spec_fits (sa_file_length source) (spec_of_segment s)" if "s \<in> set ?S" for s
    using seg [OF that] aligned that len by (auto simp: spec_fits_def segment_ok_def word_le_nat_alt unat_gt_0)
  then have "\<forall>s \<in> set ?S. spec_placed source source_end (spec_of_segment s)"
    using seg(2) end_ outside by (force simp: spec_placed_def)
  moreover have apart: "pages_apart (spec_of_segment s) (spec_of_segment t)"
    if "s \<in> set ?S" "t \<in> set ?S" "segments_apart s t" for s t
    using that aligned by (auto simp: segments_apart_def pages_apart_def spec_end_def page_ceiling_least)
  moreover have "sorted_wrt segments_apart ?S" using ok by (simp add: image_ok_def Let_def)
  then have "sorted_wrt (\<lambda>s t. pages_apart (spec_of_segment s) (spec_of_segment t)) ?S"
    by (rule sorted_wrt_mono_rel [rotated]) (rule apart)
  ultimately show ?thesis using count by (simp add: specs_placed_def sorted_wrt_map)
qed

section \<open>Properties\<close>

text \<open>
  C4. The load plan accepts exactly the segment lists that can be placed: at least one and at most
  128 segments, each with memory, page aligned, inside the file, no larger in the file than in
  memory, with all its pages in the bootstrap window, away from the pages of the source file and
  from the pages of every other segment, and the entry point in an executable one. The plan then
  has exactly one item per segment, in order. The build never panics, and because the segments are
  disjoint inside the window, its total-size errors cannot occur.
\<close>
theorem load_plan_correct:
  "LoadPlan_build entry segs source \<notin> {Panic, Err TotalSizeOverflow, Err TotalSizeExceeded}
   \<and> (LoadPlan_build entry segs source = Ok plan \<longleftrightarrow>
       (\<exists>source_end. unat source_end = unat (sa_page_start source) + unat (sa_page_count source) * 4096
         \<and> specs_placed source source_end segs) \<and> segs \<noteq> [] \<and> plan = plan_of entry segs
       \<and> (\<exists>seg \<in> set segs. entry_item entry (item_of seg)))"
  using build_Ok build_errors by blast

text \<open>
  C38. Every bootstrap image that validates and ends below the window's end gets a load plan when
  the file buffer shares no page with a load segment: one item per load segment, entered at the
  image's entry. The buffer may lie inside the bootstrap window, between or behind the segments.
\<close>
theorem bootstrap_image_gets_plan:
  assumes "validate_bootstrap_image bytes = Ok img" and "length bytes < 2 ^ 64"
    and "unat (vi_load_end img) \<le> 0x4200000"
    and "unat (sa_file_length source) = length bytes"
    and "unat (sa_page_start source) + unat (sa_page_count source) * 4096 < 2 ^ 64"
    and "list_all (\<lambda>s. page_ceiling (unat (ls_physical_address s) + unat (ls_memory_size s)) \<le> unat (sa_page_start source)
      \<or> unat (sa_page_start source) + unat (sa_page_count source) * 4096 \<le> unat (ls_physical_address s))
      (load_segments img)"
  shows "\<exists>plan. LoadPlan_from_validated img source = Ok plan \<and> lp_len plan = unat (vi_load_count img)
    \<and> lp_entry plan = vi_entry img"
proof -
  let ?S = "load_segments img"
  have parse: "ValidatedImage_parse bytes = Ok img" and start: "vi_load_start img = 0x200000"
    and boot: "\<forall>s \<in> set ?S. bootstrap_segment_ok s"
    using assms(1) by (simp_all add: bootstrap_image_Ok Let_def)
  have ok: "image_ok bytes img" using parse_image_ok parse assms(2) by blast
  obtain source_end :: u64 where se: "unat source_end = unat (sa_page_start source) + unat (sa_page_count source) * 4096"
    using ex_unat [where 'a = 64] assms(5) by auto
  have placed: "specs_placed source source_end (map spec_of_segment ?S)"
    by (rule image_placed [OF ok parse_segment_count [OF parse]])
      (use boot start assms se in \<open>auto simp: bootstrap_segment_ok_def spec_end_def list_all_iff\<close>)
  obtain s where s: "s \<in> set ?S" "is_executable s" "ls_virtual_address s \<le> vi_entry img"
      "unat (vi_entry img) < unat (ls_virtual_address s) + unat (ls_memory_size s)"
    using ok by (auto simp: image_ok_def Let_def)
  have "segment_ok bytes s" "bootstrap_segment_ok s" using ok boot s(1) by (auto simp: image_ok_def Let_def)
  then have "unat (ls_physical_address s + ls_memory_size s) = unat (ls_physical_address s) + unat (ls_memory_size s)"
    "ls_virtual_address s = ls_physical_address s"
    using checked_add_in_range by (auto simp: segment_ok_def bootstrap_segment_ok_def)
  then have "entry_item (vi_entry img) (item_of (spec_of_segment s))"
    using s(2-4) by (simp add: entry_item_def item_of_def Let_def li_is_executable_def is_executable_def
        PF_EXECUTE_def word_less_nat_alt)
  then have "LoadPlan_from_validated img source = Ok (plan_of (vi_entry img) (map spec_of_segment ?S))"
    using placed se s(1) by (auto simp: LoadPlan_from_validated_def build_Ok)
  moreover have "length ?S = unat (vi_load_count img)" using ok by (simp add: image_ok_def Let_def)
  ultimately show ?thesis by (simp add: plan_of_def)
qed

theorem bootstrap_image_gets_plan_witness:
  "\<exists>plan. LoadPlan_from_validated (small_validated False)
      \<lparr>sa_page_start = 0x203000, sa_page_count = 1, sa_file_length = 232\<rparr> = Ok plan
    \<and> lp_len plan = 3 \<and> lp_entry plan = 0x200000"
proof -
  let ?source = "\<lparr>sa_page_start = 0x203000, sa_page_count = 1, sa_file_length = 232\<rparr>"
  have "list_all (\<lambda>s. page_ceiling (unat (ls_physical_address s) + unat (ls_memory_size s)) \<le> unat (sa_page_start ?source)
      \<or> unat (sa_page_start ?source) + unat (sa_page_count ?source) * 4096 \<le> unat (ls_physical_address s))
      (load_segments (small_validated False))"
    by (simp add: small_segments segment_of_def small_program_header_def page_ceiling_def)
  then show ?thesis
    using bootstrap_image_gets_plan [OF small_bootstrap, of ?source]
    by (simp add: length_small_image small_validated_def vi_entry_def small_image_fields small_offset_def)
qed

end
