(* ===== verification/Load_Targets.thy ===== *)
theory Load_Targets
  imports Load_Plan Page_Owner
begin

text \<open>
  Loading the segments (\<^verbatim>\<open>crates/bootloader/src/load_plan.rs\<close>, second half): the contents of a target
  range, the ownership of the allocated pages, the four stages of preparation, and the loaded
  kernel. The firmware that allocates, clears, copies and verifies pages and the stage callback are
  parameters (\<open>segment_backend\<close>, \<open>report_stage\<close>). Sizes are 64-bit, so \<^verbatim>\<open>usize::try_from\<close> of a \<^verbatim>\<open>u64\<close> never fails.
\<close>

section \<open>Contents of a target\<close>

datatype memory_error = MemRange | CopyMismatch | NonZeroBss | NonZeroPadding

text \<open>The target buffer is returned on both outcomes.\<close>

definition copy_target ::
    "load_item \<Rightarrow> u8 list \<Rightarrow> u8 list \<Rightarrow> (u8 list, u8 list \<times> memory_error) result" where
  "copy_target item source target =
     (let page_length = unat (li_page_length item) in
      if length target \<noteq> page_length then Err (target, MemRange)
      else
        let source_start = unat (li_source_offset item); file_size = unat (li_file_size item) in
        and_then (ok_or (usize_add source_start file_size) (target, MemRange)) (\<lambda>source_end.
        let copy_start = unat (li_copy_offset item) in
        and_then (ok_or (usize_add copy_start file_size) (target, MemRange)) (\<lambda>copy_end.
        and_then (ok_or (slice_get source source_start source_end) (target, MemRange)) (\<lambda>source_bytes.
        and_then (ok_or (slice_get target copy_start copy_end) (target, MemRange)) (\<lambda>_.
        copy_into target copy_start source_bytes)))))"

definition initialize_target ::
    "load_item \<Rightarrow> u8 list \<Rightarrow> u8 list \<Rightarrow> (u8 list, u8 list \<times> memory_error) result" where
  "initialize_target item source target = copy_target item source (replicate (length target) 0)"

definition verify_target :: "load_item \<Rightarrow> u8 list \<Rightarrow> u8 list \<Rightarrow> (unit, memory_error) result" where
  "verify_target item source target =
     (let page_length = unat (li_page_length item) in
      if length target \<noteq> page_length then Err MemRange
      else
        let source_start = unat (li_source_offset item); file_size = unat (li_file_size item);
            memory_size = unat (li_memory_size item); copy_start = unat (li_copy_offset item) in
        and_then (ok_or (usize_add source_start file_size) MemRange) (\<lambda>source_end.
        and_then (ok_or (usize_add copy_start file_size) MemRange) (\<lambda>copy_end.
        and_then (ok_or (usize_add copy_start memory_size) MemRange) (\<lambda>memory_end.
        and_then (ok_or (slice_get source source_start source_end) MemRange) (\<lambda>source_bytes.
        and_then (ok_or (slice_get target copy_start copy_end) MemRange) (\<lambda>copied.
        if copied \<noteq> source_bytes then Err CopyMismatch
        else
          and_then (ok_or (slice_get target copy_end memory_end) MemRange) (\<lambda>bss.
          if \<not> list_all (\<lambda>byte. byte = 0) bss then Err NonZeroBss
          else
            and_then (ok_or (slice_get target memory_end page_length) MemRange) (\<lambda>padding.
            if \<not> list_all (\<lambda>byte. byte = 0) padding then Err NonZeroPadding
            else Ok ()))))))))"

section \<open>Ownership of the target pages\<close>

record ('b, 'e) segment_backend = "('b, 'e) page_backend" +
  zero_item :: "'b \<Rightarrow> load_item \<Rightarrow> 'b \<times> ('e + unit)"
  copy_item :: "'b \<Rightarrow> load_item \<Rightarrow> u8 list \<Rightarrow> 'b \<times> ('e + unit)"
  verify_item :: "'b \<Rightarrow> load_item \<Rightarrow> u8 list \<Rightarrow> 'b \<times> ('e + unit)"

datatype load_stage = StAllocated | StZeroed | StCopied | StVerified

datatype load_work_kind = WkAllocate | WkZero | WkCopy | WkVerify

record 'e release_error =
  re_segment_index :: nat
  re_remaining_segments :: nat
  re_source :: 'e

record 'b target_ownership =
  to_backend :: 'b
  to_items :: "pages list"
  to_owned :: "bool list"
  to_len :: nat

definition TargetOwnership_new :: "load_plan \<Rightarrow> 'b \<Rightarrow> ('b target_ownership, 'x) result" where
  "TargetOwnership_new plan backend =
     and_then (lp_live_items plan) (\<lambda>live.
     and_then (try_fold (\<lambda>items (index, item). arr_set items index (li_page_start item, li_page_count item))
         (replicate MAX_LOAD_ITEMS (0, 0)) (enumerate 0 live)) (\<lambda>items.
     Ok \<lparr>to_backend = backend, to_items = items, to_owned = replicate MAX_LOAD_ITEMS False,
         to_len = lp_len plan\<rparr>))"

definition to_remaining_segments :: "'b target_ownership \<Rightarrow> nat" where
  "to_remaining_segments owner = remaining_flags (to_len owner) (to_owned owner)"

definition to_try_release ::
    "('b, 'e, 'z) page_backend_scheme \<Rightarrow> 'b target_ownership
     \<Rightarrow> ('b target_ownership, 'b target_ownership \<times> 'e release_error) result" where
  "to_try_release ops owner =
     (case release_flagged (free_pages ops) (to_items owner) (to_len owner) (to_backend owner) (to_owned owner) of
        Ok (backend, owned) \<Rightarrow> Ok (owner\<lparr>to_backend := backend, to_owned := owned\<rparr>)
      | Err (backend, owned, index, source) \<Rightarrow>
          let owner = owner\<lparr>to_backend := backend, to_owned := owned\<rparr> in
          Err (owner, \<lparr>re_segment_index = index, re_remaining_segments = to_remaining_segments owner,
                       re_source = source\<rparr>)
      | Panic \<Rightarrow> Panic)"

text \<open>\<^verbatim>\<open>drop\<close> runs \<^verbatim>\<open>drop_release\<close>.\<close>

definition to_drop_release ::
    "('b, 'e, 'z) page_backend_scheme \<Rightarrow> 'b target_ownership \<Rightarrow> ('b target_ownership, 'x) result" where
  "to_drop_release ops owner =
     and_then (drop_flagged (free_pages ops) (to_items owner) (to_len owner) (to_backend owner) (to_owned owner))
       (\<lambda>(backend, owned). Ok (owner\<lparr>to_backend := backend, to_owned := owned\<rparr>))"

section \<open>Preparing the targets\<close>

record ('b, 'e) load_work_failure =
  wf_kind :: load_work_kind
  wf_error :: 'e
  wf_owner :: "'b target_ownership"

definition wf_try_release ::
    "('b, 'e, 'z) page_backend_scheme \<Rightarrow> ('b, 'e) load_work_failure
     \<Rightarrow> (('b, 'e) load_work_failure, ('b, 'e) load_work_failure \<times> 'e release_error) result" where
  "wf_try_release ops failure =
     (case to_try_release ops (wf_owner failure) of
        Ok owner \<Rightarrow> Ok (failure\<lparr>wf_owner := owner\<rparr>)
      | Err (owner, error) \<Rightarrow> Err (failure\<lparr>wf_owner := owner\<rparr>, error)
      | Panic \<Rightarrow> Panic)"

definition allocate_target ::
    "('b, 'e, 'z) page_backend_scheme \<Rightarrow> 'b target_ownership \<Rightarrow> nat
     \<Rightarrow> ('b target_ownership, ('b, 'e) load_work_failure) result" where
  "allocate_target ops owner index =
     and_then (arr_get (to_items owner) index) (\<lambda>(page_start, page_count).
     case allocate_at ops (to_backend owner) page_start page_count of
       (backend, Inl error) \<Rightarrow>
         Err \<lparr>wf_kind = WkAllocate, wf_error = error, wf_owner = owner\<lparr>to_backend := backend\<rparr>\<rparr>
     | (backend, Inr _) \<Rightarrow>
         and_then (arr_set (to_owned owner) index True) (\<lambda>owned.
         Ok (owner\<lparr>to_backend := backend, to_owned := owned\<rparr>)))"

text \<open>One call of the backend in the loops over the items.\<close>

definition target_work ::
    "load_work_kind \<Rightarrow> ('b \<Rightarrow> load_item \<Rightarrow> 'b \<times> ('e + unit)) \<Rightarrow> 'b target_ownership \<Rightarrow> load_item
     \<Rightarrow> ('b target_ownership, ('b, 'e) load_work_failure) result" where
  "target_work kind work owner item =
     (case work (to_backend owner) item of
        (backend, Inl error) \<Rightarrow>
          Err \<lparr>wf_kind = kind, wf_error = error, wf_owner = owner\<lparr>to_backend := backend\<rparr>\<rparr>
      | (backend, Inr _) \<Rightarrow> Ok (owner\<lparr>to_backend := backend\<rparr>))"

record 'b verified_targets =
  vt_owner :: "'b target_ownership option"

text \<open>
  The stage callback is a parameter. It acts on the same state as the backend, the machine the
  loader runs on, so that the order of its calls and of the backend's calls can be observed.
\<close>

definition report_stage ::
    "(load_stage \<Rightarrow> 'b \<Rightarrow> 'b) \<Rightarrow> load_stage \<Rightarrow> 'b target_ownership \<Rightarrow> 'b target_ownership" where
  "report_stage stage reached owner = owner\<lparr>to_backend := stage reached (to_backend owner)\<rparr>"

definition prepare_targets ::
    "('b, 'e) segment_backend \<Rightarrow> (load_stage \<Rightarrow> 'b \<Rightarrow> 'b) \<Rightarrow> load_plan \<Rightarrow> u8 list \<Rightarrow> 'b
     \<Rightarrow> ('b verified_targets, ('b, 'e) load_work_failure) result" where
  "prepare_targets ops stage plan source backend =
     and_then (TargetOwnership_new plan backend) (\<lambda>owner.
     and_then (try_fold (allocate_target ops) owner [0 ..< to_len owner]) (\<lambda>owner.
     let owner = report_stage stage StAllocated owner in
     and_then (lp_live_items plan) (\<lambda>live.
     and_then (try_fold (target_work WkZero (zero_item ops)) owner live) (\<lambda>owner.
     let owner = report_stage stage StZeroed owner in
     and_then (try_fold (target_work WkCopy (\<lambda>b item. copy_item ops b item source)) owner live) (\<lambda>owner.
     let owner = report_stage stage StCopied owner in
     and_then (try_fold (target_work WkVerify (\<lambda>b item. verify_item ops b item source)) owner live) (\<lambda>owner.
     let owner = report_stage stage StVerified owner in
     Ok \<lparr>vt_owner = Some owner\<rparr>))))))"

section \<open>The loaded kernel\<close>

record segment_metadata =
  sm_memory_start :: u64
  sm_memory_end :: u64
  sm_allocation_start :: u64
  sm_allocation_end :: u64
  sm_page_count :: u64
  sm_flags :: u32
  sm_file_size :: u64
  sm_memory_size :: u64

definition SegmentMetadata_EMPTY :: segment_metadata where
  "SegmentMetadata_EMPTY =
     \<lparr>sm_memory_start = 0, sm_memory_end = 0, sm_allocation_start = 0, sm_allocation_end = 0,
      sm_page_count = 0, sm_flags = 0, sm_file_size = 0, sm_memory_size = 0\<rparr>"

record 'b loaded_kernel =
  lk_entry_point :: u64
  lk_load_range :: "u64 \<times> u64"
  lk_segments :: "segment_metadata list"
  lk_segment_count :: nat
  lk_total_pages :: u64
  lk_entry_segment_index :: nat
  lk_owner :: "'b target_ownership"

text \<open>The locals of \<^verbatim>\<open>LoadedKernel::from_verified\<close> and the body of its loop.\<close>

record load_summary =
  sum_segments :: "segment_metadata list"
  sum_load_start :: u64
  sum_load_end :: u64
  sum_total_pages :: u64
  sum_entry_index :: nat

definition summarize_item ::
    "u64 \<Rightarrow> load_summary \<Rightarrow> nat \<times> load_item \<Rightarrow> (load_summary, 'x) result" where
  "summarize_item entry sums = (\<lambda>(index, item).
     and_then (expect (checked_add (li_page_start item) (li_page_length item))) (\<lambda>allocation_end.
     and_then (arr_set (sum_segments sums) index
         \<lparr>sm_memory_start = li_target_start item, sm_memory_end = li_target_end item,
          sm_allocation_start = li_page_start item, sm_allocation_end = allocation_end,
          sm_page_count = li_page_count item, sm_flags = li_flags item, sm_file_size = li_file_size item,
          sm_memory_size = li_memory_size item\<rparr>) (\<lambda>segments.
     and_then (expect (checked_add (sum_total_pages sums) (li_page_count item))) (\<lambda>total_pages.
     Ok \<lparr>sum_segments = segments, sum_load_start = min (sum_load_start sums) (li_page_start item),
         sum_load_end = max (sum_load_end sums) allocation_end, sum_total_pages = total_pages,
         sum_entry_index =
           (if li_is_executable item \<and> entry \<ge> li_target_start item \<and> entry < li_target_end item
            then index else sum_entry_index sums)\<rparr>))))"

definition LoadedKernel_from_verified ::
    "load_plan \<Rightarrow> 'b target_ownership \<Rightarrow> ('b loaded_kernel, 'x) result" where
  "LoadedKernel_from_verified plan owner =
     and_then (lp_live_items plan) (\<lambda>live.
     and_then (try_fold (summarize_item (lp_entry plan))
         \<lparr>sum_segments = replicate MAX_LOAD_ITEMS SegmentMetadata_EMPTY, sum_load_start = - 1, sum_load_end = 0,
          sum_total_pages = 0, sum_entry_index = 0\<rparr> (enumerate 0 live)) (\<lambda>sums.
     Ok \<lparr>lk_entry_point = lp_entry plan, lk_load_range = (sum_load_start sums, sum_load_end sums),
         lk_segments = sum_segments sums, lk_segment_count = lp_len plan,
         lk_total_pages = sum_total_pages sums, lk_entry_segment_index = sum_entry_index sums,
         lk_owner = owner\<rparr>))"

definition vt_into_loaded_kernel ::
    "'b verified_targets \<Rightarrow> load_plan \<Rightarrow> ('b verified_targets \<times> 'b loaded_kernel option, 'x) result" where
  "vt_into_loaded_kernel targets plan =
     (case vt_owner targets of
        None \<Rightarrow> Ok (targets, None)
      | Some owner \<Rightarrow>
          and_then (LoadedKernel_from_verified plan owner) (\<lambda>loaded.
          Ok (targets\<lparr>vt_owner := None\<rparr>, Some loaded)))"

definition lk_remaining_segment_count :: "'b loaded_kernel \<Rightarrow> nat" where
  "lk_remaining_segment_count loaded = to_remaining_segments (lk_owner loaded)"

definition lk_is_released :: "'b loaded_kernel \<Rightarrow> bool" where
  "lk_is_released loaded \<longleftrightarrow> to_remaining_segments (lk_owner loaded) = 0"

definition lk_try_release ::
    "('b, 'e, 'z) page_backend_scheme \<Rightarrow> 'b loaded_kernel
     \<Rightarrow> ('b loaded_kernel, 'b loaded_kernel \<times> 'e release_error) result" where
  "lk_try_release ops loaded =
     (case to_try_release ops (lk_owner loaded) of
        Ok owner \<Rightarrow> Ok (loaded\<lparr>lk_owner := owner\<rparr>)
      | Err (owner, error) \<Rightarrow> Err (loaded\<lparr>lk_owner := owner\<rparr>, error)
      | Panic \<Rightarrow> Panic)"

section \<open>Probing a page\<close>

record ('p, 'e) address_probe =
  allocate_one_at :: "'p \<Rightarrow> u64 \<Rightarrow> 'p \<times> ('e + u64)"
  free_one :: "'p \<Rightarrow> u64 \<Rightarrow> 'p \<times> ('e + unit)"

datatype 'e ownership_probe_error = UnexpectedAvailability | OwnCleanup 'e

datatype 'e release_probe_error = RelAllocate 'e | RelAddressMismatch | RelFree 'e

definition prove_page_owned ::
    "('p, 'e) address_probe \<Rightarrow> 'p \<Rightarrow> u64 \<Rightarrow> ('p, 'p \<times> 'e ownership_probe_error) result" where
  "prove_page_owned ops probe page_start =
     (case allocate_one_at ops probe page_start of
        (probe, Inl _) \<Rightarrow> Ok probe
      | (probe, Inr allocated) \<Rightarrow>
          (case free_one ops probe allocated of
             (probe, Inl e) \<Rightarrow> Err (probe, OwnCleanup e)
           | (probe, Inr _) \<Rightarrow> Err (probe, UnexpectedAvailability)))"

definition prove_page_released ::
    "('p, 'e) address_probe \<Rightarrow> 'p \<Rightarrow> u64 \<Rightarrow> ('p, 'p \<times> 'e release_probe_error) result" where
  "prove_page_released ops probe page_start =
     (case allocate_one_at ops probe page_start of
        (probe, Inl e) \<Rightarrow> Err (probe, RelAllocate e)
      | (probe, Inr allocated) \<Rightarrow>
          if allocated \<noteq> page_start then
            (case free_one ops probe allocated of
               (probe, Inl e) \<Rightarrow> Err (probe, RelFree e)
             | (probe, Inr _) \<Rightarrow> Err (probe, RelAddressMismatch))
          else
            (case free_one ops probe allocated of
               (probe, Inl e) \<Rightarrow> Err (probe, RelFree e)
             | (probe, Inr _) \<Rightarrow> Ok probe))"

section \<open>The image of a segment\<close>

definition spec_image :: "segment_spec \<Rightarrow> u8 list \<Rightarrow> u8 list" where
  "spec_image seg source = take (unat (ss_file_size seg)) (drop (unat (ss_file_offset seg)) source)
     @ replicate (spec_end seg - unat (ss_target seg) - unat (ss_file_size seg)) 0"

lemma item_of_copy:
  "li_source_offset (item_of seg) = ss_file_offset seg" "li_file_size (item_of seg) = ss_file_size seg"
  "li_memory_size (item_of seg) = ss_memory_size seg" "li_copy_offset (item_of seg) = 0"
  by (simp_all add: item_of_def Let_def)

lemma spec_sizes:
  assumes "spec_fits L seg"
  shows "unat (ss_file_size seg) \<le> unat (ss_memory_size seg)"
    "unat (ss_memory_size seg) \<le> spec_end seg - unat (ss_target seg)"
    "unat (ss_file_offset seg) + unat (ss_file_size seg) \<le> unat L"
  using assms spec_end_facts(1,2) [OF assms] by (auto simp: spec_fits_def word_le_nat_alt)

lemma length_spec_image:
  assumes "spec_fits L seg" and "unat L = length source"
  shows "length (spec_image seg source) = spec_end seg - unat (ss_target seg)"
  using spec_sizes [OF assms(1)] assms(2) by (simp add: spec_image_def)

lemma copy_target_item:
  assumes "spec_fits L seg" and "unat L = length source" and "length target = spec_end seg - unat (ss_target seg)"
  shows "copy_target (item_of seg) source target
    = Ok (take (unat (ss_file_size seg)) (drop (unat (ss_file_offset seg)) source) @ drop (unat (ss_file_size seg)) target)"
proof -
  have "length source < 2 ^ 64" using assms(2) unat_bound [of L] by simp
  then show ?thesis
    using spec_sizes [OF assms(1)] assms(2,3) item_of_pages(2) [OF assms(1)] unat_bound [of "ss_file_size seg"]
    by (simp add: copy_target_def Let_def item_of_copy usize_add_def slice_get_def copy_into_def)
qed

lemma initialize_target_item:
  assumes "spec_fits L seg" and "unat L = length source" and "length target = spec_end seg - unat (ss_target seg)"
  shows "initialize_target (item_of seg) source target = Ok (spec_image seg source)"
  using assms copy_target_item [of L seg source "replicate (length target) 0"]
  by (simp add: initialize_target_def spec_image_def)

lemma list_all_zero: "list_all (\<lambda>b. b = 0) xs \<longleftrightarrow> xs = replicate (length xs) 0"
  by (induction xs) auto

lemma zero_tail:
  assumes "f \<le> m" "m \<le> length xs"
  shows "list_all (\<lambda>b. b = 0) (take (m - f) (drop f xs)) \<and> list_all (\<lambda>b. b = 0) (drop m xs)
    \<longleftrightarrow> list_all (\<lambda>b. b = 0) (drop f xs)"
proof -
  have "drop f xs = take (m - f) (drop f xs) @ drop m xs"
    using assms append_take_drop_id [of "m - f" "drop f xs"] by simp
  then show ?thesis by (metis list_all_append)
qed

lemma verify_target_item:
  assumes "spec_fits L seg" and "unat L = length source" and "length target = spec_end seg - unat (ss_target seg)"
  shows "verify_target (item_of seg) source target = Ok () \<longleftrightarrow> target = spec_image seg source"
proof -
  let ?f = "unat (ss_file_size seg)" and ?m = "unat (ss_memory_size seg)"
  let ?src = "take ?f (drop (unat (ss_file_offset seg)) source)"
  note sizes = spec_sizes [OF assms(1)]
  have "length source < 2 ^ 64" using assms(2) unat_bound [of L] by simp
  then have "verify_target (item_of seg) source target = Ok () \<longleftrightarrow> take ?f target = ?src
      \<and> list_all (\<lambda>b. b = 0) (take (?m - ?f) (drop ?f target)) \<and> list_all (\<lambda>b. b = 0) (drop ?m target)"
    using sizes assms(2,3) item_of_pages(2) [OF assms(1)] unat_bound [of "ss_file_size seg"] unat_bound [of "ss_memory_size seg"]
    by (simp add: verify_target_def Let_def item_of_copy usize_add_def slice_get_def)
  also have "\<dots> \<longleftrightarrow> take ?f target = ?src \<and> drop ?f target = replicate (length target - ?f) 0"
    using zero_tail [of ?f ?m target] list_all_zero [of "drop ?f target"] sizes assms(3) by auto
  also have "\<dots> \<longleftrightarrow> target = ?src @ replicate (length target - ?f) 0"
  proof
    assume "take ?f target = ?src \<and> drop ?f target = replicate (length target - ?f) 0"
    then show "target = ?src @ replicate (length target - ?f) 0" by (metis append_take_drop_id)
  next
    assume t: "target = ?src @ replicate (length target - ?f) 0"
    have len: "min (length source - unat (ss_file_offset seg)) ?f = ?f" using sizes assms(2) by simp
    show "take ?f target = ?src \<and> drop ?f target = replicate (length target - ?f) 0"
      by (subst (1 2) t) (simp add: len)
  qed
  finally show ?thesis by (simp add: spec_image_def assms(3))
qed

lemma verify_no_panic: "verify_target item source target \<noteq> Panic"
  by (auto simp: verify_target_def Let_def guard_outcome)

section \<open>Accounting for the target pages\<close>

lemma try_fold_write:
  "k + length xs \<le> length arr \<Longrightarrow>
   try_fold (\<lambda>a (i, x). arr_set a i (f x)) arr (enumerate k xs) = Ok (take k arr @ map f xs @ drop (k + length xs) arr)"
proof (induction xs arbitrary: k arr)
  case (Cons x xs)
  have "take (Suc k) (arr[k := f x]) = take k arr @ [f x]" using Cons.prems by simp
  then show ?case using Cons.prems Cons.IH [of "Suc k" "arr[k := f x]"] by simp
qed simp

text \<open>
  The instrumented firmware records every call with its arguments and its outcome, and the
  instrumented callback every stage it is told about, all in one log.
\<close>

datatype 'e work_event =
    ZeroCall load_item "'e + unit"
  | CopyCall load_item "u8 list" "'e + unit"
  | VerifyCall load_item "u8 list" "'e + unit"
  | StageCall load_stage

type_synonym 'e load_log = "('e, 'e work_event) page_event list"

definition log_work ::
    "(load_item \<Rightarrow> 'e + unit \<Rightarrow> 'e work_event) \<Rightarrow> ('b \<Rightarrow> load_item \<Rightarrow> 'b \<times> ('e + unit))
     \<Rightarrow> 'b \<times> 'e load_log \<Rightarrow> load_item \<Rightarrow> ('b \<times> 'e load_log) \<times> ('e + unit)" where
  "log_work ev work = (\<lambda>(b, log) item. let (b', r) = work b item in ((b', log @ [OtherCall (ev item r)]), r))"

definition log_stage :: "(load_stage \<Rightarrow> 'b \<Rightarrow> 'b) \<Rightarrow> load_stage \<Rightarrow> 'b \<times> 'e load_log \<Rightarrow> 'b \<times> 'e load_log" where
  "log_stage stage reached = (\<lambda>(b, log). (stage reached b, log @ [OtherCall (StageCall reached)]))"

definition logged_segments :: "('b, 'e) segment_backend \<Rightarrow> ('b \<times> 'e load_log, 'e) segment_backend" where
  "logged_segments ops =
     \<lparr>allocate_at = log_allocate (allocate_at ops), free_pages = log_free (free_pages ops),
      zero_item = log_work ZeroCall (zero_item ops),
      copy_item = (\<lambda>b item source. log_work (\<lambda>item. CopyCall item source) (\<lambda>b item. copy_item ops b item source) b item),
      verify_item = (\<lambda>b item source. log_work (\<lambda>item. VerifyCall item source) (\<lambda>b item. verify_item ops b item source) b item)\<rparr>"

definition to_inv :: "'b target_ownership \<Rightarrow> bool" where
  "to_inv owner \<longleftrightarrow> to_len owner \<le> length (to_items owner) \<and> to_len owner \<le> length (to_owned owner)"

definition to_held :: "'b target_ownership \<Rightarrow> pages list" where
  "to_held owner = flagged (to_items owner) (to_owned owner) (to_len owner)"

abbreviation to_log :: "('b \<times> 'e load_log) target_ownership \<Rightarrow> 'e load_log" where
  "to_log owner \<equiv> snd (to_backend owner)"

lemma to_release_outcome:
  assumes "to_inv s"
  shows "(\<exists>t. to_try_release (logged_segments ops) s = Ok t \<and> to_inv t \<and> to_held t = []
        \<and> to_log t = to_log s @ freed_events (rev (to_held s)))
    \<or> (\<exists>t e rest ev. to_try_release (logged_segments ops) s = Err (t, e) \<and> to_inv t \<and> to_held t \<noteq> []
        \<and> to_held s = to_held t @ rest \<and> re_remaining_segments e = length (to_held t)
        \<and> to_log t = to_log s @ freed_events (rev rest) @ [ev] \<and> pages_freed [ev] = [])"
proof -
  obtain b log where b: "to_backend s = (b, log)" by fastforce
  let ?n = "to_len s" and ?items = "to_items s" and ?owned = "to_owned s"
  have n: "?n \<le> length ?items" "?n \<le> length ?owned" using assms by (simp_all add: to_inv_def)
  have free: "free_pages (logged_segments ops) = log_free (free_pages ops)" by (simp add: logged_segments_def)
  consider (ok) b' where "release_flagged (log_free (free_pages ops)) ?items ?n (b, log) ?owned
      = Ok ((b', log @ freed_events (rev (flagged ?items ?owned ?n))), clear_flags 0 ?n ?owned)"
    | (err) b' i e rest where "release_flagged (log_free (free_pages ops)) ?items ?n (b, log) ?owned
          = Err ((b', log @ freed_events (rev rest) @ [PagesRefused (fst (?items ! i)) (snd (?items ! i)) e]),
                 clear_flags (Suc i) ?n ?owned, i, e)"
      "i < ?n" "?owned ! i" "flagged ?items ?owned ?n = flagged ?items ?owned (Suc i) @ rest"
    using release_flagged_outcome [OF n, of "free_pages ops" b log] by blast
  then show ?thesis
  proof cases
    case ok
    let ?t = "s\<lparr>to_backend := (b', log @ freed_events (rev (to_held s))), to_owned := clear_flags 0 ?n ?owned\<rparr>"
    have "to_try_release (logged_segments ops) s = Ok ?t" using ok by (simp add: to_try_release_def free b to_held_def)
    moreover have "to_inv ?t" "to_held ?t = []" "to_log ?t = to_log s @ freed_events (rev (to_held s))"
      using n b flagged_clear [of 0 ?n ?items ?owned] by (simp_all add: to_inv_def to_held_def)
    ultimately show ?thesis by blast
  next
    case err
    let ?ev = "PagesRefused (fst (?items ! i)) (snd (?items ! i)) e"
    let ?t = "s\<lparr>to_backend := (b', log @ freed_events (rev rest) @ [?ev]), to_owned := clear_flags (Suc i) ?n ?owned\<rparr>"
    have held: "to_held ?t = flagged ?items ?owned (Suc i)"
      using n err(2) flagged_clear [of "Suc i" ?n ?items ?owned] by (simp add: to_held_def)
    then have "to_held ?t \<noteq> []" "to_held s = to_held ?t @ rest"
      using flagged_Suc [of i ?items ?owned] err n by (simp_all add: to_held_def)
    moreover have "to_inv ?t" "to_log ?t = to_log s @ freed_events (rev rest) @ [?ev]" "pages_freed [?ev] = []"
      using n b by (simp_all add: to_inv_def)
    moreover have "to_remaining_segments ?t = length (to_held ?t)"
      using n by (simp add: to_remaining_segments_def to_held_def length_flagged)
    moreover have "to_try_release (logged_segments ops) s = Err (?t, \<lparr>re_segment_index = i,
        re_remaining_segments = to_remaining_segments ?t, re_source = e\<rparr>)"
      using err(1) by (simp add: to_try_release_def free b Let_def)
    ultimately show ?thesis by (metis release_error.select_convs(2))
  qed
qed

interpretation tgt: resource_owner to_inv to_held "\<lambda>s. pages_freed (to_log s)"
    "to_try_release (logged_segments ops)" for ops :: "('b, 'e) segment_backend"
proof
  fix s t :: "('b \<times> 'e load_log) target_ownership" and e
  assume "to_inv s"
  note outcome = to_release_outcome [OF this, of ops]
  show "to_try_release (logged_segments ops) s = Ok t \<Longrightarrow>
      to_inv t \<and> to_held t = [] \<and> pages_freed (to_log t) = pages_freed (to_log s) @ rev (to_held s)"
    and "to_try_release (logged_segments ops) s = Err (t, e) \<Longrightarrow>
      to_inv t \<and> to_held t \<noteq> [] \<and> (\<exists>rest. to_held s = to_held t @ rest
        \<and> pages_freed (to_log t) = pages_freed (to_log s) @ rev rest)"
    and "to_try_release (logged_segments ops) s \<noteq> Panic"
    using outcome by auto
qed

section \<open>The stages of preparation\<close>

definition item_pages :: "load_item \<Rightarrow> pages" where
  "item_pages item = (li_page_start item, li_page_count item)"

text \<open>The owner of the first \<open>k\<close> of the pages \<open>P\<close>.\<close>

definition owner_at :: "pages list \<Rightarrow> 'b \<Rightarrow> nat \<Rightarrow> 'b target_ownership" where
  "owner_at P backend k = \<lparr>to_backend = backend, to_items = P @ replicate (128 - length P) (0, 0),
     to_owned = replicate k True @ replicate (128 - k) False, to_len = length P\<rparr>"

lemma new_owner:
  assumes "length segs \<le> 128"
  shows "TargetOwnership_new (plan_of entry segs) backend = Ok (owner_at (map (item_pages \<circ> item_of) segs) backend 0)"
proof -
  have "try_fold (\<lambda>items (index, item). arr_set items index (item_pages item)) (replicate 128 (0, 0)) (enumerate 0 (map item_of segs))
      = Ok (map (item_pages \<circ> item_of) segs @ replicate (128 - length segs) (0, 0))"
    using assms try_fold_write [of 0 "map item_of segs" "replicate 128 (0, 0)" item_pages] by simp
  then show ?thesis
    using assms
    by (simp add: TargetOwnership_new_def plan_of_live owner_at_def MAX_LOAD_ITEMS_def MAX_PROGRAM_HEADERS_def item_pages_def)
      (simp add: plan_of_def)
qed

lemma held_owner_at:
  assumes "length P \<le> 128" "k \<le> length P"
  shows "to_held (owner_at P backend k) = take k P" "to_inv (owner_at P backend k)"
proof -
  have "flagged (P @ replicate (128 - length P) (0, 0)) (replicate k True @ replicate (128 - k) False) n = take (min k n) P"
    if "n \<le> length P" for n
    using that
  proof (induction n)
    case (Suc n)
    show ?case
    proof (cases "n < k")
      case True
      then have "min k (Suc n) = Suc n" "min k n = n" by simp_all
      then show ?thesis using Suc assms True by (simp add: flagged_Suc nth_append take_Suc_conv_app_nth)
    next
      case False
      then have "min k (Suc n) = k" "min k n = k" by simp_all
      then show ?thesis using Suc assms False by (simp add: flagged_Suc nth_append)
    qed
  qed simp
  from this [of "length P"] show "to_held (owner_at P backend k) = take k P"
    using assms by (simp add: to_held_def owner_at_def min_def)
  show "to_inv (owner_at P backend k)" using assms by (simp add: to_inv_def owner_at_def)
qed

lemma owner_at_simps:
  "to_backend (owner_at P b k) = b" "(owner_at P b k)\<lparr>to_backend := b'\<rparr> = owner_at P b' k"
  "(owner_at P b k)\<lparr>to_owned := replicate (Suc j) True @ replicate (127 - j) False\<rparr> = owner_at P b (Suc j)"
  by (simp_all add: owner_at_def)

abbreviation allocated_events :: "pages list \<Rightarrow> ('e, 'w) page_event list" where
  "allocated_events xs \<equiv> map (\<lambda>(s, c). PagesAllocated s c) xs"

lemma allocated_events_simps [simp]:
  "pages_allocated (allocated_events xs) = xs" "pages_freed (allocated_events xs) = []"
  by (induction xs) auto

lemma allocate_targets_outcome:
  fixes ops :: "('b, 'e) segment_backend"
  assumes "length P \<le> 128" "k \<le> length P"
  shows "(\<exists>b'. try_fold (allocate_target (logged_segments ops)) (owner_at P (b, []) 0) [0 ..< k]
        = Ok (owner_at P (b', allocated_events (take k P)) k))
    \<or> (\<exists>b' j e. try_fold (allocate_target (logged_segments ops)) (owner_at P (b, []) 0) [0 ..< k]
        = Err \<lparr>wf_kind = WkAllocate, wf_error = e,
            wf_owner = owner_at P (b', allocated_events (take j P) @ [PagesDenied (fst (P ! j)) (snd (P ! j)) e]) j\<rparr> \<and> j < k)"
  using assms(2)
proof (induction k)
  case (Suc k)
  let ?ops = "logged_segments ops"
  let ?fold = "\<lambda>k. try_fold (allocate_target ?ops) (owner_at P (b, []) 0) [0 ..< k]"
  have return: "and_then m Ok = m" for m :: "('x, 'y) result" by (cases m) auto
  have split: "?fold (Suc k) = and_then (?fold k) (\<lambda>o'. allocate_target ?ops o' k)" by (simp add: try_fold_append return)
  consider (ok) b' where "?fold k = Ok (owner_at P (b', allocated_events (take k P)) k)"
    | (err) b' j e where "?fold k = Err \<lparr>wf_kind = WkAllocate, wf_error = e,
        wf_owner = owner_at P (b', allocated_events (take j P) @ [PagesDenied (fst (P ! j)) (snd (P ! j)) e]) j\<rparr>" "j < k"
    using Suc by force
  then show ?case
  proof cases
    case err
    then show ?thesis unfolding split by (auto intro: less_SucI)
  next
    case ok
    obtain s c where sc: "P ! k = (s, c)" by fastforce
    let ?log = "allocated_events (take k P) :: 'e load_log"
    have get: "arr_get (to_items (owner_at P (b', ?log) k)) k = Ok (s, c)"
      using Suc.prems sc by (simp add: owner_at_def arr_get_def nth_append)
    have flags: "arr_set (to_owned (owner_at P (b', ?log) k)) k True = Ok (replicate (Suc k) True @ replicate (128 - Suc k) False)"
    proof -
      have "128 - k = Suc (128 - Suc k)" using Suc.prems assms(1) by simp
      then show ?thesis using Suc.prems assms(1)
        by (simp add: owner_at_def list_update_append replicate_app_Cons_same)
    qed
    have alloc: "allocate_at ?ops = log_allocate (allocate_at ops)" by (simp add: logged_segments_def)
    show ?thesis
    proof (cases rule: allocate_logged [of "allocate_at ops" b' s c ?log])
      case (denied b'' e)
      then have "allocate_target ?ops (owner_at P (b', ?log) k) k = Err \<lparr>wf_kind = WkAllocate, wf_error = e,
          wf_owner = owner_at P (b'', ?log @ [PagesDenied (fst (P ! k)) (snd (P ! k)) e]) k\<rparr>"
        unfolding allocate_target_def alloc by (simp add: get owner_at_simps sc)
      then show ?thesis unfolding split ok by auto
    next
      case (granted b'')
      have "take (Suc k) P = take k P @ [(s, c)]" using Suc.prems sc by (simp add: take_Suc_conv_app_nth)
      then have "allocate_target ?ops (owner_at P (b', ?log) k) k
          = Ok (owner_at P (b'', allocated_events (take (Suc k) P)) (Suc k))"
        using granted unfolding allocate_target_def alloc by (simp add: get flags owner_at_simps del: replicate_Suc)
      then show ?thesis unfolding split ok by auto
    qed
  qed
qed auto

lemma target_work_outcome:
  fixes w :: "'b \<Rightarrow> load_item \<Rightarrow> 'b \<times> ('e + unit)" and log :: "'e load_log"
  shows "(\<exists>b'. try_fold (target_work kind (log_work ev w)) (owner_at P (b, log) k) items
        = Ok (owner_at P (b', log @ map (\<lambda>i. OtherCall (ev i (Inr ()))) items) k))
   \<or> (\<exists>b' e before item after. items = before @ item # after
        \<and> try_fold (target_work kind (log_work ev w)) (owner_at P (b, log) k) items
        = Err \<lparr>wf_kind = kind, wf_error = e, wf_owner = owner_at P
            (b', log @ map (\<lambda>i. OtherCall (ev i (Inr ()))) before @ [OtherCall (ev item (Inl e))]) k\<rparr>)"
proof (induction items arbitrary: b log)
  case (Cons item items)
  obtain b' r where w: "w b item = (b', r)" by fastforce
  let ?log = "log @ [OtherCall (ev item (Inr ()))]"
  have step: "target_work kind (log_work ev w) (owner_at P (b, log) k) item = (case r of
      Inl e \<Rightarrow> Err \<lparr>wf_kind = kind, wf_error = e, wf_owner = owner_at P (b', log @ [OtherCall (ev item (Inl e))]) k\<rparr>
    | Inr _ \<Rightarrow> Ok (owner_at P (b', ?log) k))"
    using w by (simp add: target_work_def log_work_def owner_at_def split: sum.splits)
  show ?case
  proof (cases r)
    case (Inl e)
    then show ?thesis using step
      by (intro disjI2 exI [of _ b'] exI [of _ e] exI [of _ "[]"] exI [of _ item] exI [of _ items]) simp
  next
    case (Inr u)
    from Cons.IH [of b' ?log] show ?thesis
    proof (elim disjE exE conjE)
      fix b'' e before i after
      assume "items = before @ i # after" "try_fold (target_work kind (log_work ev w)) (owner_at P (b', ?log) k) items
        = Err \<lparr>wf_kind = kind, wf_error = e, wf_owner = owner_at P
            (b'', ?log @ map (\<lambda>i. OtherCall (ev i (Inr ()))) before @ [OtherCall (ev i (Inl e))]) k\<rparr>"
      then show ?thesis using step Inr
        by (intro disjI2 exI [of _ b''] exI [of _ e] exI [of _ "item # before"] exI [of _ i] exI [of _ after]) simp
    qed (use step Inr in auto)
  qed
qed auto

text \<open>What an owner holds is what the backend granted, and nothing has been given back.\<close>

definition accounts_for :: "pages list \<Rightarrow> ('b \<times> 'e load_log) target_ownership \<Rightarrow> bool" where
  "accounts_for P owner \<longleftrightarrow> to_inv owner \<and> to_held owner = P \<and> pages_allocated (to_log owner) = P
     \<and> pages_freed (to_log owner) = []"

lemma accounts_owner_at:
  assumes "length P \<le> 128" "k \<le> length P" "pages_allocated log = take k P" "pages_freed log = []"
  shows "accounts_for (take k P) (owner_at P (b, log) k)"
  using assms by (simp add: accounts_for_def owner_at_simps held_owner_at)

text \<open>
  The calls of an undisturbed preparation: all targets are allocated, then all are cleared, then all
  are copied, then all are verified, and each stage is reported once its calls are complete.
\<close>

definition prepared_trace :: "load_item list \<Rightarrow> u8 list \<Rightarrow> 'e load_log" where
  "prepared_trace items source =
     allocated_events (map item_pages items) @ [OtherCall (StageCall StAllocated)]
     @ map (\<lambda>i. OtherCall (ZeroCall i (Inr ()))) items @ [OtherCall (StageCall StZeroed)]
     @ map (\<lambda>i. OtherCall (CopyCall i source (Inr ()))) items @ [OtherCall (StageCall StCopied)]
     @ map (\<lambda>i. OtherCall (VerifyCall i source (Inr ()))) items @ [OtherCall (StageCall StVerified)]"

text \<open>A call of that trace which the firmware refuses with the error \<open>e\<close>, and its kind.\<close>

fun refused :: "'e \<Rightarrow> ('e, 'e work_event) page_event \<Rightarrow> (load_work_kind \<times> ('e, 'e work_event) page_event) option" where
  "refused e (PagesAllocated s c) = Some (WkAllocate, PagesDenied s c e)"
| "refused e (OtherCall (ZeroCall i _)) = Some (WkZero, OtherCall (ZeroCall i (Inl e)))"
| "refused e (OtherCall (CopyCall i s _)) = Some (WkCopy, OtherCall (CopyCall i s (Inl e)))"
| "refused e (OtherCall (VerifyCall i s _)) = Some (WkVerify, OtherCall (VerifyCall i s (Inl e)))"
| "refused e _ = None"

text \<open>
  Every outcome of the preparation follows the trace \<open>T\<close>, to its end or to the call that is refused,
  and accounts for the pages.
\<close>

definition accounted ::
    "'e load_log \<Rightarrow> pages list
     \<Rightarrow> (('b \<times> 'e load_log) verified_targets, ('b \<times> 'e load_log, 'e) load_work_failure) result \<Rightarrow> bool" where
  "accounted T P r \<longleftrightarrow> (case r of
      Ok targets \<Rightarrow> (\<exists>owner. vt_owner targets = Some owner \<and> to_log owner = T \<and> accounts_for P owner)
    | Err failure \<Rightarrow> (\<exists>before call after refusal k. T = before @ call # after
        \<and> refused (wf_error failure) call = Some (wf_kind failure, refusal)
        \<and> to_log (wf_owner failure) = before @ [refusal] \<and> accounts_for (take k P) (wf_owner failure))
    | Panic \<Rightarrow> False)"

lemma accounted_ErrI:
  assumes "T = before @ call # after" "refused e call = Some (kind, refusal)"
    and "to_log owner = before @ [refusal]" "accounts_for (take k P) owner"
  shows "accounted T P (Err \<lparr>wf_kind = kind, wf_error = e, wf_owner = owner\<rparr>)"
  unfolding accounted_def result.case load_work_failure.simps using assms by blast

lemma pages_of_calls [simp]:
  "pages_allocated (map (\<lambda>i. OtherCall (f i)) items) = []" "pages_freed (map (\<lambda>i. OtherCall (f i)) items) = []"
  by (induction items) auto

lemma report_owner_at:
  "report_stage (log_stage stage) reached (owner_at P (b, log) k)
     = owner_at P (stage reached b, log @ [OtherCall (StageCall reached)]) k"
  by (simp add: report_stage_def log_stage_def owner_at_def)

lemma accounted_stage:
  fixes b :: 'b and log :: "'e load_log"
  assumes P: "length P \<le> 128" "pages_allocated log = P" "pages_freed log = []"
    and T: "T = log @ map (\<lambda>i. OtherCall (ev i (Inr ()))) items @ rest"
    and ev: "\<And>e i. refused e (OtherCall (ev i (Inr ()))) = Some (kind, OtherCall (ev i (Inl e)))"
    and continue: "\<And>b' :: 'b. accounted T P (g (owner_at P (b', log @ map (\<lambda>i. OtherCall (ev i (Inr ()))) items) (length P)))"
  shows "accounted T P (and_then (try_fold (target_work kind (log_work ev w)) (owner_at P (b, log) (length P)) items) g)"
  using target_work_outcome [of kind ev w P b log "length P" items]
proof (elim disjE exE conjE)
  fix b' e before item after
  let ?log = "log @ map (\<lambda>i. OtherCall (ev i (Inr ()))) before @ [OtherCall (ev item (Inl e))]"
  assume items: "items = before @ item # after" and fold: "try_fold (target_work kind (log_work ev w)) (owner_at P (b, log) (length P)) items
      = Err \<lparr>wf_kind = kind, wf_error = e, wf_owner = owner_at P (b', ?log) (length P)\<rparr>"
  have acc: "accounts_for (take (length P) P) (owner_at P (b', ?log) (length P))"
    using P by (intro accounts_owner_at) simp_all
  show ?thesis
    unfolding fold and_then.simps
    by (rule accounted_ErrI [OF _ ev _ acc, of _ "log @ map (\<lambda>i. OtherCall (ev i (Inr ()))) before" item
          "map (\<lambda>i. OtherCall (ev i (Inr ()))) after @ rest"]) (simp_all add: T items owner_at_simps)
qed (simp add: continue)

text \<open>The run of the instrumented preparation, with its stages spelled out.\<close>

lemma prepare_run:
  assumes "length segs \<le> 128"
  defines "P \<equiv> map (item_pages \<circ> item_of) segs" and "items \<equiv> map item_of segs"
  shows "prepare_targets (logged_segments ops) (log_stage stage) (plan_of entry segs) source (b, []) =
     and_then (try_fold (allocate_target (logged_segments ops)) (owner_at P (b, []) 0) [0 ..< length P]) (\<lambda>owner.
     and_then (try_fold (target_work WkZero (log_work ZeroCall (zero_item ops)))
       (report_stage (log_stage stage) StAllocated owner) items) (\<lambda>owner.
     and_then (try_fold (target_work WkCopy (log_work (\<lambda>item. CopyCall item source) (\<lambda>b item. copy_item ops b item source)))
       (report_stage (log_stage stage) StZeroed owner) items) (\<lambda>owner.
     and_then (try_fold (target_work WkVerify (log_work (\<lambda>item. VerifyCall item source) (\<lambda>b item. verify_item ops b item source)))
       (report_stage (log_stage stage) StCopied owner) items) (\<lambda>owner.
     Ok \<lparr>vt_owner = Some (report_stage (log_stage stage) StVerified owner)\<rparr>))))"
proof -
  have n: "to_len (owner_at P (b, []) 0) = length P" by (simp add: owner_at_def)
  have ops: "zero_item (logged_segments ops) = log_work ZeroCall (zero_item ops)"
    "(\<lambda>b item. copy_item (logged_segments ops) b item source) = log_work (\<lambda>item. CopyCall item source) (\<lambda>b item. copy_item ops b item source)"
    "(\<lambda>b item. verify_item (logged_segments ops) b item source) = log_work (\<lambda>item. VerifyCall item source) (\<lambda>b item. verify_item ops b item source)"
    by (simp_all add: logged_segments_def)
  show ?thesis
    unfolding prepare_targets_def ops Let_def
    by (simp add: new_owner [OF assms(1)] plan_of_live [OF assms(1)] P_def [symmetric] n items_def)
qed

lemma prepare_accounted:
  assumes "length segs \<le> 128"
  shows "accounted (prepared_trace (map item_of segs) source) (map (item_pages \<circ> item_of) segs)
    (prepare_targets (logged_segments ops) (log_stage stage) (plan_of entry segs) source (b, []))"
proof -
  define P where "P = map (item_pages \<circ> item_of) segs"
  define items where "items = map item_of segs"
  let ?T = "prepared_trace items source"
  have n: "length P \<le> 128" and P: "map item_pages items = P" using assms by (simp_all add: P_def items_def)
  note run = prepare_run [OF assms, of ops stage entry source b, folded P_def items_def]
  consider (ok) b' where "try_fold (allocate_target (logged_segments ops)) (owner_at P (b, []) 0) [0 ..< length P]
        = Ok (owner_at P (b', allocated_events P) (length P))"
    | (err) b' j e where "try_fold (allocate_target (logged_segments ops)) (owner_at P (b, []) 0) [0 ..< length P]
        = Err \<lparr>wf_kind = WkAllocate, wf_error = e,
            wf_owner = owner_at P (b', allocated_events (take j P) @ [PagesDenied (fst (P ! j)) (snd (P ! j)) e]) j\<rparr>" "j < length P"
    using allocate_targets_outcome [OF n order_refl, of ops b] by auto
  then have "accounted ?T P (prepare_targets (logged_segments ops) (log_stage stage) (plan_of entry segs) source (b, []))"
  proof cases
    case ok
    have finished: "accounted ?T P (Ok \<lparr>vt_owner = Some (owner_at P (b', ?T) (length P))\<rparr>)" for b'
    proof -
      have "accounts_for (take (length P) P) (owner_at P (b', ?T) (length P))"
        using n by (intro accounts_owner_at) (simp_all add: prepared_trace_def P)
      then show ?thesis by (simp add: accounted_def owner_at_simps)
    qed
    show ?thesis
      unfolding run ok and_then.simps report_owner_at
      apply (rule accounted_stage, use n in \<open>simp_all add: prepared_trace_def P report_owner_at\<close>)
      apply (rule accounted_stage, use n in \<open>simp_all add: report_owner_at\<close>)
      apply (rule accounted_stage, use n in \<open>simp_all add: report_owner_at\<close>)
      using finished by (simp add: prepared_trace_def P)
  next
    case err
    have acc: "accounts_for (take j P) (owner_at P (b', allocated_events (take j P) @ [PagesDenied (fst (P ! j)) (snd (P ! j)) e]) j)"
      using n err(2) by (intro accounts_owner_at) simp_all
    have "P = take j P @ P ! j # drop (Suc j) P" using err(2) by (simp add: id_take_nth_drop)
    then have "?T = allocated_events (take j P @ P ! j # drop (Suc j) P) @ drop (length P) ?T"
      by (simp add: prepared_trace_def P)
    then have "?T = allocated_events (take j P) @ PagesAllocated (fst (P ! j)) (snd (P ! j))
        # (allocated_events (drop (Suc j) P) @ drop (length P) ?T)"
      by (simp add: case_prod_beta)
    then show ?thesis
      unfolding run err(1) and_then.simps by (rule accounted_ErrI [OF _ _ _ acc]) (simp_all add: owner_at_simps)
  qed
  then show ?thesis by (simp add: P_def items_def)
qed

lemma distinct_map_sorted_wrt: "sorted_wrt (\<lambda>s t. f s \<noteq> f t) xs \<Longrightarrow> distinct (map f xs)"
  by (induction xs) auto

lemma placed_pages_distinct:
  assumes "specs_placed source source_end segs"
  shows "distinct (map (item_pages \<circ> item_of) segs)"
proof (rule distinct_map_sorted_wrt)
  have fits: "spec_fits (sa_file_length source) s" if "s \<in> set segs" for s
    using assms that by (simp add: specs_placed_def spec_placed_def)
  have start: "(item_pages \<circ> item_of) s \<noteq> (item_pages \<circ> item_of) t"
    if "s \<in> set segs" "t \<in> set segs" "pages_apart s t" for s t
  proof
    assume "(item_pages \<circ> item_of) s = (item_pages \<circ> item_of) t"
    then have "ss_target s = ss_target t" by (simp add: item_pages_def item_of_def Let_def)
    then show False
      using item_of_pages(3) [OF fits [OF that(1)]] item_of_pages(3) [OF fits [OF that(2)]] that(3)
      by (simp add: pages_apart_def)
  qed
  have "sorted_wrt pages_apart segs" using assms by (simp add: specs_placed_def)
  then show "sorted_wrt (\<lambda>s t. (item_pages \<circ> item_of) s \<noteq> (item_pages \<circ> item_of) t) segs"
    by (rule sorted_wrt_mono_rel [rotated]) (rule start)
qed

section \<open>The loaded kernel describes the plan\<close>

definition metadata_of :: "segment_spec \<Rightarrow> segment_metadata" where
  "metadata_of seg = \<lparr>sm_memory_start = ss_target seg, sm_memory_end = ss_target seg + ss_memory_size seg,
     sm_allocation_start = ss_target seg, sm_allocation_end = of_nat (spec_end seg),
     sm_page_count = li_page_count (item_of seg), sm_flags = ss_flags seg, sm_file_size = ss_file_size seg,
     sm_memory_size = ss_memory_size seg\<rparr>"

definition page_total :: "segment_spec list \<Rightarrow> nat" where
  "page_total S = sum_list (map (\<lambda>s. (spec_end s - unat (ss_target s)) div 4096) S)"

definition summary_ok :: "u64 \<Rightarrow> segment_spec list \<Rightarrow> load_summary \<Rightarrow> bool" where
  "summary_ok entry S sums \<longleftrightarrow>
     sum_segments sums = map metadata_of S @ replicate (128 - length S) SegmentMetadata_EMPTY
     \<and> (\<forall>s \<in> set S. sum_load_start sums \<le> ss_target s \<and> spec_end s \<le> unat (sum_load_end sums))
     \<and> (S \<noteq> [] \<longrightarrow> (\<exists>s \<in> set S. sum_load_start sums = ss_target s) \<and> (\<exists>s \<in> set S. unat (sum_load_end sums) = spec_end s))
     \<and> unat (sum_total_pages sums) = page_total S
     \<and> ((\<exists>s \<in> set S. entry_item entry (item_of s)) \<longrightarrow>
          sum_entry_index sums < length S \<and> entry_item entry (item_of (S ! sum_entry_index sums)))"

lemma page_total_bound:
  assumes "specs_placed source source_end S"
  shows "page_total S \<le> 0x4000000"
proof -
  have "page_total S \<le> sum_list (map (\<lambda>s. spec_end s - unat (ss_target s)) S)"
    unfolding page_total_def by (intro sum_list_mono) simp
  then show ?thesis using placed_total [OF assms] by simp
qed

definition no_summary :: load_summary where
  "no_summary = \<lparr>sum_segments = replicate 128 SegmentMetadata_EMPTY, sum_load_start = - 1, sum_load_end = 0,
     sum_total_pages = 0, sum_entry_index = 0\<rparr>"

lemma summarize_step:
  assumes placed: "specs_placed source source_end (S @ [seg])" and inv: "summary_ok entry S sums"
    and empty: "S = [] \<longrightarrow> sums = no_summary"
  shows "\<exists>sums'. summarize_item entry sums (length S, item_of seg) = Ok sums' \<and> summary_ok entry (S @ [seg]) sums'"
proof -
  let ?item = "item_of seg"
  have fits: "spec_fits (sa_file_length source) seg" and len: "length S < 128"
    using placed by (auto simp: specs_placed_def spec_placed_def)
  note i = item_of_pages [OF fits] and e = spec_end_facts [OF fits]
  have "unat (li_page_start ?item) + unat (li_page_length ?item) = unat (of_nat (spec_end seg) :: u64)" using i e by simp
  then have end_: "checked_add (li_page_start ?item) (li_page_length ?item) = Some (of_nat (spec_end seg))"
    by (simp only: checked_add_Some)
  have total: "unat (sum_total_pages sums) + unat (li_page_count ?item) = page_total (S @ [seg])"
    using inv i(4) by (simp add: summary_ok_def page_total_def)
  then obtain total where t: "checked_add (sum_total_pages sums) (li_page_count ?item) = Some total" "unat total = page_total (S @ [seg])"
    using checked_add_in_range [of "sum_total_pages sums" "li_page_count ?item"] page_total_bound [OF placed] by auto
  have meta: "\<lparr>sm_memory_start = li_target_start ?item, sm_memory_end = li_target_end ?item,
          sm_allocation_start = ss_target seg, sm_allocation_end = of_nat (spec_end seg),
          sm_page_count = li_page_count ?item, sm_flags = li_flags ?item, sm_file_size = li_file_size ?item,
          sm_memory_size = li_memory_size ?item\<rparr> = metadata_of seg"
    by (simp add: metadata_of_def item_of_def Let_def)
  have "128 - length S = Suc (128 - Suc (length S))" using len by simp
  then have set: "arr_set (sum_segments sums) (length S) (metadata_of seg)
      = Ok (map metadata_of (S @ [seg]) @ replicate (128 - length (S @ [seg])) SegmentMetadata_EMPTY)"
    using inv len by (simp add: summary_ok_def list_update_append)
  let ?sums = "\<lparr>sum_segments = map metadata_of (S @ [seg]) @ replicate (128 - length (S @ [seg])) SegmentMetadata_EMPTY,
     sum_load_start = min (sum_load_start sums) (ss_target seg),
     sum_load_end = max (sum_load_end sums) (of_nat (spec_end seg)), sum_total_pages = total,
     sum_entry_index = (if entry_item entry ?item then length S else sum_entry_index sums)\<rparr>"
  have "summarize_item entry sums (length S, ?item) = Ok ?sums"
    using end_ t(1) i(1) unfolding summarize_item_def
    by (simp add: meta set entry_item_def del: checked_add_Some)
  moreover have "(\<forall>s \<in> set (S @ [seg]). min (sum_load_start sums) (ss_target seg) \<le> ss_target s)
      \<and> (\<exists>s \<in> set (S @ [seg]). min (sum_load_start sums) (ss_target seg) = ss_target s)"
  proof (cases "S = []")
    case False
    have "min (sum_load_start sums) (ss_target seg) = sum_load_start sums
        \<or> min (sum_load_start sums) (ss_target seg) = ss_target seg" by (auto simp: min_def)
    then show ?thesis using inv False by (auto simp: summary_ok_def min_le_iff_disj)
  qed (use empty in \<open>simp add: no_summary_def min_absorb2\<close>)
  moreover have "(\<forall>s \<in> set (S @ [seg]). spec_end s \<le> unat (max (sum_load_end sums) (of_nat (spec_end seg))))
      \<and> (\<exists>s \<in> set (S @ [seg]). unat (max (sum_load_end sums) (of_nat (spec_end seg))) = spec_end s)"
  proof (cases "S = []")
    case False
    have "unat (max a b) = max (unat a) (unat b)" for a b :: u64 by (auto simp: max_def word_le_nat_alt)
    moreover have "max (unat (sum_load_end sums)) (spec_end seg) = unat (sum_load_end sums)
        \<or> max (unat (sum_load_end sums)) (spec_end seg) = spec_end seg" by (auto simp: max_def)
    ultimately show ?thesis using inv False e(1) by (auto simp: summary_ok_def le_max_iff_disj)
  qed (use empty e(1) in \<open>simp add: no_summary_def max_absorb2\<close>)
  moreover have "(\<exists>s \<in> set (S @ [seg]). entry_item entry (item_of s)) \<longrightarrow>
      sum_entry_index ?sums < length (S @ [seg]) \<and> entry_item entry (item_of ((S @ [seg]) ! sum_entry_index ?sums))"
    using inv by (auto simp: summary_ok_def nth_append)
  ultimately have "summarize_item entry sums (length S, ?item) = Ok ?sums \<and> summary_ok entry (S @ [seg]) ?sums"
    using t(2) by (simp add: summary_ok_def)
  then show ?thesis by blast
qed

lemma summarize_all:
  assumes "specs_placed source source_end S"
  shows "\<exists>sums. (try_fold (summarize_item entry) no_summary (enumerate 0 (map item_of S)) :: (load_summary, 'x) result) = Ok sums \<and> summary_ok entry S sums"
proof -
  have "\<exists>sums. (try_fold (summarize_item entry) no_summary (enumerate 0 (map item_of S)) :: (load_summary, 'x) result) = Ok sums \<and> summary_ok entry S sums
      \<and> (S = [] \<longrightarrow> sums = no_summary)"
    using assms
  proof (induction S rule: rev_induct)
    case (snoc seg S)
    have "specs_placed source source_end S" using snoc.prems by (auto simp: specs_placed_def sorted_wrt_append)
    then obtain sums where "(try_fold (summarize_item entry) no_summary (enumerate 0 (map item_of S)) :: (load_summary, 'x) result) = Ok sums"
      "summary_ok entry S sums" "S = [] \<longrightarrow> sums = no_summary" using snoc.IH by blast
    moreover from summarize_step [OF snoc.prems this(2,3)] obtain sums' where
      "(summarize_item entry sums (length S, item_of seg) :: (load_summary, 'x) result) = Ok sums'" "summary_ok entry (S @ [seg]) sums'" by blast
    ultimately show ?case by (simp add: enumerate_append_eq try_fold_append)
  qed (simp add: summary_ok_def no_summary_def page_total_def)
  then show ?thesis by blast
qed

section \<open>A sample plan\<close>

definition sample_spec :: segment_spec where
  "sample_spec = \<lparr>ss_file_offset = 0, ss_file_size = 2, ss_memory_size = 100, ss_target = 0x200000, ss_flags = 5\<rparr>"

definition sample_source :: source_allocation where
  "sample_source = \<lparr>sa_page_start = 0x10000000, sa_page_count = 1, sa_file_length = 2\<rparr>"

lemma sample_plan: "LoadPlan_build 0x200010 [sample_spec] sample_source = Ok (plan_of 0x200010 [sample_spec])"
proof -
  have end_: "spec_end sample_spec = 0x201000" by (simp add: spec_end_def sample_spec_def page_ceiling_def)
  have "specs_placed sample_source 0x10001000 [sample_spec]"
    by (simp add: specs_placed_def spec_placed_def end_) (simp add: sample_spec_def sample_source_def spec_fits_def)
  moreover have "entry_item 0x200010 (item_of sample_spec)"
    by (simp add: entry_item_def item_of_def Let_def sample_spec_def li_is_executable_def)
  ultimately show ?thesis unfolding build_Ok by (auto simp: sample_source_def intro!: exI [of _ "0x10001000"])
qed

section \<open>Properties\<close>

lemma built_plan:
  assumes "LoadPlan_build entry segs alloc = Ok plan"
  obtains source_end where "specs_placed alloc source_end segs" "plan = plan_of entry segs" "segs \<noteq> []"
    "\<exists>seg \<in> set segs. entry_item entry (item_of seg)"
  using assms unfolding build_Ok by blast

text \<open>
  C11. Initialising the target of a planned segment succeeds whatever the buffer held before, and
  leaves the file contents followed by zeros up to the end of the last page. Verification accepts
  exactly that image: every other buffer is rejected.
\<close>
theorem target_image_roundtrip:
  assumes "LoadPlan_build entry segs alloc = Ok plan" and "seg \<in> set segs"
    and "unat (sa_file_length alloc) = length source"
    and "length target = unat (li_page_length (item_of seg))"
  shows "initialize_target (item_of seg) source target = Ok (spec_image seg source)
    \<and> (verify_target (item_of seg) source t = Ok () \<longleftrightarrow> t = spec_image seg source)
    \<and> verify_target (item_of seg) source t \<noteq> Panic"
proof -
  obtain source_end where "specs_placed alloc source_end segs" using assms(1) by (rule built_plan)
  then have fits: "spec_fits (sa_file_length alloc) seg" using assms(2) by (simp add: specs_placed_def spec_placed_def)
  note len = item_of_pages(2) [OF fits] and image = length_spec_image [OF fits assms(3)]
  have "verify_target (item_of seg) source t = Ok () \<longleftrightarrow> t = spec_image seg source"
  proof (cases "length t = spec_end seg - unat (ss_target seg)")
    case True
    then show ?thesis using verify_target_item [OF fits assms(3)] by blast
  next
    case False
    then have "verify_target (item_of seg) source t \<noteq> Ok ()" by (simp add: verify_target_def len)
    then show ?thesis using False image by auto
  qed
  then show ?thesis using initialize_target_item [OF fits assms(3)] assms(4) len verify_no_panic by simp
qed

theorem target_image_roundtrip_witness:
  "initialize_target (item_of sample_spec) [7, 9] (replicate 4096 1) = Ok (spec_image sample_spec [7, 9])
   \<and> verify_target (item_of sample_spec) [7, 9] (spec_image sample_spec [7, 9]) = Ok ()
   \<and> verify_target (item_of sample_spec) [7, 9] [] \<noteq> Ok ()"
proof -
  have page: "unat (li_page_length (item_of sample_spec)) = 4096"
    by (simp add: item_of_def Let_def li_page_length_def sample_spec_def spec_end_def page_ceiling_def)
  have "spec_image sample_spec [7, 9] \<noteq> []" by (simp add: spec_image_def sample_spec_def)
  then show ?thesis
    using target_image_roundtrip [OF sample_plan, of sample_spec "[7, 9]" "replicate 4096 1" "spec_image sample_spec [7, 9]"]
      target_image_roundtrip [OF sample_plan, of sample_spec "[7, 9]" "replicate 4096 1" "[]"] page
    by (simp add: sample_source_def)
qed

text \<open>
  C10. Target pages are accounted for and the work is done in order, for every firmware: the calls
  of a finished preparation are exactly the allocation of every segment of the plan, then the
  clearing of every segment, then the copy of every segment from the source, then the verification
  of every segment against it, with each stage reported once its calls are complete. It owns exactly
  the pages of the plan. A failed preparation made exactly these calls up to the one that was
  refused, reports that call's kind and error, and owns exactly the pages granted before. Nothing is
  given back meanwhile. However often the owner is then asked to release, with refusals in between,
  no page range is freed twice, and each is either freed or still held.
\<close>
theorem targets_accounted:
  assumes "LoadPlan_build entry segs alloc = Ok plan"
  defines "P \<equiv> map (item_pages \<circ> item_of) segs"
  shows "accounted (prepared_trace (map item_of segs) source) P
      (prepare_targets (logged_segments ops) (log_stage stage) plan source (b, [])) \<and> distinct P
    \<and> (\<forall>k owner t. accounts_for (take k P) owner \<longrightarrow> calls (to_try_release (logged_segments ops)) owner t \<longrightarrow>
         distinct (pages_freed (to_log t)) \<and> set (pages_freed (to_log t)) \<inter> set (to_held t) = {}
         \<and> set (pages_freed (to_log t)) \<union> set (to_held t) = set (take k P))"
proof -
  obtain source_end where placed: "specs_placed alloc source_end segs" and plan: "plan = plan_of entry segs"
    using assms(1) by (rule built_plan)
  have "length segs \<le> 128" using placed by (simp add: specs_placed_def)
  then have acc: "accounted (prepared_trace (map item_of segs) source) P
      (prepare_targets (logged_segments ops) (log_stage stage) plan source (b, []))"
    unfolding plan P_def by (rule prepare_accounted)
  have distinct: "distinct P" unfolding P_def using placed by (rule placed_pages_distinct)
  have "distinct (pages_freed (to_log t)) \<and> set (pages_freed (to_log t)) \<inter> set (to_held t) = {}
       \<and> set (pages_freed (to_log t)) \<union> set (to_held t) = set (take k P)"
    if "accounts_for (take k P) owner" "calls (to_try_release (logged_segments ops)) owner t" for k owner t
    using tgt.freed_once [OF that(2)] that(1) distinct by (simp add: accounts_for_def)
  then have "\<forall>k owner t. accounts_for (take k P) owner \<longrightarrow> calls (to_try_release (logged_segments ops)) owner t \<longrightarrow>
         distinct (pages_freed (to_log t)) \<and> set (pages_freed (to_log t)) \<inter> set (to_held t) = {}
         \<and> set (pages_freed (to_log t)) \<union> set (to_held t) = set (take k P)" by blast
  with acc distinct show ?thesis by (intro conjI)
qed

text \<open>A firmware that counts its calls and refuses the call of the given number with the error 9.\<close>

definition counting_firmware :: "nat \<Rightarrow> (nat, nat) segment_backend" where
  "counting_firmware bad = (let answer = (\<lambda>b. (Suc b, if b = bad then Inl 9 else Inr ())) in
     \<lparr>allocate_at = (\<lambda>b s c. answer b), free_pages = (\<lambda>b s c. answer b),
      zero_item = (\<lambda>b i. answer b), copy_item = (\<lambda>b i s. answer b), verify_item = (\<lambda>b i s. answer b)\<rparr>)"

lemma counting_run:
  fixes bad :: nat
  defines "run \<equiv> prepare_targets (logged_segments (counting_firmware bad)) (log_stage (\<lambda>s b. b))
      (plan_of 0x200010 [sample_spec]) [7, 9] (0, [])"
  shows "bad = 99 \<Longrightarrow> \<exists>owner. run = Ok \<lparr>vt_owner = Some owner\<rparr>"
    and "bad = 2 \<Longrightarrow> \<exists>owner. run = Err \<lparr>wf_kind = WkCopy, wf_error = 9, wf_owner = owner\<rparr>"
  unfolding run_def
  by (subst prepare_run, simp, simp add: owner_at_def allocate_target_def logged_segments_def log_allocate_def
      counting_firmware_def Let_def target_work_def log_work_def arr_get_def report_stage_def log_stage_def item_pages_def)+

theorem targets_accounted_witness:
  "(\<exists>owner. prepare_targets (logged_segments (counting_firmware 99)) (log_stage (\<lambda>s b. b))
        (plan_of 0x200010 [sample_spec]) [7, 9] (0, []) = Ok \<lparr>vt_owner = Some owner\<rparr>
      \<and> to_log owner = [PagesAllocated 0x200000 1, OtherCall (StageCall StAllocated),
          OtherCall (ZeroCall (item_of sample_spec) (Inr ())), OtherCall (StageCall StZeroed),
          OtherCall (CopyCall (item_of sample_spec) [7, 9] (Inr ())), OtherCall (StageCall StCopied),
          OtherCall (VerifyCall (item_of sample_spec) [7, 9] (Inr ())), OtherCall (StageCall StVerified)]
      \<and> accounts_for [(0x200000, 1)] owner)
   \<and> (\<exists>owner. prepare_targets (logged_segments (counting_firmware 2)) (log_stage (\<lambda>s b. b))
        (plan_of 0x200010 [sample_spec]) [7, 9] (0, []) = Err \<lparr>wf_kind = WkCopy, wf_error = 9, wf_owner = owner\<rparr>
      \<and> to_log owner = [PagesAllocated 0x200000 1, OtherCall (StageCall StAllocated),
          OtherCall (ZeroCall (item_of sample_spec) (Inr ())), OtherCall (StageCall StZeroed),
          OtherCall (CopyCall (item_of sample_spec) [7, 9] (Inl 9))])"
proof -
  have P: "map (item_pages \<circ> item_of) [sample_spec] = [(0x200000, 1)]"
    by (simp add: item_pages_def item_of_def Let_def sample_spec_def spec_end_def page_ceiling_def)
  note acc = targets_accounted [OF sample_plan, THEN conjunct1, unfolded P, of "[7, 9]" "counting_firmware bad" "\<lambda>s b. b" 0 for bad]
  obtain good where good: "prepare_targets (logged_segments (counting_firmware 99)) (log_stage (\<lambda>s b. b))
      (plan_of 0x200010 [sample_spec]) [7, 9] (0, []) = Ok \<lparr>vt_owner = Some good\<rparr>"
    using counting_run(1) [OF refl] by blast
  obtain failed where failed: "prepare_targets (logged_segments (counting_firmware 2)) (log_stage (\<lambda>s b. b))
      (plan_of 0x200010 [sample_spec]) [7, 9] (0, []) = Err \<lparr>wf_kind = WkCopy, wf_error = 9, wf_owner = failed\<rparr>"
    using counting_run(2) [OF refl] by blast
  show ?thesis
    using acc [of 99] acc [of 2] unfolding good failed accounted_def prepared_trace_def
    using P by (auto simp: Cons_eq_append_conv)
qed

text \<open>
  C39. The loaded kernel describes the plan exactly: the segment table lists the segments in order
  with their memory and page ranges, the load range is the exact span of the allocated pages, the
  page count is the sum over the segments, the entry index names an executable segment that
  contains the entry point, and none of the unchecked additions overflows.
\<close>
theorem loaded_kernel_describes_plan:
  assumes "LoadPlan_build entry segs alloc = Ok plan"
  shows "\<exists>loaded. LoadedKernel_from_verified plan owner = (Ok loaded :: (_, unit) result) \<and> lk_owner loaded = owner
    \<and> lk_entry_point loaded = entry \<and> lk_segment_count loaded = length segs
    \<and> take (length segs) (lk_segments loaded) = map metadata_of segs
    \<and> (\<exists>s \<in> set segs. fst (lk_load_range loaded) = ss_target s) \<and> (\<exists>s \<in> set segs. unat (snd (lk_load_range loaded)) = spec_end s)
    \<and> (\<forall>s \<in> set segs. fst (lk_load_range loaded) \<le> ss_target s \<and> spec_end s \<le> unat (snd (lk_load_range loaded)))
    \<and> unat (lk_total_pages loaded) = page_total segs
    \<and> lk_entry_segment_index loaded < length segs \<and> entry_item entry (item_of (segs ! lk_entry_segment_index loaded))"
proof -
  obtain source_end where placed: "specs_placed alloc source_end segs" and plan: "plan = plan_of entry segs"
      and segs: "segs \<noteq> []" "\<exists>seg \<in> set segs. entry_item entry (item_of seg)"
    using assms by (rule built_plan)
  obtain sums where sums: "(try_fold (summarize_item entry) no_summary (enumerate 0 (map item_of segs)) :: (load_summary, unit) result) = Ok sums"
      "summary_ok entry segs sums"
    using summarize_all [OF placed] by blast
  have "length segs \<le> 128" using placed by (simp add: specs_placed_def)
  then have "LoadedKernel_from_verified plan owner = (Ok \<lparr>lk_entry_point = entry,
      lk_load_range = (sum_load_start sums, sum_load_end sums), lk_segments = sum_segments sums,
      lk_segment_count = length segs, lk_total_pages = sum_total_pages sums,
      lk_entry_segment_index = sum_entry_index sums, lk_owner = owner\<rparr> :: (_, unit) result)"
    using sums(1) unfolding LoadedKernel_from_verified_def plan
    by (simp add: plan_of_live no_summary_def [symmetric] MAX_LOAD_ITEMS_def MAX_PROGRAM_HEADERS_def)
      (simp add: plan_of_def no_summary_def)
  then show ?thesis using sums(2) segs by (simp add: summary_ok_def)
qed

theorem loaded_kernel_describes_plan_witness:
  "\<exists>loaded. LoadedKernel_from_verified (plan_of 0x200010 [sample_spec]) (owner_at [(0x200000, 1)] (0 :: nat) 1) = (Ok loaded :: (_, unit) result)
     \<and> lk_entry_segment_index loaded = 0 \<and> unat (lk_total_pages loaded) = 1 \<and> lk_load_range loaded = (0x200000, 0x201000)"
proof -
  have end_: "spec_end sample_spec = 0x201000" "ss_target sample_spec = 0x200000"
    by (simp_all add: spec_end_def sample_spec_def page_ceiling_def)
  have "unat e = 0x201000 \<longleftrightarrow> e = 0x201000" for e :: u64 by (simp add: word_eq_nat)
  then show ?thesis
    using loaded_kernel_describes_plan [OF sample_plan, of "owner_at [(0x200000, 1)] (0 :: nat) 1"]
    by (auto simp: page_total_def end_ prod_eq_iff)
qed
end
