(* ===== verification/Memory_Map.thy ===== *)
theory Memory_Map
  imports Boot_Protocol
begin

text \<open>
  The memory map handed to the kernel (\<^verbatim>\<open>crates/bootloader/src/boot_info.rs\<close>): mapping of UEFI
  memory types, normalisation (validation, sorting, merging), and the reservation list with its
  overlay on the map. An output slice is returned only by a successful call: after an error its contents
  are not used. The size of the UEFI descriptor type is a parameter, as that type is not part of
  this program.
\<close>

section \<open>Memory types\<close>

definition RAW_MEMORY_MAP_MAX_BYTES :: nat where [const_defs]: "RAW_MEMORY_MAP_MAX_BYTES = 256 * 1024"
definition RAW_MEMORY_MAP_RETRY_LIMIT :: nat where [const_defs]: "RAW_MEMORY_MAP_RETRY_LIMIT = 3"
definition CONVERTED_DESCRIPTOR_CAPACITY :: nat where [const_defs]: "CONVERTED_DESCRIPTOR_CAPACITY = 2048"
definition RESERVATION_CAPACITY :: nat where [const_defs]: "RESERVATION_CAPACITY = 64"

definition UEFI_RESERVED :: u32 where [const_defs]: "UEFI_RESERVED = 0"
definition UEFI_LOADER_CODE :: u32 where [const_defs]: "UEFI_LOADER_CODE = 1"
definition UEFI_LOADER_DATA :: u32 where [const_defs]: "UEFI_LOADER_DATA = 2"
definition UEFI_BOOT_SERVICES_CODE :: u32 where [const_defs]: "UEFI_BOOT_SERVICES_CODE = 3"
definition UEFI_BOOT_SERVICES_DATA :: u32 where [const_defs]: "UEFI_BOOT_SERVICES_DATA = 4"
definition UEFI_RUNTIME_SERVICES_CODE :: u32 where [const_defs]: "UEFI_RUNTIME_SERVICES_CODE = 5"
definition UEFI_RUNTIME_SERVICES_DATA :: u32 where [const_defs]: "UEFI_RUNTIME_SERVICES_DATA = 6"
definition UEFI_CONVENTIONAL :: u32 where [const_defs]: "UEFI_CONVENTIONAL = 7"
definition UEFI_UNUSABLE :: u32 where [const_defs]: "UEFI_UNUSABLE = 8"
definition UEFI_ACPI_RECLAIM :: u32 where [const_defs]: "UEFI_ACPI_RECLAIM = 9"
definition UEFI_ACPI_NVS :: u32 where [const_defs]: "UEFI_ACPI_NVS = 10"
definition UEFI_MMIO :: u32 where [const_defs]: "UEFI_MMIO = 11"
definition UEFI_MMIO_PORT_SPACE :: u32 where [const_defs]: "UEFI_MMIO_PORT_SPACE = 12"
definition UEFI_PAL_CODE :: u32 where [const_defs]: "UEFI_PAL_CODE = 13"
definition UEFI_PERSISTENT_MEMORY :: u32 where [const_defs]: "UEFI_PERSISTENT_MEMORY = 14"
definition UEFI_UNACCEPTED :: u32 where [const_defs]: "UEFI_UNACCEPTED = 15"

definition map_uefi_memory_kind :: "u32 \<Rightarrow> u32" where
  "map_uefi_memory_kind memory_type =
     (if memory_type = UEFI_CONVENTIONAL then MEMORY_KIND_USABLE
      else if memory_type = UEFI_LOADER_CODE \<or> memory_type = UEFI_LOADER_DATA then MEMORY_KIND_LOADER
      else if memory_type = UEFI_RUNTIME_SERVICES_CODE \<or> memory_type = UEFI_RUNTIME_SERVICES_DATA
      then MEMORY_KIND_RUNTIME
      else if memory_type = UEFI_ACPI_RECLAIM then MEMORY_KIND_ACPI_RECLAIM
      else if memory_type = UEFI_UNUSABLE \<or> memory_type = UEFI_UNACCEPTED then MEMORY_KIND_UNUSABLE
      else if memory_type = UEFI_PERSISTENT_MEMORY then MEMORY_KIND_PERSISTENT
      else if memory_type \<in> {UEFI_RESERVED, UEFI_BOOT_SERVICES_CODE, UEFI_BOOT_SERVICES_DATA, UEFI_ACPI_NVS,
        UEFI_MMIO, UEFI_MMIO_PORT_SPACE, UEFI_PAL_CODE} then MEMORY_KIND_RESERVED
      else MEMORY_KIND_RESERVED)"

definition map_uefi_memory_kind_post_exit :: "u32 \<Rightarrow> u32" where
  "map_uefi_memory_kind_post_exit memory_type =
     (if memory_type = UEFI_BOOT_SERVICES_CODE \<or> memory_type = UEFI_BOOT_SERVICES_DATA then MEMORY_KIND_USABLE
      else map_uefi_memory_kind memory_type)"

record raw_memory_descriptor =
  rm_memory_type :: u32
  rm_physical_start :: u64
  rm_page_count :: u64
  rm_attributes :: u64

datatype map_build_error =
    InvalidRawStride | RawCapacityExceeded | ZeroPages | MapRangeOverflow | MapUnaligned
  | DescriptorOverlap | ReservationCapacity | ReservationOverlap | ReservationOutsideMap | OutputCapacity

definition validate_raw_map_capacity :: "nat \<Rightarrow> nat \<Rightarrow> nat \<Rightarrow> (nat, map_build_error) result" where
  "validate_raw_map_capacity descriptor_size required stride =
     (if stride < descriptor_size then Err InvalidRawStride
      else
        and_then (ok_or (usize_mul stride 8) MapRangeOverflow) (\<lambda>slack.
        and_then (ok_or (usize_add required slack) MapRangeOverflow) (\<lambda>rounded.
        if rounded > RAW_MEMORY_MAP_MAX_BYTES then Err RawCapacityExceeded
        else Ok rounded)))"

definition retry_is_allowed :: "nat \<Rightarrow> bool" where
  "retry_is_allowed attempt \<longleftrightarrow> attempt < RAW_MEMORY_MAP_RETRY_LIMIT"

section \<open>Ranges\<close>

definition range_end :: "u64 \<Rightarrow> u64 \<Rightarrow> (u64, map_build_error) result" where
  "range_end start pages =
     and_then (ok_or (checked_mul pages MEMORY_PAGE_SIZE) MapRangeOverflow) (\<lambda>bytes.
     ok_or (checked_add start bytes) MapRangeOverflow)"

definition validate_range :: "u64 \<Rightarrow> u64 \<Rightarrow> (unit, map_build_error) result" where
  "validate_range start pages =
     (if pages = 0 then Err ZeroPages
      else if \<not> is_multiple_of start MEMORY_PAGE_SIZE then Err MapUnaligned
      else and_then (range_end start pages) (\<lambda>_. Ok ()))"

definition empty_descriptor :: memory_descriptor where
  "empty_descriptor =
     \<lparr>md_kind = 0, md_reserved0 = 0, md_physical_start = 0, md_page_count = 0, md_attributes = 0\<rparr>"

section \<open>Normalisation\<close>

text \<open>\<^verbatim>\<open>windows(2)\<close>.\<close>

definition windows2 :: "'a list \<Rightarrow> ('a \<times> 'a) list" where
  "windows2 xs = zip xs (tl xs)"

definition validate_non_overlapping :: "memory_descriptor list \<Rightarrow> (unit, map_build_error) result" where
  "validate_non_overlapping descriptors =
     try_fold (\<lambda>_ (a, b).
       and_then (range_end (md_physical_start a) (md_page_count a)) (\<lambda>left_end.
       if left_end > md_physical_start b then Err DescriptorOverlap else Ok ())) () (windows2 descriptors)"

definition insertion_sort :: "memory_descriptor list \<Rightarrow> (memory_descriptor list, map_build_error) result" where
  "insertion_sort descriptors = insertion_sort_loop md_physical_start (length descriptors) descriptors"

definition merge_step ::
    "memory_descriptor list \<times> nat \<Rightarrow> nat \<Rightarrow> (memory_descriptor list \<times> nat, map_build_error) result" where
  "merge_step = (\<lambda>(descriptors, write) read.
     and_then (arr_get descriptors (write - 1)) (\<lambda>previous.
     and_then (arr_get descriptors read) (\<lambda>current.
     and_then (range_end (md_physical_start previous) (md_page_count previous)) (\<lambda>previous_end.
     if previous_end = md_physical_start current \<and> md_kind previous = md_kind current
        \<and> md_attributes previous = md_attributes current
     then
       and_then (ok_or (checked_add (md_page_count previous) (md_page_count current)) MapRangeOverflow) (\<lambda>pages.
       and_then (arr_set descriptors (write - 1) (previous\<lparr>md_page_count := pages\<rparr>)) (\<lambda>descriptors.
       Ok (descriptors, write)))
     else
       and_then (arr_set descriptors write current) (\<lambda>descriptors. Ok (descriptors, write + 1))))))"

definition merge_base_descriptors ::
    "memory_descriptor list \<Rightarrow> nat \<Rightarrow> (memory_descriptor list \<times> nat, map_build_error) result" where
  "merge_base_descriptors descriptors len =
     (if len = 0 then Ok (descriptors, 0) else try_fold merge_step (descriptors, 1) [1 ..< len])"

definition normalize_mapped_memory_map ::
    "memory_descriptor list \<Rightarrow> nat \<Rightarrow> (memory_descriptor list \<times> nat, map_build_error) result" where
  "normalize_mapped_memory_map output len =
     (if len > length output then Err OutputCapacity
      else
        and_then (slice output 0 len) (\<lambda>live.
        and_then (try_fold (\<lambda>_ d. validate_range (md_physical_start d) (md_page_count d)) () live) (\<lambda>_.
        and_then (insertion_sort live) (\<lambda>live.
        and_then (validate_non_overlapping live) (\<lambda>_.
        and_then (merge_base_descriptors (live @ drop len output) len) (\<lambda>(output, len).
        and_then (slice output len (length output)) (\<lambda>tail.
        Ok (take len output @ replicate (length tail) empty_descriptor, len))))))))"

definition map_descriptor :: "raw_memory_descriptor \<Rightarrow> memory_descriptor" where
  "map_descriptor r =
     \<lparr>md_kind = map_uefi_memory_kind (rm_memory_type r), md_reserved0 = 0,
      md_physical_start = rm_physical_start r, md_page_count = rm_page_count r,
      md_attributes = rm_attributes r\<rparr>"

definition normalize_memory_map ::
    "raw_memory_descriptor list \<Rightarrow> memory_descriptor list
     \<Rightarrow> (memory_descriptor list \<times> nat, map_build_error) result" where
  "normalize_memory_map raw output =
     (if length raw > length output then Err OutputCapacity
      else
        and_then (try_fold (\<lambda>output (index, r).
            and_then (validate_range (rm_physical_start r) (rm_page_count r)) (\<lambda>_.
            arr_set output index (map_descriptor r))) output (enumerate 0 raw)) (\<lambda>output.
        normalize_mapped_memory_map output (length raw)))"

section \<open>Reservations\<close>

datatype reservation_source =
    KernelImage | BootInfoData | RawMemoryMap | ConversionScratch | ConvertedMemoryMap | Framebuffer
  | BootstrapStackRegion | PageTableRegion

record reservation =
  rv_physical_start :: u64
  rv_page_count :: u64
  rv_kind :: u32
  rv_source :: reservation_source

definition Reservation_EMPTY :: reservation where
  "Reservation_EMPTY =
     \<lparr>rv_physical_start = 0, rv_page_count = 0, rv_kind = MEMORY_KIND_RESERVED, rv_source = KernelImage\<rparr>"

record reservation_list =
  rl_items :: "reservation list"
  rl_len :: nat

definition ReservationList_new :: reservation_list where
  "ReservationList_new = \<lparr>rl_items = replicate RESERVATION_CAPACITY Reservation_EMPTY, rl_len = 0\<rparr>"

definition rl_push :: "reservation_list \<Rightarrow> reservation \<Rightarrow> (reservation_list, map_build_error) result" where
  "rl_push list r =
     and_then (validate_range (rv_physical_start r) (rv_page_count r)) (\<lambda>_.
     if rl_len list = RESERVATION_CAPACITY then Err ReservationCapacity
     else
       and_then (arr_set (rl_items list) (rl_len list) r) (\<lambda>items.
       Ok (list\<lparr>rl_items := items, rl_len := rl_len list + 1\<rparr>)))"

text \<open>\<^verbatim>\<open>finish\<close> sorts in place; the list is returned on both outcomes.\<close>

definition rl_finish ::
    "reservation_list \<Rightarrow> (reservation_list, reservation_list \<times> map_build_error) result" where
  "rl_finish list =
     and_then (insertion_sort_loop rv_physical_start (rl_len list) (rl_items list)) (\<lambda>items.
     let list = list\<lparr>rl_items := items\<rparr> in
     and_then (slice items 0 (rl_len list)) (\<lambda>live.
     map_err (Pair list)
       (and_then (try_fold (\<lambda>_ (a, b).
          and_then (range_end (rv_physical_start a) (rv_page_count a)) (\<lambda>left_end.
          if left_end > rv_physical_start b then Err ReservationOverlap else Ok ())) () (windows2 live)) (\<lambda>_.
        Ok list))))"

definition rl_live :: "reservation_list \<Rightarrow> (reservation list, 'x) result" where
  "rl_live list = slice (rl_items list) 0 (rl_len list)"

section \<open>Overlaying the reservations\<close>

definition append_descriptor ::
    "memory_descriptor list \<times> nat \<Rightarrow> memory_descriptor \<Rightarrow> bool
     \<Rightarrow> (memory_descriptor list \<times> nat, map_build_error) result" where
  "append_descriptor = (\<lambda>(output, len) descriptor allow_merge.
     (let push =
        (if len = length output then Err OutputCapacity
         else and_then (arr_set output len descriptor) (\<lambda>output. Ok (output, len + 1)))
      in if md_page_count descriptor = 0 then Ok (output, len)
         else if allow_merge \<and> len \<noteq> 0 then
           and_then (arr_get output (len - 1)) (\<lambda>previous.
           and_then (range_end (md_physical_start previous) (md_page_count previous)) (\<lambda>previous_end.
           if previous_end = md_physical_start descriptor \<and> md_kind previous = md_kind descriptor
              \<and> md_attributes previous = md_attributes descriptor
           then
             and_then (ok_or (checked_add (md_page_count previous) (md_page_count descriptor)) MapRangeOverflow)
               (\<lambda>pages.
             and_then (arr_set output (len - 1) (previous\<lparr>md_page_count := pages\<rparr>)) (\<lambda>output. Ok (output, len)))
           else push))
         else push))"

text \<open>The mutable locals of \<^verbatim>\<open>apply_reservations\<close>.\<close>

record overlay_state =
  ov_output :: "memory_descriptor list \<times> nat"
  ov_covered :: "u64 list"
  ov_cursor :: u64

text \<open>The inner loop: one reservation against one descriptor.\<close>

definition overlay_reservation ::
    "memory_descriptor \<Rightarrow> u64 \<Rightarrow> overlay_state \<Rightarrow> nat \<times> reservation \<Rightarrow> (overlay_state, map_build_error) result" where
  "overlay_reservation descriptor descriptor_end st = (\<lambda>(index, r).
     and_then (range_end (rv_physical_start r) (rv_page_count r)) (\<lambda>reservation_end.
     let overlap_start = max (ov_cursor st) (rv_physical_start r);
         overlap_end = min descriptor_end reservation_end
     in if overlap_start \<ge> overlap_end then Ok st
        else
          and_then
            (if ov_cursor st < overlap_start
             then append_descriptor (ov_output st)
                 \<lparr>md_kind = md_kind descriptor, md_reserved0 = 0, md_physical_start = ov_cursor st,
                  md_page_count = (overlap_start - ov_cursor st) div MEMORY_PAGE_SIZE,
                  md_attributes = md_attributes descriptor\<rparr> True
             else Ok (ov_output st)) (\<lambda>output.
          let pages = (overlap_end - overlap_start) div MEMORY_PAGE_SIZE in
          and_then (append_descriptor output
              \<lparr>md_kind = rv_kind r, md_reserved0 = 0, md_physical_start = overlap_start,
               md_page_count = pages, md_attributes = 0\<rparr> False) (\<lambda>output.
          and_then (arr_get (ov_covered st) index) (\<lambda>before.
          and_then (ok_or (checked_add before pages) MapRangeOverflow) (\<lambda>after.
          and_then (arr_set (ov_covered st) index after) (\<lambda>covered.
          Ok \<lparr>ov_output = output, ov_covered = covered, ov_cursor = overlap_end\<rparr>)))))))"

text \<open>The outer loop: one descriptor of the base map.\<close>

definition overlay_descriptor ::
    "reservation_list \<Rightarrow> (memory_descriptor list \<times> nat) \<times> u64 list \<Rightarrow> memory_descriptor
     \<Rightarrow> ((memory_descriptor list \<times> nat) \<times> u64 list, map_build_error) result" where
  "overlay_descriptor reservations = (\<lambda>(output, covered) descriptor.
     and_then (map_err (\<lambda>_. MapRangeOverflow) (md_validate descriptor)) (\<lambda>_.
     and_then (range_end (md_physical_start descriptor) (md_page_count descriptor)) (\<lambda>descriptor_end.
     and_then (rl_live reservations) (\<lambda>items.
     and_then (try_fold (overlay_reservation descriptor descriptor_end)
         \<lparr>ov_output = output, ov_covered = covered, ov_cursor = md_physical_start descriptor\<rparr>
         (enumerate 0 items)) (\<lambda>st.
     and_then
       (if ov_cursor st < descriptor_end
        then append_descriptor (ov_output st)
            \<lparr>md_kind = md_kind descriptor, md_reserved0 = 0, md_physical_start = ov_cursor st,
             md_page_count = (descriptor_end - ov_cursor st) div MEMORY_PAGE_SIZE,
             md_attributes = md_attributes descriptor\<rparr> True
        else Ok (ov_output st)) (\<lambda>output.
     Ok (output, ov_covered st)))))))"

definition check_covered ::
    "u64 list \<Rightarrow> nat \<times> reservation \<Rightarrow> (unit, map_build_error) result" where
  "check_covered covered = (\<lambda>(index, r).
     if rv_source r = Framebuffer then Ok ()
     else
       and_then (arr_get covered index) (\<lambda>pages.
       if pages \<noteq> rv_page_count r then Err ReservationOutsideMap else Ok ()))"

definition apply_reservations ::
    "memory_descriptor list \<Rightarrow> reservation_list \<Rightarrow> memory_descriptor list
     \<Rightarrow> (memory_descriptor list \<times> nat, map_build_error) result" where
  "apply_reservations base reservations output =
     and_then (validate_non_overlapping base) (\<lambda>_.
     and_then (try_fold (overlay_descriptor reservations) ((output, 0), replicate RESERVATION_CAPACITY 0) base)
       (\<lambda>((output, len), covered).
     and_then (rl_live reservations) (\<lambda>items.
     and_then (try_fold (\<lambda>_. check_covered covered) () (enumerate 0 items)) (\<lambda>_.
     and_then (slice output len (length output)) (\<lambda>tail.
     let output = take len output @ replicate (length tail) empty_descriptor in
     and_then (slice output 0 len) (\<lambda>live.
     and_then (validate_non_overlapping live) (\<lambda>_.
     Ok (output, len))))))))"

end
