(* ===== verification/Memory_Map_Facts.thy ===== *)
theory Memory_Map_Facts
  imports Memory_Map
begin

text \<open>
  Facts about the memory map: ranges as intervals of natural numbers, the merging push that
  normalisation and overlay share, and the properties of \<^verbatim>\<open>normalize_mapped_memory_map\<close>.
\<close>

section \<open>Ranges\<close>

definition extent_end :: "u64 \<Rightarrow> u64 \<Rightarrow> nat" where
  "extent_end start pages = unat start + unat pages * 4096"

definition extent_ok :: "u64 \<Rightarrow> u64 \<Rightarrow> bool" where
  "extent_ok start pages \<longleftrightarrow>
     0 < unat pages \<and> unat start mod 4096 = 0 \<and> extent_end start pages < 2 ^ 64"

lemma range_end_Ok: "range_end s p = Ok e \<longleftrightarrow> unat e = extent_end s p"
proof -
  have "(\<exists>b :: u64. unat b = unat p * 4096 \<and> unat e = unat s + unat b) \<longleftrightarrow> unat e = unat s + unat p * 4096"
    using ex_unat [where 'a = 64, of "unat p * 4096"] unat_bound [of e] by auto
  then show ?thesis by (simp add: range_end_def extent_end_def MEMORY_PAGE_SIZE_def)
qed

lemma range_end_in_range:
  assumes "extent_end s p < 2 ^ 64"
  obtains e where "range_end s p = Ok e" "unat e = extent_end s p"
  using assms ex_unat [where 'a = 64, of "extent_end s p"] that by (auto simp: range_end_Ok)

lemma range_end_no_panic [simp]: "range_end s p \<noteq> Panic"
  by (simp add: range_end_def)

lemma validate_range_Ok: "validate_range s p = Ok u \<longleftrightarrow> extent_ok s p"
proof -
  have "(\<exists>e. range_end s p = Ok e) \<longleftrightarrow> extent_end s p < 2 ^ 64"
    using ex_unat [where 'a = 64, of "extent_end s p"] by (simp add: range_end_Ok)
  then show ?thesis
    by (auto simp: validate_range_def guard_outcome extent_ok_def word_nat MEMORY_PAGE_SIZE_def unat_gt_0)
qed

lemma validate_range_no_panic [simp]: "validate_range s p \<noteq> Panic"
  by (simp add: validate_range_def)

abbreviation d_start :: "memory_descriptor \<Rightarrow> nat" where
  "d_start d \<equiv> unat (md_physical_start d)"

abbreviation d_end :: "memory_descriptor \<Rightarrow> nat" where
  "d_end d \<equiv> extent_end (md_physical_start d) (md_page_count d)"

abbreviation d_ok :: "memory_descriptor \<Rightarrow> bool" where
  "d_ok d \<equiv> extent_ok (md_physical_start d) (md_page_count d)"

text \<open>A map is ordered when its ranges are valid and each ends before the next begins.\<close>

definition ordered_map :: "memory_descriptor list \<Rightarrow> bool" where
  "ordered_map ds \<longleftrightarrow> list_all d_ok ds \<and> sorted_wrt (\<lambda>d e. d_end d \<le> d_start e) ds"

text \<open>What the map says about a physical address: the kind and the attributes.\<close>

definition describes :: "memory_descriptor list \<Rightarrow> nat \<Rightarrow> u32 \<times> u64 \<Rightarrow> bool" where
  "describes ds n ka \<longleftrightarrow> (\<exists>d \<in> set ds. d_start d \<le> n \<and> n < d_end d \<and> ka = (md_kind d, md_attributes d))"

lemma d_ok_less: "d_ok d \<Longrightarrow> d_start d < d_end d"
  by (simp add: extent_ok_def extent_end_def)

section \<open>The order check\<close>

lemma windows2_Cons [simp]: "windows2 (x # y # zs) = (x, y) # windows2 (y # zs)" "windows2 [x] = []" "windows2 [] = []"
  by (simp_all add: windows2_def)

lemma windows2_adjacent: "(\<forall>(x, y) \<in> set (windows2 xs). P x y) \<longleftrightarrow> adjacent P xs"
  by (induction P xs rule: adjacent.induct) auto

lemma validate_non_overlapping_adjacent:
  assumes "list_all (\<lambda>d. d_end d < 2 ^ 64) ds"
  shows "validate_non_overlapping ds = Ok u \<longleftrightarrow> adjacent (\<lambda>d e. d_end d \<le> d_start e) ds"
  using assms
proof (induction "\<lambda>d e :: memory_descriptor. d_end d \<le> d_start e" ds rule: adjacent.induct)
  case (3 x y zs)
  obtain e where e: "range_end (md_physical_start x) (md_page_count x) = Ok e" "unat e = d_end x"
    using 3 range_end_in_range by auto
  have "validate_non_overlapping (x # y # zs) =
     (if e > md_physical_start y then Err DescriptorOverlap else validate_non_overlapping (y # zs))"
    by (simp add: validate_non_overlapping_def e(1))
  then show ?case using 3 by (auto simp: e(2) word_nat)
qed (simp_all add: validate_non_overlapping_def)

lemma adjacent_ordered:
  assumes "list_all d_ok ds"
  shows "adjacent (\<lambda>d e. d_end d \<le> d_start e) ds \<longleftrightarrow> sorted_wrt (\<lambda>d e. d_end d \<le> d_start e) ds"
proof
  assume "adjacent (\<lambda>d e. d_end d \<le> d_start e) ds"
  then show "sorted_wrt (\<lambda>d e. d_end d \<le> d_start e) ds"
  proof (rule adjacent_sorted_wrt)
    fix x y z :: memory_descriptor
    assume "y \<in> set ds" "d_end x \<le> d_start y" "d_end y \<le> d_start z"
    then show "d_end x \<le> d_start z" using assms d_ok_less [of y] by (auto simp: list_all_iff)
  qed
qed (rule sorted_wrt_adjacent)

lemma validate_non_overlapping_Ok:
  assumes "list_all d_ok ds"
  shows "validate_non_overlapping ds = Ok u \<longleftrightarrow> ordered_map ds"
proof -
  have "list_all (\<lambda>d. d_end d < 2 ^ 64) ds" using assms by (auto simp: list_all_iff extent_ok_def)
  then show ?thesis
    using validate_non_overlapping_adjacent adjacent_ordered [OF assms] assms by (simp add: ordered_map_def)
qed

lemma validate_non_overlapping_no_panic [simp]: "validate_non_overlapping ds \<noteq> Panic"
  unfolding validate_non_overlapping_def
  by (rule try_fold_not_Panic) (auto split: prod.splits)

section \<open>The merging push\<close>

definition joins :: "memory_descriptor \<Rightarrow> memory_descriptor \<Rightarrow> bool" where
  "joins p d \<longleftrightarrow> d_end p = d_start d \<and> md_kind p = md_kind d \<and> md_attributes p = md_attributes d"

definition grow :: "memory_descriptor \<Rightarrow> memory_descriptor \<Rightarrow> memory_descriptor" where
  "grow p d = p\<lparr>md_page_count := md_page_count p + md_page_count d\<rparr>"

definition push_map :: "bool \<Rightarrow> memory_descriptor list \<Rightarrow> memory_descriptor \<Rightarrow> memory_descriptor list" where
  "push_map merge M d =
     (if merge \<and> M \<noteq> [] \<and> joins (last M) d then butlast M @ [grow (last M) d] else M @ [d])"

lemma grow_pages:
  assumes "d_ok p" "d_ok d" "joins p d"
  shows "checked_add (md_page_count p) (md_page_count d) = Some (md_page_count p + md_page_count d)"
    and "d_end (grow p d) = d_end d" "d_ok (grow p d)"
proof -
  have "unat (md_page_count p) + unat (md_page_count d) < 2 ^ 64"
    using assms by (simp add: extent_ok_def extent_end_def joins_def)
  note add = checked_add_in_range [OF this]
  then show "checked_add (md_page_count p) (md_page_count d) = Some (md_page_count p + md_page_count d)" by blast
  show e: "d_end (grow p d) = d_end d"
    using assms(3) add by (simp add: grow_def extent_end_def joins_def)
  show "d_ok (grow p d)"
    using e assms add by (simp add: extent_ok_def grow_def)
qed

lemma push_map_ordered:
  assumes "ordered_map M" "d_ok d" "\<forall>m \<in> set M. d_end m \<le> d_start d"
  shows "ordered_map (push_map merge M d)" "\<forall>m \<in> set (push_map merge M d). d_end m \<le> d_end d"
proof -
  have "ordered_map (push_map merge M d) \<and> (\<forall>m \<in> set (push_map merge M d). d_end m \<le> d_end d)"
  proof (cases "merge \<and> M \<noteq> [] \<and> joins (last M) d")
    case True
    then obtain N p where M: "M = N @ [p]" by (metis append_butlast_last_id)
    have p: "d_ok p" "joins p d" using assms True M by (auto simp: ordered_map_def)
    have "\<forall>m \<in> set N. d_end m \<le> d_start p" using assms M by (auto simp: ordered_map_def sorted_wrt_append)
    moreover have "md_physical_start (grow p d) = md_physical_start p" by (simp add: grow_def)
    ultimately show ?thesis
      using True M assms grow_pages [OF p(1) assms(2) p(2)] d_ok_less [of d]
      by (fastforce simp: push_map_def ordered_map_def sorted_wrt_append)
  next
    case False
    then have "push_map merge M d = M @ [d]" unfolding push_map_def by (simp only: if_False)
    then show ?thesis using assms d_ok_less [of d]
      by (fastforce simp: ordered_map_def sorted_wrt_append)
  qed
  then show "ordered_map (push_map merge M d)" "\<forall>m \<in> set (push_map merge M d). d_end m \<le> d_end d" by blast+
qed

lemma push_map_describes:
  assumes "ordered_map M" "d_ok d"
  shows "describes (push_map merge M d) n ka \<longleftrightarrow> describes M n ka \<or> describes [d] n ka"
proof (cases "merge \<and> M \<noteq> [] \<and> joins (last M) d")
  case True
  then obtain N p where M: "M = N @ [p]" by (metis append_butlast_last_id)
  have p: "d_ok p" "joins p d" using assms True M by (auto simp: ordered_map_def)
  have g: "d_start (grow p d) = d_start p" "md_kind (grow p d) = md_kind d" "md_attributes (grow p d) = md_attributes d"
    "md_kind p = md_kind d" "md_attributes p = md_attributes d" "d_end p = d_start d"
    using p(2) by (auto simp: grow_def joins_def)
  have "(d_start p \<le> n \<and> n < d_end d) \<longleftrightarrow> (d_start p \<le> n \<and> n < d_end p) \<or> (d_start d \<le> n \<and> n < d_end d)"
    using g(6) d_ok_less [OF p(1)] d_ok_less [OF assms(2)] by auto
  moreover have "push_map merge M d = N @ [grow p d]" using True M by (simp add: push_map_def)
  ultimately show ?thesis
    unfolding M describes_def using grow_pages(2) [OF p(1) assms(2) p(2)] g by auto
next
  case False
  then have "push_map merge M d = M @ [d]" unfolding push_map_def by (simp only: if_False)
  then show ?thesis by (auto simp: describes_def)
qed

lemma length_push_map:
  "length (push_map merge M d) \<le> Suc (length M)" "push_map merge M d \<noteq> []"
  by (auto simp: push_map_def)

section \<open>Normalisation\<close>

lemma describes_append: "describes (xs @ ys) n ka \<longleftrightarrow> describes xs n ka \<or> describes ys n ka"
  by (auto simp: describes_def)

lemma ordered_take: "ordered_map ds \<Longrightarrow> ordered_map (take n ds)"
  by (auto simp: ordered_map_def sorted_wrt_take list_all_iff dest: in_set_takeD)

text \<open>One step of the merge loop pushes the next descriptor onto the merged prefix.\<close>

lemma merge_step_push:
  assumes "0 < w" "w \<le> r" "r < length ds" "list_all d_ok (take w ds)" "d_ok (ds ! r)"
  shows "\<exists>ds'. merge_step (ds, w) r = Ok (ds', length (push_map True (take w ds) (ds ! r)))
    \<and> take (length (push_map True (take w ds) (ds ! r))) ds' = push_map True (take w ds) (ds ! r)
    \<and> drop (Suc r) ds' = drop (Suc r) ds \<and> length ds' = length ds"
proof -
  obtain v where w: "w = Suc v" "v < length ds" "w < length ds" using assms by (cases w) auto
  have t: "take w ds = take v ds @ [ds ! v]" using w by (simp add: take_Suc_conv_app_nth)
  have p: "d_ok (ds ! v)" using assms(4) t by simp
  obtain e where e: "range_end (md_physical_start (ds ! v)) (md_page_count (ds ! v)) = Ok e" "unat e = d_end (ds ! v)"
    using p range_end_in_range unfolding extent_ok_def by blast
  have j: "(e = md_physical_start (ds ! r) \<and> md_kind (ds ! v) = md_kind (ds ! r)
      \<and> md_attributes (ds ! v) = md_attributes (ds ! r)) \<longleftrightarrow> joins (ds ! v) (ds ! r)"
    by (simp add: joins_def word_eq_nat e(2))
  show ?thesis
  proof (cases "joins (ds ! v) (ds ! r)")
    case True
    let ?g = "grow (ds ! v) (ds ! r)"
    have M: "push_map True (take w ds) (ds ! r) = take v ds @ [?g]" using True t by (simp add: push_map_def)
    have "merge_step (ds, w) r = Ok (ds[v := ?g], w)"
      using w assms by (simp add: merge_step_def e(1) j True grow_def grow_pages(1) [OF p assms(5) True]
        del: checked_add_Some and_then_Ok)
    then show ?thesis using M w assms by (auto simp: min_def)
  next
    case False
    have M: "push_map True (take w ds) (ds ! r) = take w ds @ [ds ! r]" using False t by (simp add: push_map_def)
    have "merge_step (ds, w) r = Ok (ds[w := ds ! r], w + 1)"
      using w assms by (simp add: merge_step_def e(1) j False del: and_then_Ok)
    then show ?thesis using M w assms by (auto simp: min_def)
  qed
qed

text \<open>The merged map: ordered, fully merged and equivalent to the first \<open>i\<close> descriptors.\<close>

definition merged_to :: "memory_descriptor list \<Rightarrow> nat \<Rightarrow> memory_descriptor list \<Rightarrow> nat \<Rightarrow> bool" where
  "merged_to ds i ds' w \<longleftrightarrow> 0 < w \<and> w \<le> i \<and> length ds' = length ds \<and> drop i ds' = drop i ds
     \<and> ordered_map (take w ds') \<and> (\<forall>n ka. describes (take w ds') n ka \<longleftrightarrow> describes (take i ds) n ka)
     \<and> (\<forall>m \<in> set (take w ds'). d_end m \<le> d_end (ds ! (i - 1)))
     \<and> adjacent (\<lambda>d e. \<not> joins d e) (take w ds')"

lemma adjacent_snoc: "adjacent P (xs @ [x, y]) \<longleftrightarrow> adjacent P (xs @ [x]) \<and> P x y"
  by (induction P xs rule: adjacent.induct) auto

lemma joins_grow: "joins q (grow p d) \<longleftrightarrow> joins q p"
  by (simp add: joins_def grow_def)

lemma push_map_unjoined:
  assumes "adjacent (\<lambda>d e. \<not> joins d e) M"
  shows "adjacent (\<lambda>d e. \<not> joins d e) (push_map True M d)"
proof (cases M rule: rev_cases)
  case (snoc N p)
  show ?thesis
  proof (cases N rule: rev_cases)
    case (snoc K q)
    then have M: "M = K @ [q, p]" using \<open>M = N @ [p]\<close> by simp
    then have "butlast M = K @ [q]" "last M = p" by (simp_all add: butlast_append)
    moreover have "M @ [d] = (K @ [q]) @ [p, d]" using M by simp
    moreover have "adjacent (\<lambda>d e. \<not> joins d e) ((K @ [q]) @ [p])" using assms M by simp
    ultimately show ?thesis using assms M adjacent_snoc [of _ "K @ [q]" p d]
      by (simp add: push_map_def adjacent_snoc joins_grow)
  qed (use assms snoc in \<open>auto simp: push_map_def\<close>)
qed (simp add: push_map_def)

lemma merge_loop:
  assumes "ordered_map (take n ds)" "n \<le> length ds" "0 < i" "i \<le> n"
  shows "\<exists>ds' w. try_fold merge_step (ds, 1) [1 ..< i] = Ok (ds', w) \<and> merged_to ds i ds' w"
  using assms(3,4)
proof (induction i)
  case (Suc i)
  have ok: "d_ok (ds ! k)" if "k < n" for k
    using assms(1,2) that by (auto simp: ordered_map_def list_all_length)
  show ?case
  proof (cases "i = 0")
    case True
    have "take 1 ds = [ds ! 0]" using Suc.prems assms(2) by (cases ds) auto
    then show ?thesis using True Suc.prems ok [of 0] by (simp add: merged_to_def ordered_map_def)
  next
    case False
    then obtain ds' w where IH: "try_fold merge_step (ds, 1) [1 ..< i] = Ok (ds', w)" "merged_to ds i ds' w"
      using Suc by auto
    note I = IH(2) [unfolded merged_to_def]
    have cur: "ds' ! i = ds ! i"
      using I Suc.prems assms(2) by (metis Cons_nth_drop_Suc Suc_le_lessD le_trans list.inject)
    have before: "d_end (ds ! (i - 1)) \<le> d_start (ds ! i)"
      using assms(1,2) False Suc.prems sorted_wrt_nth_less [of _ "take n ds" "i - 1" i]
      by (auto simp: ordered_map_def)
    let ?M = "push_map True (take w ds') (ds ! i)"
    have "list_all d_ok (take w ds')" using I by (simp add: ordered_map_def)
    then obtain ds'' where s: "merge_step (ds', w) i = Ok (ds'', length ?M)" "take (length ?M) ds'' = ?M"
      "drop (Suc i) ds'' = drop (Suc i) ds'" "length ds'' = length ds'"
      using merge_step_push [of w i ds'] I Suc.prems assms(2) ok [of i] cur by auto
    have ends: "\<forall>m \<in> set (take w ds'). d_end m \<le> d_start (ds ! i)" using I before by fastforce
    have O: "ordered_map (take w ds')" using I by simp
    have tk: "take (Suc i) ds = take i ds @ [ds ! i]"
      using Suc.prems assms(2) by (simp add: take_Suc_conv_app_nth)
    have D: "describes ?M n ka \<longleftrightarrow> describes (take (Suc i) ds) n ka" for n ka
      using push_map_describes [OF O ok, of i True n ka] Suc.prems I
      unfolding tk describes_append by simp
    have dr: "drop (Suc i) ds' = drop (Suc i) ds"
      using I by (metis drop_Suc drop_drop drop_tl tl_drop)
    have "merged_to ds (Suc i) ds'' (length ?M)"
      unfolding merged_to_def
      using s dr D push_map_ordered [OF O ok [of i] ends, of True] push_map_unjoined [of "take w ds'" "ds ! i"]
        length_push_map [of True "take w ds'" "ds ! i"] I Suc.prems
      by (simp add: min_def split: if_splits)
    then show ?thesis using IH(1) s(1) False by (auto simp: try_fold_append)
  qed
qed simp

text \<open>The stable sort orders a map exactly when no two of its ranges overlap.\<close>

definition ranges_apart :: "memory_descriptor list \<Rightarrow> bool" where
  "ranges_apart ds \<longleftrightarrow> sorted_wrt (\<lambda>d e. d_end d \<le> d_start e \<or> d_end e \<le> d_start d) ds"

lemma apart_mset:
  assumes "mset xs = mset ys" and "\<And>x y. P x y \<Longrightarrow> P y x" and "sorted_wrt P xs"
  shows "sorted_wrt P ys"
  using assms(1,3)
proof (induction ys arbitrary: xs)
  case (Cons y ys)
  have "y \<in> set xs" using Cons.prems(1) by (metis list.set_intros(1) set_mset_mset)
  then obtain us vs where xs: "xs = us @ y # vs" by (meson split_list)
  have "mset (us @ vs) = mset ys" using Cons.prems(1) xs by simp
  moreover have "sorted_wrt P (us @ vs)" using Cons.prems(2) xs by (auto simp: sorted_wrt_append)
  moreover have "\<forall>z \<in> set (us @ vs). P y z" using Cons.prems(2) xs assms(2) by (auto simp: sorted_wrt_append)
  ultimately show ?case using Cons.IH by (metis mset_eq_setD sorted_wrt.simps(2))
qed simp

lemma sort_ordered:
  assumes "list_all d_ok ds"
  shows "ordered_map (sort_key md_physical_start ds) \<longleftrightarrow> ranges_apart ds"
proof
  let ?s = "sort_key md_physical_start ds"
  let ?apart = "\<lambda>d e :: memory_descriptor. d_end d \<le> d_start e \<or> d_end e \<le> d_start d"
  have sym: "?apart x y \<Longrightarrow> ?apart y x" for x y by blast
  {
    assume "ordered_map ?s"
    then have "sorted_wrt ?apart ?s" unfolding ordered_map_def by (auto intro: sorted_wrt_mono_rel)
    then show "ranges_apart ds" unfolding ranges_apart_def using apart_mset [of ?s ds ?apart] sym by fastforce
  }
  assume "ranges_apart ds"
  then have a: "sorted_wrt ?apart ?s" unfolding ranges_apart_def using apart_mset [of ds ?s ?apart] sym by fastforce
  have "sorted (map md_physical_start ?s)" by simp
  then have s: "sorted_wrt (\<lambda>d e. d_start d \<le> d_start e) ?s" by (simp add: sorted_map word_le_nat_alt)
  have ok: "\<forall>d \<in> set ?s. d_start d < d_end d" using assms d_ok_less by (auto simp: list_all_iff)
  have "sorted_wrt (\<lambda>d e. d_end d \<le> d_start e) xs"
    if "sorted_wrt ?apart xs" "sorted_wrt (\<lambda>d e. d_start d \<le> d_start e) xs" "\<forall>d \<in> set xs. d_start d < d_end d" for xs
    using that by (induction xs) fastforce+
  then have "sorted_wrt (\<lambda>d e. d_end d \<le> d_start e) ?s" using a s ok by blast
  then show "ordered_map ?s" using assms by (simp add: ordered_map_def list_all_iff)
qed

lemma describes_set: "set xs = set ys \<Longrightarrow> describes xs n ka \<longleftrightarrow> describes ys n ka"
  by (simp add: describes_def)

lemma insertion_sort_eq [simp]: "insertion_sort ds = Ok (sort_key md_physical_start ds)"
  using insertion_sort_loop_sorts [of "length ds" ds md_physical_start] by (simp add: insertion_sort_def)

text \<open>A normalised map of capacity \<open>c\<close> for the descriptors \<open>ds\<close>.\<close>

definition normalised :: "memory_descriptor list \<Rightarrow> nat \<Rightarrow> memory_descriptor list \<Rightarrow> nat \<Rightarrow> bool" where
  "normalised ds c out n \<longleftrightarrow> length out = c \<and> n \<le> length ds \<and> ordered_map (take n out)
     \<and> adjacent (\<lambda>d e. \<not> joins d e) (take n out)
     \<and> (\<forall>a ka. describes (take n out) a ka \<longleftrightarrow> describes ds a ka)
     \<and> drop n out = replicate (c - n) empty_descriptor"

lemma merge_base_result:
  assumes "ordered_map (take len ds)" "len \<le> length ds"
  obtains ds' w where "merge_base_descriptors ds len = Ok (ds', w)" "length ds' = length ds" "w \<le> len"
    "ordered_map (take w ds')" "adjacent (\<lambda>d e. \<not> joins d e) (take w ds')"
    "\<And>a ka. describes (take w ds') a ka \<longleftrightarrow> describes (take len ds) a ka"
proof (cases "len = 0")
  case True
  then show ?thesis using that [of ds 0] by (simp add: merge_base_descriptors_def ordered_map_def)
next
  case False
  then show ?thesis
    using merge_loop [of len ds len] assms that by (auto simp: merge_base_descriptors_def merged_to_def)
qed

lemma normalize_mapped_result:
  assumes "len \<le> length ds" "list_all d_ok (take len ds)" "ranges_apart (take len ds)"
  shows "\<exists>out n. normalize_mapped_memory_map ds len = Ok (out, n) \<and> normalised (take len ds) (length ds) out n"
proof -
  let ?live = "take len ds" and ?s = "sort_key md_physical_start (take len ds)"
  have v: "try_fold (\<lambda>_ d. validate_range (md_physical_start d) (md_page_count d)) () ?live = Ok ()"
    using assms(2) by (simp add: try_fold_unit_Ok validate_range_Ok list_all_iff)
  have o: "ordered_map ?s" using sort_ordered assms by blast
  then have "validate_non_overlapping ?s = Ok ()"
    using validate_non_overlapping_Ok [of ?s] by (simp add: ordered_map_def)
  moreover have tk: "take len (?s @ drop len ds) = ?s" using assms(1) by simp
  moreover obtain ds' w where M: "merge_base_descriptors (?s @ drop len ds) len = Ok (ds', w)"
    "length ds' = length (?s @ drop len ds)" "w \<le> len" "ordered_map (take w ds')"
    "adjacent (\<lambda>d e. \<not> joins d e) (take w ds')"
    "\<And>a ka. describes (take w ds') a ka \<longleftrightarrow> describes ?s a ka"
    using merge_base_result [of len "?s @ drop len ds"] o assms(1) tk by auto
  moreover have l: "length (?s @ drop len ds) = length ds" using assms(1) by simp
  ultimately have "normalize_mapped_memory_map ds len = Ok (take w ds' @ replicate (length ds - w) empty_descriptor, w)"
    using assms(1) v by (simp add: normalize_mapped_memory_map_def del: and_then_Ok)
  then show ?thesis using M l assms(1) describes_set [of ?s ?live] by (auto simp: normalised_def min_def)
qed

lemma normalize_mapped_iff:
  "(\<exists>out n. normalize_mapped_memory_map ds len = Ok (out, n)) \<longleftrightarrow>
     len \<le> length ds \<and> list_all d_ok (take len ds) \<and> ranges_apart (take len ds)"
proof
  assume "\<exists>out n. normalize_mapped_memory_map ds len = Ok (out, n)"
  then have a: "len \<le> length ds" "list_all d_ok (take len ds)"
    and l: "validate_non_overlapping (sort_key md_physical_start (take len ds)) = Ok ()"
    by (auto simp: normalize_mapped_memory_map_def guard_outcome not_less try_fold_unit_Ok validate_range_Ok list_all_iff)
  then show "len \<le> length ds \<and> list_all d_ok (take len ds) \<and> ranges_apart (take len ds)"
    using sort_ordered [OF a(2)] validate_non_overlapping_Ok [of "sort_key md_physical_start (take len ds)"] by (simp add: list_all_iff)
next
  assume "len \<le> length ds \<and> list_all d_ok (take len ds) \<and> ranges_apart (take len ds)"
  then show "\<exists>out n. normalize_mapped_memory_map ds len = Ok (out, n)" using normalize_mapped_result by blast
qed

lemma normalize_mapped_no_panic: "normalize_mapped_memory_map ds len \<noteq> Panic"
proof (cases "len \<le> length ds \<and> list_all d_ok (take len ds) \<and> ranges_apart (take len ds)")
  case True
  then show ?thesis using normalize_mapped_result by (metis result.distinct(3))
next
  case False
  show ?thesis
  proof
    assume "normalize_mapped_memory_map ds len = Panic"
    moreover have "try_fold (\<lambda>_ d. validate_range (md_physical_start d) (md_page_count d)) () (take len ds) \<noteq> Panic"
      by (rule try_fold_not_Panic) simp
    ultimately have "len \<le> length ds" "list_all d_ok (take len ds)"
      "validate_non_overlapping (sort_key md_physical_start (take len ds)) = Ok ()"
      by (auto simp: normalize_mapped_memory_map_def guard_outcome not_less try_fold_unit_Ok validate_range_Ok list_all_iff
          split: if_splits)
    then show False using False sort_ordered validate_non_overlapping_Ok [of "sort_key md_physical_start (take len ds)"]
      by (simp add: list_all_iff)
  qed
qed

lemma normalize_raw_loop:
  "k + length raw \<le> length out \<Longrightarrow>
   try_fold (\<lambda>output (index, r). and_then (validate_range (rm_physical_start r) (rm_page_count r)) (\<lambda>_.
       arr_set output index (map_descriptor r))) out (enumerate k raw) =
     and_then (try_fold (\<lambda>_ r. validate_range (rm_physical_start r) (rm_page_count r)) () raw) (\<lambda>_.
       Ok (take k out @ map map_descriptor raw @ drop (k + length raw) out))"
proof (induction raw arbitrary: k out)
  case (Cons r raw)
  have "take (Suc k) (out[k := map_descriptor r]) = take k out @ [map_descriptor r]" using Cons.prems by simp
  then show ?case
    using Cons.prems Cons.IH [of "Suc k" "out[k := map_descriptor r]"]
    by (cases "validate_range (rm_physical_start r) (rm_page_count r)") (auto simp del: and_then_Ok)
qed simp

lemma normalize_memory_map_eq:
  assumes "length raw \<le> length out" "list_all d_ok (map map_descriptor raw)"
  shows "normalize_memory_map raw out =
    normalize_mapped_memory_map (map map_descriptor raw @ drop (length raw) out) (length raw)"
proof -
  have "try_fold (\<lambda>_ r. validate_range (rm_physical_start r) (rm_page_count r)) () raw = Ok ()"
    using assms(2) by (simp add: try_fold_unit_Ok validate_range_Ok list_all_iff map_descriptor_def)
  then show ?thesis using assms(1) normalize_raw_loop [of 0 raw out]
    by (simp add: normalize_memory_map_def del: and_then_Ok)
qed

lemma normalize_memory_map_invalid:
  assumes "length out < length raw \<or> \<not> list_all d_ok (map map_descriptor raw)"
  shows "\<exists>e. normalize_memory_map raw out = Err e"
proof (cases "length out < length raw")
  case False
  let ?v = "try_fold (\<lambda>_ r. validate_range (rm_physical_start r) (rm_page_count r)) () raw"
  have "?v \<noteq> Panic" by (rule try_fold_not_Panic) simp
  moreover have "?v \<noteq> Ok ()"
    using False assms by (simp add: try_fold_unit_Ok validate_range_Ok list_all_iff map_descriptor_def)
  ultimately obtain e where "?v = Err e" by (cases ?v) auto
  then show ?thesis using False normalize_raw_loop [of 0 raw out]
    by (simp add: normalize_memory_map_def del: and_then_Ok and_then_Err)
qed (simp add: normalize_memory_map_def)

section \<open>Properties of normalisation\<close>

text \<open>
  C5. Normalisation never panics. It succeeds exactly when the firmware map fits the buffer, every
  descriptor is a nonempty page-aligned range below the end of the address space, and no two
  descriptors overlap. The result is then ordered and disjoint, no two neighbours could still be
  merged, it gives every physical address the kind and the attributes the firmware map gives it, and
  the rest of the buffer is empty.
\<close>
theorem normalize_memory_map_correct:
  "normalize_memory_map raw out \<noteq> Panic
   \<and> ((\<exists>out' n. normalize_memory_map raw out = Ok (out', n)) \<longleftrightarrow>
        length raw \<le> length out \<and> list_all d_ok (map map_descriptor raw)
        \<and> ranges_apart (map map_descriptor raw))
   \<and> (normalize_memory_map raw out = Ok (out', n) \<longrightarrow>
        normalised (map map_descriptor raw) (length out) out' n)"
proof (cases "length raw \<le> length out \<and> list_all d_ok (map map_descriptor raw)")
  case True
  let ?ds = "map map_descriptor raw @ drop (length raw) out"
  have "take (length raw) ?ds = map map_descriptor raw" "length ?ds = length out" using True by simp_all
  then show ?thesis
    using True normalize_memory_map_eq [of raw out] normalize_mapped_iff [of ?ds "length raw"]
      normalize_mapped_result [of "length raw" ?ds] normalize_mapped_no_panic [of ?ds "length raw"]
    by auto
next
  case False
  then show ?thesis using normalize_memory_map_invalid [of out raw] by (auto simp: not_le)
qed

definition sample_raw_map :: "raw_memory_descriptor list" where
  "sample_raw_map =
     [\<lparr>rm_memory_type = UEFI_CONVENTIONAL, rm_physical_start = 0x3000, rm_page_count = 2, rm_attributes = 15\<rparr>,
      \<lparr>rm_memory_type = UEFI_RESERVED, rm_physical_start = 0, rm_page_count = 1, rm_attributes = 15\<rparr>,
      \<lparr>rm_memory_type = UEFI_CONVENTIONAL, rm_physical_start = 0x1000, rm_page_count = 2, rm_attributes = 15\<rparr>]"

lemma sample_raw_map_ok:
  "list_all d_ok (map map_descriptor sample_raw_map)" "ranges_apart (map map_descriptor sample_raw_map)"
  by (simp_all add: sample_raw_map_def map_descriptor_def extent_ok_def extent_end_def ranges_apart_def)

theorem normalize_memory_map_correct_witness:
  "\<exists>out n. normalize_memory_map sample_raw_map (replicate 4 empty_descriptor) = Ok (out, n)
     \<and> normalised (map map_descriptor sample_raw_map) 4 out n"
proof -
  have "length sample_raw_map \<le> length (replicate 4 empty_descriptor)" by (simp add: sample_raw_map_def)
  then obtain out n where r: "normalize_memory_map sample_raw_map (replicate 4 empty_descriptor) = Ok (out, n)"
    using normalize_memory_map_correct [of sample_raw_map "replicate 4 empty_descriptor"] sample_raw_map_ok by blast
  then show ?thesis
    using normalize_memory_map_correct [of sample_raw_map "replicate 4 empty_descriptor" out n] by auto
qed

end
