(* ===== verification/Reservation_Overlay.thy ===== *)
theory Reservation_Overlay
  imports Memory_Map_Facts
begin

text \<open>
  The reservation list and its overlay on the normalised map: what \<^verbatim>\<open>push\<close> and \<^verbatim>\<open>finish\<close> establish,
  and the address-level meaning of \<^verbatim>\<open>apply_reservations\<close>.
\<close>

section \<open>The reservation list\<close>

abbreviation r_start :: "reservation \<Rightarrow> nat" where
  "r_start r \<equiv> unat (rv_physical_start r)"

abbreviation r_end :: "reservation \<Rightarrow> nat" where
  "r_end r \<equiv> extent_end (rv_physical_start r) (rv_page_count r)"

abbreviation r_ok :: "reservation \<Rightarrow> bool" where
  "r_ok r \<equiv> extent_ok (rv_physical_start r) (rv_page_count r)"

definition ordered_reservations :: "reservation list \<Rightarrow> bool" where
  "ordered_reservations rs \<longleftrightarrow> list_all r_ok rs \<and> sorted_wrt (\<lambda>r s. r_end r \<le> r_start s) rs"

definition rl_holds :: "reservation_list \<Rightarrow> reservation list \<Rightarrow> bool" where
  "rl_holds rl rs \<longleftrightarrow> length (rl_items rl) = RESERVATION_CAPACITY \<and> rl_len rl = length rs
     \<and> length rs \<le> RESERVATION_CAPACITY \<and> take (length rs) (rl_items rl) = rs"

lemma rl_live_holds: "rl_holds rl rs \<Longrightarrow> rl_live rl = Ok rs"
  by (simp add: rl_holds_def rl_live_def)

lemma rl_holds_new: "rl_holds ReservationList_new []"
  by (simp add: rl_holds_def ReservationList_new_def)

lemma rl_push_holds:
  assumes "rl_holds rl rs" "rl_push rl r = Ok rl'"
  shows "rl_holds rl' (rs @ [r])" "r_ok r"
  using assms by (auto simp: rl_push_def guard_outcome validate_range_Ok rl_holds_def le_less)

lemma rl_pushes_hold:
  assumes "rl_holds rl rs" "try_fold rl_push rl ss = Ok rl'"
  shows "rl_holds rl' (rs @ ss) \<and> list_all r_ok ss"
  using assms
proof (induction ss arbitrary: rl rs)
  case (Cons s ss)
  then obtain rl1 where "rl_push rl s = Ok rl1" "try_fold rl_push rl1 ss = Ok rl'" by auto
  then show ?case using Cons rl_push_holds [of rl rs s rl1] by fastforce
qed simp

lemma finish_windows:
  assumes "list_all r_ok rs"
  shows "try_fold (\<lambda>_ (a, b). and_then (range_end (rv_physical_start a) (rv_page_count a)) (\<lambda>left_end.
      if left_end > rv_physical_start b then Err ReservationOverlap else Ok ())) () (windows2 rs) = Ok u
    \<longleftrightarrow> adjacent (\<lambda>r s. r_end r \<le> r_start s) rs"
  using assms
proof (induction "\<lambda>r s :: reservation. r_end r \<le> r_start s" rs rule: adjacent.induct)
  case (3 x y zs)
  obtain e where e: "range_end (rv_physical_start x) (rv_page_count x) = Ok e" "unat e = r_end x"
    using 3 range_end_in_range by (auto simp: extent_ok_def)
  then show ?case using 3 by (auto simp: word_nat)
qed simp_all

lemma rl_finish_holds:
  assumes "rl_holds rl rs" "list_all r_ok rs" "rl_finish rl = Ok rl'"
  shows "rl_holds rl' (sort_key rv_physical_start rs) \<and> ordered_reservations (sort_key rv_physical_start rs)"
proof -
  let ?s = "sort_key rv_physical_start rs"
  have i: "insertion_sort_loop rv_physical_start (length rs) (rl_items rl)
      = (Ok (?s @ drop (length rs) (rl_items rl)) :: (_, reservation_list \<times> map_build_error) result)"
    using insertion_sort_loop_sorts [of "length rs" "rl_items rl" rv_physical_start] assms(1)
    by (simp add: rl_holds_def)
  have ok: "list_all r_ok ?s" using assms(2) by (simp add: list_all_iff)
  have a: "adjacent (\<lambda>r s. r_end r \<le> r_start s) ?s" and rl': "rl' = rl\<lparr>rl_items := ?s @ drop (length rs) (rl_items rl)\<rparr>"
    using assms(1,3) finish_windows [OF ok] by (simp_all add: rl_finish_def rl_holds_def Let_def i)
  have "sorted_wrt (\<lambda>r s. r_end r \<le> r_start s) ?s"
  proof (rule adjacent_sorted_wrt [OF a])
    fix x y z :: reservation
    assume "y \<in> set ?s" "r_end x \<le> r_start y" "r_end y \<le> r_start z"
    moreover have "r_start y \<le> r_end y" by (simp add: extent_end_def)
    ultimately show "r_end x \<le> r_start z" by linarith
  qed
  then show ?thesis using ok rl' assms(1) by (simp add: ordered_reservations_def rl_holds_def)
qed

section \<open>Appending\<close>

definition map_holds :: "memory_descriptor list \<times> nat \<Rightarrow> nat \<Rightarrow> memory_descriptor list \<Rightarrow> bool" where
  "map_holds o' c M \<longleftrightarrow> length (fst o') = c \<and> snd o' = length M \<and> length M \<le> c \<and> take (length M) (fst o') = M"

lemma holds_last:
  assumes "take (length (N @ [p])) out = N @ [p]" "length (N @ [p]) \<le> length out"
  shows "take (length N) out = N" "out ! length N = p" "length N < length out"
  using assms by (simp_all add: take_Suc_conv_app_nth)

text \<open>The branch of \<^verbatim>\<open>append_descriptor\<close> that merges, and the one that writes a new entry.\<close>

lemma append_merges:
  assumes "length (N @ [p]) \<le> length out" "take (length (N @ [p])) out = N @ [p]" "d_ok p" "d_ok d" "joins p d"
  shows "append_descriptor (out, Suc (length N)) d True = Ok (out[length N := grow p d], Suc (length N))"
proof -
  obtain e where e: "range_end (md_physical_start p) (md_page_count p) = Ok e" "unat e = d_end p"
    using assms(3) range_end_in_range unfolding extent_ok_def by blast
  have "e = md_physical_start d" "md_kind p = md_kind d" "md_attributes p = md_attributes d" "md_page_count d \<noteq> 0"
    using assms e(2) by (auto simp: joins_def word_eq_nat extent_ok_def)
  then show ?thesis
    using holds_last [OF assms(2,1)] e(1) grow_pages(1) [OF assms(3,4,5)]
    by (simp add: append_descriptor_def Let_def grow_def del: checked_add_Some and_then_Ok)
qed

lemma append_writes:
  assumes "length M \<le> length out" "take (length M) out = M" "list_all d_ok M" "d_ok d"
    and "\<not> (merge \<and> M \<noteq> [] \<and> joins (last M) d)"
  shows "append_descriptor (out, length M) d merge =
    (if length M = length out then Err OutputCapacity else Ok (out[length M := d], Suc (length M)))"
proof -
  have nz: "md_page_count d \<noteq> 0" using assms(4) by (auto simp: extent_ok_def)
  show ?thesis
  proof (cases "merge \<and> M \<noteq> []")
    case True
    then obtain N p where M: "M = N @ [p]" by (metis append_butlast_last_id)
    have p: "d_ok p" "\<not> joins p d" using assms(3,5) M True by auto
    obtain e where e: "range_end (md_physical_start p) (md_page_count p) = Ok e" "unat e = d_end p"
      using p(1) range_end_in_range unfolding extent_ok_def by blast
    have "(e = md_physical_start d \<and> md_kind p = md_kind d \<and> md_attributes p = md_attributes d) = False"
      using p(2) e(2) by (auto simp: joins_def)
    then show ?thesis using True M nz holds_last [of N p out] assms(1,2) e(1)
      by (auto simp: append_descriptor_def Let_def simp del: and_then_Ok)
  next
    case False
    then show ?thesis using assms(1) nz by (auto simp: append_descriptor_def Let_def simp del: and_then_Ok)
  qed
qed

lemma append_outcome:
  assumes "map_holds o1 c M" "list_all d_ok M" "d_ok d"
  shows "(\<exists>o2. append_descriptor o1 d merge = Ok o2 \<and> map_holds o2 c (push_map merge M d))
    \<or> (append_descriptor o1 d merge = Err OutputCapacity \<and> length M = c)"
proof -
  obtain out where o1: "o1 = (out, length M)" "length out = c" "length M \<le> length out" "take (length M) out = M"
    using assms(1) by (cases o1) (auto simp: map_holds_def)
  show ?thesis
  proof (cases "merge \<and> M \<noteq> [] \<and> joins (last M) d")
    case True
    then obtain N p where M: "M = N @ [p]" by (metis append_butlast_last_id)
    have t: "length (N @ [p]) \<le> length out" "take (length (N @ [p])) out = N @ [p]" using o1 M by simp_all
    have "append_descriptor o1 d merge = Ok (out[length N := grow p d], Suc (length N))"
      using append_merges [OF t, of d] True M o1(1) assms(2,3) by simp
    moreover have "push_map merge M d = N @ [grow p d]" using True M by (simp add: push_map_def)
    ultimately show ?thesis using o1 M holds_last [OF t(2,1)] by (simp add: map_holds_def)
  next
    case False
    then have P: "push_map merge M d = M @ [d]" unfolding push_map_def by (simp only: if_False)
    show ?thesis using append_writes [OF o1(3,4) assms(2,3) False] P o1 by (auto simp: map_holds_def)
  qed
qed

section \<open>The overlay of one descriptor\<close>

abbreviation within :: "nat \<Rightarrow> nat \<Rightarrow> nat \<Rightarrow> bool" where
  "within n a b \<equiv> a \<le> n \<and> n < b"

definition reserves :: "reservation list \<Rightarrow> nat \<Rightarrow> bool" where
  "reserves rs n \<longleftrightarrow> (\<exists>r \<in> set rs. within n (r_start r) (r_end r))"

text \<open>What the overlaid map says about an address inside the descriptor \<open>d\<close>.\<close>

definition overlaid :: "reservation list \<Rightarrow> memory_descriptor \<Rightarrow> nat \<Rightarrow> u32 \<times> u64 \<Rightarrow> bool" where
  "overlaid rs d n ka \<longleftrightarrow>
     (\<exists>r \<in> set rs. within n (r_start r) (r_end r) \<and> ka = (rv_kind r, 0))
     \<or> (\<not> reserves rs n \<and> ka = (md_kind d, md_attributes d))"

definition shared :: "reservation \<Rightarrow> memory_descriptor \<Rightarrow> nat" where
  "shared r d = min (d_end d) (r_end r) - max (d_start d) (r_start r)"

text \<open>The state after the first \<open>k\<close> reservations, for the map \<open>M0\<close> and the counts \<open>C\<close> before.\<close>

definition overlay_inv ::
    "reservation list \<Rightarrow> nat \<Rightarrow> memory_descriptor list \<Rightarrow> (nat \<Rightarrow> nat) \<Rightarrow> memory_descriptor \<Rightarrow> nat
     \<Rightarrow> overlay_state \<Rightarrow> memory_descriptor list \<Rightarrow> bool" where
  "overlay_inv rs cap M0 C d k st M \<longleftrightarrow>
     map_holds (ov_output st) cap M \<and> ordered_map M \<and> length M \<le> length M0 + 2 * k
     \<and> (\<forall>m \<in> set M. d_end m \<le> unat (ov_cursor st))
     \<and> d_start d \<le> unat (ov_cursor st) \<and> unat (ov_cursor st) \<le> d_end d \<and> unat (ov_cursor st) mod 4096 = 0
     \<and> (\<forall>n ka. describes M n ka \<longleftrightarrow>
          describes M0 n ka \<or> within n (d_start d) (unat (ov_cursor st)) \<and> overlaid rs d n ka)
     \<and> (\<forall>j < k. min (d_end d) (r_end (rs ! j)) \<le> max (unat (ov_cursor st)) (r_start (rs ! j)))
     \<and> (\<forall>j < length rs. k \<le> j \<longrightarrow> max (unat (ov_cursor st)) (r_start (rs ! j)) = max (d_start d) (r_start (rs ! j)))
     \<and> length (ov_covered st) = RESERVATION_CAPACITY
     \<and> (\<forall>j < length rs. unat (ov_covered st ! j) * 4096 = C j + (if j < k then shared (rs ! j) d else 0))"

lemma piece:
  fixes s e :: u64
  assumes "s < e" "unat s mod 4096 = 0" "unat e mod 4096 = 0"
  shows "extent_ok s ((e - s) div MEMORY_PAGE_SIZE)" "extent_end s ((e - s) div MEMORY_PAGE_SIZE) = unat e"
    "unat ((e - s) div MEMORY_PAGE_SIZE) * 4096 = unat e - unat s"
proof -
  have lt: "unat s < unat e" using assms(1) by (simp add: word_less_nat_alt)
  have "unat (e - s) = unat e - unat s" using assms(1) by (intro unat_sub) simp
  then have u: "unat ((e - s) div MEMORY_PAGE_SIZE) = (unat e - unat s) div 4096"
    by (simp add: unat_div_distrib MEMORY_PAGE_SIZE_def)
  have dv: "4096 dvd unat e - unat s" using assms by (simp add: mod_eq_0_iff_dvd dvd_diff_nat)
  show m: "unat ((e - s) div MEMORY_PAGE_SIZE) * 4096 = unat e - unat s" using u dv by simp
  show x: "extent_end s ((e - s) div MEMORY_PAGE_SIZE) = unat e" using m lt by (simp add: extent_end_def)
  have "0 < unat ((e - s) div MEMORY_PAGE_SIZE)" using m lt by (metis gr0I mult_0 zero_less_diff less_numeral_extra(3))
  then show "extent_ok s ((e - s) div MEMORY_PAGE_SIZE)"
    using x assms(2) unat_bound [of e] by (simp add: extent_ok_def)
qed

lemma ordered_nth:
  assumes "ordered_reservations rs" "i < j" "j < length rs"
  shows "r_end (rs ! i) \<le> r_start (rs ! j)"
  using assms by (auto simp: ordered_reservations_def sorted_wrt_iff_nth_less)

lemma ordered_nth_ok: "ordered_reservations rs \<Longrightarrow> i < length rs \<Longrightarrow> r_ok (rs ! i)"
  by (simp add: ordered_reservations_def list_all_length)

lemma extent_ok_aligned:
  "extent_ok s p \<Longrightarrow> extent_end s p mod 4096 = 0"
  by (simp add: extent_ok_def extent_end_def)

text \<open>Between the cursor and the next overlap nothing is reserved.\<close>

lemma gap_unreserved:
  assumes "ordered_reservations rs" "k < length rs"
    and "\<forall>j < k. min de (r_end (rs ! j)) \<le> max c (r_start (rs ! j))"
    and "within n c (max c (r_start (rs ! k)))" "n < de"
  shows "\<not> reserves rs n"
proof
  assume "reserves rs n"
  then obtain j where j: "j < length rs" "within n (r_start (rs ! j)) (r_end (rs ! j))"
    by (auto simp: reserves_def in_set_conv_nth)
  have "n < r_start (rs ! k)" using assms(4) by (simp add: max_def split: if_splits)
  moreover have "r_start (rs ! k) \<le> r_end (rs ! k)" by (simp add: extent_end_def)
  moreover have "r_end (rs ! k) \<le> r_start (rs ! j)" if "k < j" using ordered_nth [OF assms(1) that j(1)] .
  moreover have "min de (r_end (rs ! j)) \<le> max c (r_start (rs ! j))" if "j < k" using assms(3) that by blast
  ultimately show False using j(2) assms(4,5) by (cases j k rule: linorder_cases) (auto simp: min_def max_def split: if_splits)
qed

lemma tail_unreserved:
  assumes "\<forall>j < length rs. min de (r_end (rs ! j)) \<le> max c (r_start (rs ! j))" "within n c de"
  shows "\<not> reserves rs n"
proof
  assume "reserves rs n"
  then obtain j where "j < length rs" "within n (r_start (rs ! j)) (r_end (rs ! j))"
    by (auto simp: reserves_def in_set_conv_nth)
  then show False using assms by (fastforce simp: min_def max_def split: if_splits)
qed

lemma overlaid_reserved:
  assumes "ordered_reservations rs" "k < length rs" "within n (r_start (rs ! k)) (r_end (rs ! k))"
  shows "overlaid rs d n ka \<longleftrightarrow> ka = (rv_kind (rs ! k), 0)"
proof -
  have "j = k" if "j < length rs" "within n (r_start (rs ! j)) (r_end (rs ! j))" for j
    using that assms ordered_nth [OF assms(1), of j k] ordered_nth [OF assms(1), of k j]
    by (cases j k rule: linorder_cases) auto
  then show ?thesis using assms(2,3) unfolding overlaid_def reserves_def by (metis in_set_conv_nth)
qed

lemma overlaid_free: "\<not> reserves rs n \<Longrightarrow> overlaid rs d n ka \<longleftrightarrow> ka = (md_kind d, md_attributes d)"
  by (auto simp: overlaid_def reserves_def)

text \<open>Appending a piece of the descriptor or of a reservation.\<close>

lemma append_piece:
  assumes "map_holds o1 cap M" "ordered_map M" "\<forall>m \<in> set M. d_end m \<le> unat s"
    and "s < e" "unat s mod 4096 = 0" "unat e mod 4096 = 0"
    and "x = append_descriptor o1 \<lparr>md_kind = k, md_reserved0 = 0, md_physical_start = s,
      md_page_count = (e - s) div MEMORY_PAGE_SIZE, md_attributes = a\<rparr> merge"
  shows "(\<exists>o2 M'. x = Ok o2 \<and> map_holds o2 cap M' \<and> ordered_map M' \<and> (\<forall>m \<in> set M'. d_end m \<le> unat e)
      \<and> length M' \<le> Suc (length M)
      \<and> (\<forall>n ka. describes M' n ka \<longleftrightarrow> describes M n ka \<or> within n (unat s) (unat e) \<and> ka = (k, a)))
    \<or> (x = Err OutputCapacity \<and> length M = cap)"
proof -
  let ?d = "\<lparr>md_kind = k, md_reserved0 = 0, md_physical_start = s,
      md_page_count = (e - s) div MEMORY_PAGE_SIZE, md_attributes = a\<rparr>"
  have d: "d_ok ?d" "d_end ?d = unat e" "d_start ?d = unat s" using piece [OF assms(4-6)] by simp_all
  have M: "list_all d_ok M" using assms(2) by (simp add: ordered_map_def)
  have b: "\<forall>m \<in> set M. d_end m \<le> d_start ?d" using assms(3) d(3) by simp
  have "describes [?d] n ka \<longleftrightarrow> within n (unat s) (unat e) \<and> ka = (k, a)" for n ka
    using d by (auto simp: describes_def)
  then have D: "\<forall>n ka. describes (push_map merge M ?d) n ka \<longleftrightarrow>
      describes M n ka \<or> within n (unat s) (unat e) \<and> ka = (k, a)"
    using push_map_describes [OF assms(2) d(1), of merge] by simp
  have E: "\<forall>m \<in> set (push_map merge M ?d). d_end m \<le> unat e"
    using push_map_ordered(2) [OF assms(2) d(1) b, of merge] d(2) by simp
  from append_outcome [OF assms(1) M d(1), of merge] show ?thesis
  proof
    assume "\<exists>o2. append_descriptor o1 ?d merge = Ok o2 \<and> map_holds o2 cap (push_map merge M ?d)"
    then obtain o2 where "x = Ok o2" "map_holds o2 cap (push_map merge M ?d)" using assms(7) by blast
    then show ?thesis
      using push_map_ordered(1) [OF assms(2) d(1) b, of merge] length_push_map(1) [of merge M ?d] E D by blast
  qed (use assms(7) in simp)
qed

lemma overlay_invD:
  assumes "overlay_inv rs cap M0 C d k st M"
  shows "map_holds (ov_output st) cap M" "ordered_map M" "length M \<le> length M0 + 2 * k"
    and "\<forall>m \<in> set M. d_end m \<le> unat (ov_cursor st)"
    and "d_start d \<le> unat (ov_cursor st)" "unat (ov_cursor st) \<le> d_end d" "unat (ov_cursor st) mod 4096 = 0"
    and "describes M n ka \<longleftrightarrow>
          describes M0 n ka \<or> within n (d_start d) (unat (ov_cursor st)) \<and> overlaid rs d n ka"
    and "\<forall>j < k. min (d_end d) (r_end (rs ! j)) \<le> max (unat (ov_cursor st)) (r_start (rs ! j))"
    and "\<forall>j < length rs. k \<le> j \<longrightarrow> max (unat (ov_cursor st)) (r_start (rs ! j)) = max (d_start d) (r_start (rs ! j))"
    and "length (ov_covered st) = RESERVATION_CAPACITY"
    and "\<forall>j < length rs. unat (ov_covered st ! j) * 4096 = C j + (if j < k then shared (rs ! j) d else 0)"
proof -
  note I = assms [unfolded overlay_inv_def]
  show "describes M n ka \<longleftrightarrow>
          describes M0 n ka \<or> within n (d_start d) (unat (ov_cursor st)) \<and> overlaid rs d n ka"
    using I by (elim conjE) (erule_tac x = n in allE, erule_tac x = ka in allE, assumption)
qed (insert assms [unfolded overlay_inv_def], (elim conjE, assumption)+)

lemma overlay_skip:
  assumes inv: "overlay_inv rs cap M0 C d k st M" and k: "k < length rs"
    and none: "min (d_end d) (r_end (rs ! k)) \<le> max (unat (ov_cursor st)) (r_start (rs ! k))"
  shows "overlay_inv rs cap M0 C d (Suc k) st M"
proof -
  note I = overlay_invD [OF inv]
  have "max (unat (ov_cursor st)) (r_start (rs ! k)) = max (d_start d) (r_start (rs ! k))"
    using I(10) k by blast
  then have "shared (rs ! k) d = 0" using none unfolding shared_def by linarith
  then have cv: "\<forall>j < length rs. unat (ov_covered st ! j) * 4096 = C j + (if j < Suc k then shared (rs ! j) d else 0)"
    using I(12) by (simp add: less_Suc_eq)
  have past: "\<forall>j < Suc k. min (d_end d) (r_end (rs ! j)) \<le> max (unat (ov_cursor st)) (r_start (rs ! j))"
    using I(9) none less_Suc_eq by blast
  have ahead: "\<forall>j < length rs. Suc k \<le> j \<longrightarrow> max (unat (ov_cursor st)) (r_start (rs ! j)) = max (d_start d) (r_start (rs ! j))"
    using I(10) Suc_leD by blast
  have len: "length M \<le> length M0 + 2 * Suc k" using I(3) by simp
  show ?thesis
    unfolding overlay_inv_def by (intro conjI allI I(1,2,4-8,11) cv past ahead len)
qed

text \<open>An overlap: a gap piece, if any, the reserved piece, and the page count.\<close>

lemma overlay_advance:
  assumes inv: "overlay_inv rs cap M0 C d k st M" and k: "k < length rs" "ordered_reservations rs"
    and c: "c = unat (ov_cursor st)" and os: "os = max c (r_start (rs ! k))"
    and oe: "unat oe = min (d_end d) (r_end (rs ! k))" "os < unat oe" "unat oe mod 4096 = 0"
    and M': "map_holds o2 cap M'" "ordered_map M'" "\<forall>m \<in> set M'. d_end m \<le> unat oe"
      "length M' \<le> Suc (Suc (length M))"
    and desc: "\<forall>n ka. describes M' n ka \<longleftrightarrow> describes M n ka
      \<or> within n c os \<and> ka = (md_kind d, md_attributes d) \<or> within n os (unat oe) \<and> ka = (rv_kind (rs ! k), 0)"
    and cov: "unat v * 4096 = unat (ov_covered st ! k) * 4096 + (unat oe - os)" "length rs \<le> RESERVATION_CAPACITY"
  shows "overlay_inv rs cap M0 C d (Suc k)
    \<lparr>ov_output = o2, ov_covered = (ov_covered st)[k := v], ov_cursor = oe\<rparr> M'"
proof -
  note I = overlay_invD [OF inv]
  have mx: "max c (r_start (rs ! j)) = max (d_start d) (r_start (rs ! j))" if "k \<le> j" "j < length rs" for j
    using I(10) that c by simp
  have bounds: "d_start d \<le> c" "c \<le> os" "os < unat oe" "unat oe \<le> d_end d" "unat oe \<le> r_end (rs ! k)" "r_start (rs ! k) \<le> os"
    using I(5) os oe c by auto
  have done_before: "\<forall>j < k. min (d_end d) (r_end (rs ! j)) \<le> max c (r_start (rs ! j))" using I(9) c by simp
  have gap: "overlaid rs d n ka \<longleftrightarrow> ka = (md_kind d, md_attributes d)" if "within n c os" for n ka
    using gap_unreserved [OF k(2,1) done_before, of n] that bounds os by (intro overlaid_free) auto
  have res: "overlaid rs d n ka \<longleftrightarrow> ka = (rv_kind (rs ! k), 0)" if "within n os (unat oe)" for n ka
    using overlaid_reserved [OF k(2,1), of n] that bounds by auto
  have D: "describes M' n ka \<longleftrightarrow> describes M0 n ka \<or> within n (d_start d) (unat oe) \<and> overlaid rs d n ka" for n ka
  proof -
    have "within n (d_start d) (unat oe) \<longleftrightarrow> within n (d_start d) c \<or> within n c os \<or> within n os (unat oe)"
      using bounds by auto
    moreover have "describes M n ka \<longleftrightarrow> describes M0 n ka \<or> within n (d_start d) c \<and> overlaid rs d n ka"
      using I(8) [of n ka] c by simp
    ultimately show ?thesis using desc gap [of n ka] res [of n ka] by blast
  qed
  have past: "min (d_end d) (r_end (rs ! j)) \<le> max (unat oe) (r_start (rs ! j))" if "j < Suc k" for j
  proof (cases "j = k")
    case False
    then have "min (d_end d) (r_end (rs ! j)) \<le> max c (r_start (rs ! j))" using that done_before by simp
    also have "\<dots> \<le> max (unat oe) (r_start (rs ! j))" using bounds by (intro max.mono) simp_all
    finally show ?thesis .
  qed (simp add: oe(1))
  have ahead: "max (unat oe) (r_start (rs ! j)) = max (d_start d) (r_start (rs ! j))" if "j < length rs" "Suc k \<le> j" for j
    using ordered_nth [OF k(2), of k j] that bounds by (simp add: max_def)
  have "unat oe - os = shared (rs ! k) d" using mx [of k] k oe os by (simp add: shared_def)
  then have cv: "unat ((ov_covered st)[k := v] ! j) * 4096 = C j + (if j < Suc k then shared (rs ! j) d else 0)"
    if "j < length rs" for j
    using that I(11,12) k cov by (cases "j = k") (auto simp: less_Suc_eq)
  show ?thesis
    unfolding overlay_inv_def overlay_state.select_convs
    using M'(4) I(3,11) bounds by (intro conjI allI impI M' D past ahead cv oe(3)) simp_all
qed

text \<open>The output after the gap before an overlap, and after the overlap.\<close>

definition gap_output :: "memory_descriptor \<Rightarrow> overlay_state \<Rightarrow> u64 \<Rightarrow> (memory_descriptor list \<times> nat, map_build_error) result" where
  "gap_output d st s =
     (if ov_cursor st < s
      then append_descriptor (ov_output st)
          \<lparr>md_kind = md_kind d, md_reserved0 = 0, md_physical_start = ov_cursor st,
           md_page_count = (s - ov_cursor st) div MEMORY_PAGE_SIZE, md_attributes = md_attributes d\<rparr> True
      else Ok (ov_output st))"

definition overlap_output ::
    "memory_descriptor \<Rightarrow> overlay_state \<Rightarrow> u64 \<Rightarrow> u64 \<Rightarrow> u32 \<Rightarrow> (memory_descriptor list \<times> nat, map_build_error) result" where
  "overlap_output d st s e rk =
     and_then (gap_output d st s) (\<lambda>o1. append_descriptor o1
        \<lparr>md_kind = rk, md_reserved0 = 0, md_physical_start = s,
         md_page_count = (e - s) div MEMORY_PAGE_SIZE, md_attributes = 0\<rparr> False)"

text \<open>An output that holds a map ending at \<open>e\<close>, with the pieces \<open>P\<close> added.\<close>

definition map_extended ::
    "nat \<Rightarrow> memory_descriptor list \<Rightarrow> (nat \<Rightarrow> u32 \<times> u64 \<Rightarrow> bool) \<Rightarrow> nat \<Rightarrow> nat
     \<Rightarrow> memory_descriptor list \<times> nat \<Rightarrow> memory_descriptor list \<Rightarrow> bool" where
  "map_extended cap M P e l o2 M' \<longleftrightarrow> map_holds o2 cap M' \<and> ordered_map M' \<and> (\<forall>m \<in> set M'. d_end m \<le> e)
     \<and> length M' \<le> length M + l \<and> (\<forall>n ka. describes M' n ka \<longleftrightarrow> describes M n ka \<or> P n ka)"

lemma gap_appended:
  assumes inv: "overlay_inv rs cap M0 C d k st M" and s: "ov_cursor st \<le> s" "unat s mod 4096 = 0"
  shows "(\<exists>o1 M1. gap_output d st s = Ok o1 \<and> map_extended cap M
      (\<lambda>n ka. within n (unat (ov_cursor st)) (unat s) \<and> ka = (md_kind d, md_attributes d)) (unat s) 1 o1 M1)
    \<or> (gap_output d st s = Err OutputCapacity \<and> length M = cap)"
proof (cases "ov_cursor st < s")
  case True
  note I = overlay_invD [OF inv]
  show ?thesis
    using append_piece [OF I(1,2,4) True I(7) s(2) refl, of "md_kind d" "md_attributes d" True] True
    by (simp add: gap_output_def map_extended_def)
next
  case False
  then have "ov_cursor st = s" using s(1) by simp
  then have "gap_output d st s = Ok (ov_output st)" "map_extended cap M
      (\<lambda>n ka. within n (unat (ov_cursor st)) (unat s) \<and> ka = (md_kind d, md_attributes d)) (unat s) 1 (ov_output st) M"
    using overlay_invD(1,2,4) [OF inv] by (auto simp: gap_output_def map_extended_def)
  then show ?thesis by blast
qed

lemma overlap_appended:
  assumes inv: "overlay_inv rs cap M0 C d k st M" and s: "ov_cursor st \<le> s" "s < e"
    and al: "unat s mod 4096 = 0" "unat e mod 4096 = 0"
  shows "(\<exists>o2 M'. overlap_output d st s e rk = Ok o2 \<and> map_extended cap M
      (\<lambda>n ka. within n (unat (ov_cursor st)) (unat s) \<and> ka = (md_kind d, md_attributes d)
        \<or> within n (unat s) (unat e) \<and> ka = (rk, 0)) (unat e) 2 o2 M')
    \<or> (overlap_output d st s e rk = Err OutputCapacity \<and> cap \<le> Suc (length M))"
  using gap_appended [OF inv s(1) al(1)]
proof (elim disjE exE conjE)
  fix o1 M1
  assume g: "gap_output d st s = Ok o1" and M1: "map_extended cap M
      (\<lambda>n ka. within n (unat (ov_cursor st)) (unat s) \<and> ka = (md_kind d, md_attributes d)) (unat s) 1 o1 M1"
  have M1': "map_holds o1 cap M1" "ordered_map M1" "\<forall>m \<in> set M1. d_end m \<le> unat s" "length M1 \<le> Suc (length M)"
    using M1 by (simp_all add: map_extended_def)
  have x: "overlap_output d st s e rk = append_descriptor o1 \<lparr>md_kind = rk, md_reserved0 = 0, md_physical_start = s,
         md_page_count = (e - s) div MEMORY_PAGE_SIZE, md_attributes = 0\<rparr> False"
    by (simp add: overlap_output_def g)
  from append_piece [OF M1'(1-3) s(2) al x] show ?thesis
  proof (elim disjE exE conjE)
    fix o2 M2
    assume "overlap_output d st s e rk = Ok o2" "map_holds o2 cap M2" "ordered_map M2" "\<forall>m \<in> set M2. d_end m \<le> unat e"
      "length M2 \<le> Suc (length M1)"
      "\<forall>n ka. describes M2 n ka \<longleftrightarrow> describes M1 n ka \<or> within n (unat s) (unat e) \<and> ka = (rk, 0)"
    then show ?thesis using M1
      by (intro disjI1 exI [of _ o2] exI [of _ M2]) (auto simp: map_extended_def)
  qed (use M1'(4) in simp)
qed (simp add: overlap_output_def)

lemma overlay_reservation_overlap:
  assumes "range_end (rv_physical_start r) (rv_page_count r) = Ok re"
    and "s = max (ov_cursor st) (rv_physical_start r)" "e = min de re" "s < e" "k < length (ov_covered st)"
    and "checked_add (ov_covered st ! k) ((e - s) div MEMORY_PAGE_SIZE) = Some v"
  shows "overlay_reservation d de st (k, r) = and_then (overlap_output d st s e (rv_kind r)) (\<lambda>o2.
    Ok \<lparr>ov_output = o2, ov_covered = (ov_covered st)[k := v], ov_cursor = e\<rparr>)"
proof -
  have "\<not> e \<le> s" using assms(4) by simp
  then show ?thesis
    using assms(1,5,6) unfolding overlay_reservation_def overlap_output_def gap_output_def
    by (simp add: Let_def and_then_assoc assms(2,3) [symmetric] del: checked_add_Some and_then_Ok)
qed

text \<open>The pages of an overlap, as a word and as a count.\<close>

lemma overlap_pages:
  assumes inv: "overlay_inv rs cap M0 C d k st M" and k: "k < length rs" "r_ok (rs ! k)"
    and C: "C k + shared (rs ! k) d \<le> r_end (rs ! k)"
    and s: "unat s = max (unat (ov_cursor st)) (r_start (rs ! k))" "unat e = min (d_end d) (r_end (rs ! k))"
    and lt: "s < e" and al: "unat s mod 4096 = 0" "unat e mod 4096 = 0"
  shows "\<exists>v. checked_add (ov_covered st ! k) ((e - s) div MEMORY_PAGE_SIZE) = Some v
    \<and> unat v * 4096 = unat (ov_covered st ! k) * 4096 + (unat e - unat s)"
proof -
  have "unat e - unat s = shared (rs ! k) d" using overlay_invD(10) [OF inv] k(1) s by (simp add: shared_def)
  moreover note piece(3) [OF lt al]
  moreover have "unat (ov_covered st ! k) * 4096 = C k" using overlay_invD(12) [OF inv] k(1) by simp
  ultimately have p: "unat ((e - s) div MEMORY_PAGE_SIZE) * 4096 = unat e - unat s"
    "unat (ov_covered st ! k) + unat ((e - s) div MEMORY_PAGE_SIZE) < 2 ^ 64"
    using C k(2) by (simp_all add: extent_ok_def)
  show ?thesis using checked_add_in_range [OF p(2)] p(1) by (auto simp: add_mult_distrib simp del: checked_add_Some)
qed

lemma overlay_step:
  assumes inv: "overlay_inv rs cap M0 C d k st M" and k: "k < length rs" "ordered_reservations rs"
    and d: "d_ok d" "unat de = d_end d" and cap: "length rs \<le> RESERVATION_CAPACITY"
    and C: "C k + shared (rs ! k) d \<le> r_end (rs ! k)"
  shows "(\<exists>st' M'. overlay_reservation d de st (k, rs ! k) = Ok st' \<and> overlay_inv rs cap M0 C d (Suc k) st' M')
    \<or> (overlay_reservation d de st (k, rs ! k) = Err OutputCapacity \<and> cap < length M0 + 2 * Suc k)"
proof -
  note I = overlay_invD [OF inv]
  have r: "r_ok (rs ! k)" using ordered_nth_ok k by blast
  obtain re where re: "range_end (rv_physical_start (rs ! k)) (rv_page_count (rs ! k)) = Ok re" "unat re = r_end (rs ! k)"
    using r range_end_in_range unfolding extent_ok_def by blast
  define s e where se: "s = max (ov_cursor st) (rv_physical_start (rs ! k))" "e = min de re"
  have us: "unat s = max (unat (ov_cursor st)) (r_start (rs ! k))" by (simp add: se max_def word_le_nat_alt)
  have ue: "unat e = min (d_end d) (r_end (rs ! k))" using d(2) re(2) by (simp add: se min_def word_le_nat_alt)
  show ?thesis
  proof (cases "e \<le> s")
    case True
    then have "min (d_end d) (r_end (rs ! k)) \<le> max (unat (ov_cursor st)) (r_start (rs ! k))"
      using us ue by (simp add: word_le_nat_alt)
    moreover have "overlay_reservation d de st (k, rs ! k) = Ok st"
      using True by (simp add: overlay_reservation_def re(1) Let_def se)
    ultimately show ?thesis using overlay_skip [OF inv k(1)] by blast
  next
    case False
    then have lt: "s < e" by simp
    have al: "unat s mod 4096 = 0" "unat e mod 4096 = 0"
      using us ue I(7) r extent_ok_aligned [OF r] extent_ok_aligned [OF d(1)]
      by (auto simp: max_def min_def extent_ok_def)
    obtain v where v: "checked_add (ov_covered st ! k) ((e - s) div MEMORY_PAGE_SIZE) = Some v"
      "unat v * 4096 = unat (ov_covered st ! k) * 4096 + (unat e - unat s)"
      using overlap_pages [OF inv k(1) r C us ue lt al] by blast
    have X: "overlay_reservation d de st (k, rs ! k) = and_then (overlap_output d st s e (rv_kind (rs ! k)))
        (\<lambda>o2. Ok \<lparr>ov_output = o2, ov_covered = (ov_covered st)[k := v], ov_cursor = e\<rparr>)"
      using overlay_reservation_overlap [OF re(1) se lt _ v(1)] k(1) cap I(11) by simp
    have c: "ov_cursor st \<le> s" "unat s < unat e" using lt by (simp_all add: se word_less_nat_alt)
    from overlap_appended [OF inv c(1) lt al, of "rv_kind (rs ! k)"] show ?thesis
    proof (elim disjE exE conjE)
      fix o2 M'
      assume o2: "overlap_output d st s e (rv_kind (rs ! k)) = Ok o2"
        and "map_extended cap M (\<lambda>n ka. within n (unat (ov_cursor st)) (unat s) \<and> ka = (md_kind d, md_attributes d)
        \<or> within n (unat s) (unat e) \<and> ka = (rv_kind (rs ! k), 0)) (unat e) 2 o2 M'"
      then show ?thesis
        using overlay_advance [OF inv k refl us ue c(2) al(2) _ _ _ _ _ v(2) cap, of o2 M'] X
        by (auto simp: map_extended_def)
    qed (use X I(3) in auto)
  qed
qed

section \<open>The overlay of the map\<close>

definition backed_part :: "reservation \<Rightarrow> memory_descriptor list \<Rightarrow> nat set" where
  "backed_part r ds = {n. within n (r_start r) (r_end r) \<and> (\<exists>d \<in> set ds. within n (d_start d) (d_end d))}"

lemma shared_sum:
  assumes "ordered_map ds"
  shows "sum_list (map (shared r) ds) = card (backed_part r ds)" "sum_list (map (shared r) ds) \<le> r_end r"
proof -
  show e: "sum_list (map (shared r) ds) = card (backed_part r ds)"
    using assms
  proof (induction ds)
    case (Cons d ds)
    have s: "backed_part r (d # ds) = {max (d_start d) (r_start r) ..< min (d_end d) (r_end r)} \<union> backed_part r ds"
      by (auto simp: backed_part_def)
    have "{max (d_start d) (r_start r) ..< min (d_end d) (r_end r)} \<inter> backed_part r ds = {}"
      using Cons.prems by (fastforce simp: backed_part_def ordered_map_def)
    moreover have "finite (backed_part r ds)" by (rule finite_subset [of _ "{..< r_end r}"]) (auto simp: backed_part_def)
    moreover have "ordered_map ds" using Cons.prems by (simp add: ordered_map_def)
    ultimately show ?case using Cons.IH by (simp add: s card_Un_disjoint shared_def)
  qed (simp add: backed_part_def)
  have "card (backed_part r ds) \<le> card {..< r_end r}" by (rule card_mono) (auto simp: backed_part_def)
  then show "sum_list (map (shared r) ds) \<le> r_end r" using e by simp
qed

lemma backed_iff:
  assumes "ordered_map ds" "r_ok r"
  shows "sum_list (map (shared r) ds) = unat (rv_page_count r) * 4096 \<longleftrightarrow>
    (\<forall>n. within n (r_start r) (r_end r) \<longrightarrow> (\<exists>d \<in> set ds. within n (d_start d) (d_end d)))"
proof -
  let ?R = "{r_start r ..< r_end r}"
  have sub: "backed_part r ds \<subseteq> ?R" by (auto simp: backed_part_def)
  have "card ?R = unat (rv_page_count r) * 4096" by (simp add: extent_end_def)
  then have "sum_list (map (shared r) ds) = unat (rv_page_count r) * 4096 \<longleftrightarrow> card (backed_part r ds) = card ?R"
    using shared_sum(1) [OF assms(1), of r] by simp
  also have "\<dots> \<longleftrightarrow> backed_part r ds = ?R" using card_subset_eq [OF _ sub] by auto
  also have "\<dots> \<longleftrightarrow> ?R \<subseteq> backed_part r ds" using sub by blast
  finally show ?thesis by (simp add: backed_part_def subset_iff)
qed

definition base_inv ::
    "reservation list \<Rightarrow> nat \<Rightarrow> memory_descriptor list \<Rightarrow> (memory_descriptor list \<times> nat) \<times> u64 list
     \<Rightarrow> memory_descriptor list \<Rightarrow> bool" where
  "base_inv rs cap ds st M \<longleftrightarrow>
     map_holds (fst st) cap M \<and> ordered_map M \<and> length M \<le> length ds * (2 * length rs + 1)
     \<and> (\<forall>m \<in> set M. \<exists>d \<in> set ds. d_end m \<le> d_end d)
     \<and> (\<forall>n ka. describes M n ka \<longleftrightarrow> (\<exists>d \<in> set ds. within n (d_start d) (d_end d) \<and> overlaid rs d n ka))
     \<and> length (snd st) = RESERVATION_CAPACITY
     \<and> (\<forall>j < length rs. unat (snd st ! j) * 4096 = sum_list (map (shared (rs ! j)) ds))"

lemma base_invD:
  assumes "base_inv rs cap ds (o1, cov) M"
  shows "map_holds o1 cap M" "ordered_map M" "length M \<le> length ds * (2 * length rs + 1)"
    and "\<forall>m \<in> set M. \<exists>d \<in> set ds. d_end m \<le> d_end d"
    and "\<forall>n ka. describes M n ka \<longleftrightarrow> (\<exists>d \<in> set ds. within n (d_start d) (d_end d) \<and> overlaid rs d n ka)"
    and "length cov = RESERVATION_CAPACITY"
    and "\<forall>j < length rs. unat (cov ! j) * 4096 = sum_list (map (shared (rs ! j)) ds)"
  by (insert assms [unfolded base_inv_def fst_conv snd_conv], (elim conjE, assumption)+)

lemma overlay_inner:
  assumes inv: "overlay_inv rs cap M0 C d 0 st M0" and rs: "ordered_reservations rs" "length rs \<le> RESERVATION_CAPACITY"
    and d: "d_ok d" "unat de = d_end d" and C: "\<forall>j < length rs. C j + shared (rs ! j) d \<le> r_end (rs ! j)"
    and k: "k \<le> length rs"
  shows "(\<exists>st' M'. try_fold (overlay_reservation d de) st (enumerate 0 (take k rs)) = Ok st'
      \<and> overlay_inv rs cap M0 C d k st' M')
    \<or> (try_fold (overlay_reservation d de) st (enumerate 0 (take k rs)) = Err OutputCapacity
      \<and> cap < length M0 + 2 * length rs)"
  using k
proof (induction k)
  case (Suc k)
  have sp: "enumerate 0 (take (Suc k) rs) = enumerate 0 (take k rs) @ [(k, rs ! k)]"
    using Suc.prems by (simp add: take_Suc_conv_app_nth enumerate_append_eq)
  have "k \<le> length rs" using Suc.prems by simp
  from Suc.IH [OF this] show ?case
  proof (elim disjE exE conjE)
    fix st1 M1
    assume s: "try_fold (overlay_reservation d de) st (enumerate 0 (take k rs)) = Ok st1" "overlay_inv rs cap M0 C d k st1 M1"
    have k: "k < length rs" using Suc.prems by simp
    then show ?thesis
      using overlay_step [OF s(2) k rs(1) d rs(2)] C Suc.prems by (auto simp: sp try_fold_append s(1))
  qed (simp add: sp try_fold_append)
qed (use inv in auto)

text \<open>The rest of the descriptor behind the last reservation is the gap up to its end.\<close>

lemma overlay_descriptor_eq:
  assumes "md_ok d" "rl_holds rl rs" "unat de = d_end d"
  shows "overlay_descriptor rl (o1, cov) d =
    and_then (try_fold (overlay_reservation d de)
        \<lparr>ov_output = o1, ov_covered = cov, ov_cursor = md_physical_start d\<rparr> (enumerate 0 rs)) (\<lambda>st.
    and_then (gap_output d st de) (\<lambda>o2. Ok (o2, ov_covered st)))"
proof -
  obtain v where "md_validate d = Ok v" using assms(1) md_validate_outcome by blast
  moreover have "range_end (md_physical_start d) (md_page_count d) = Ok de" using assms(3) by (simp add: range_end_Ok)
  ultimately show ?thesis
    by (simp add: overlay_descriptor_def rl_live_holds [OF assms(2)] gap_output_def del: and_then_Ok)
qed

lemma md_ok_d_ok: "md_ok d \<longleftrightarrow> md_reserved0 d = 0 \<and> d_ok d"
  by (simp add: md_ok_def extent_ok_def extent_end_def)

lemma overlay_start:
  assumes "base_inv rs cap ds (o1, cov) M" "ordered_map (ds @ [d])"
  shows "overlay_inv rs cap M (\<lambda>j. sum_list (map (shared (rs ! j)) ds)) d 0
    \<lparr>ov_output = o1, ov_covered = cov, ov_cursor = md_physical_start d\<rparr> M"
proof -
  note B = base_invD [OF assms(1)]
  have before: "\<forall>m \<in> set M. d_end m \<le> d_start d"
    using B(4) assms(2) by (fastforce simp: ordered_map_def sorted_wrt_append)
  have "d_start d mod 4096 = 0" "d_start d \<le> d_end d"
    using assms(2) by (simp_all add: ordered_map_def extent_ok_def extent_end_def)
  then show ?thesis
    unfolding overlay_inv_def overlay_state.select_convs
    using B(7) by (intro conjI allI B(1,2,6) before) auto
qed

lemma overlay_finish:
  assumes inv: "overlay_inv rs cap M C d (length rs) st M1" and base: "base_inv rs cap ds (o1, cov) M"
    and C: "C = (\<lambda>j. sum_list (map (shared (rs ! j)) ds))" and d: "d_ok d" "unat de = d_end d"
    and ext: "map_extended cap M1 (\<lambda>n ka. within n (unat (ov_cursor st)) (unat de) \<and> ka = (md_kind d, md_attributes d))
      (unat de) 1 o2 M2"
  shows "base_inv rs cap (ds @ [d]) (o2, ov_covered st) M2"
proof -
  note I = overlay_invD [OF inv] and B = base_invD [OF base]
  have E: "map_holds o2 cap M2" "ordered_map M2" "\<forall>m \<in> set M2. d_end m \<le> d_end d" "length M2 \<le> Suc (length M1)"
    and D: "\<forall>n ka. describes M2 n ka \<longleftrightarrow>
      describes M1 n ka \<or> within n (unat (ov_cursor st)) (d_end d) \<and> ka = (md_kind d, md_attributes d)"
    using ext by (simp_all add: map_extended_def d(2))
  have X: "describes M2 n ka \<longleftrightarrow> describes M n ka \<or> within n (d_start d) (d_end d) \<and> overlaid rs d n ka" for n ka
  proof -
    have "overlaid rs d n ka \<longleftrightarrow> ka = (md_kind d, md_attributes d)" if "within n (unat (ov_cursor st)) (d_end d)"
      using tail_unreserved [OF I(9) that] by (rule overlaid_free)
    moreover have "within n (d_start d) (d_end d) \<longleftrightarrow>
        within n (d_start d) (unat (ov_cursor st)) \<or> within n (unat (ov_cursor st)) (d_end d)"
      using I(5,6) by auto
    ultimately show ?thesis using D I(8) [of n ka] by blast
  qed
  have len: "length M2 \<le> length (ds @ [d]) * (2 * length rs + 1)" using E(4) I(3) B(3) by simp
  have ends: "\<forall>m \<in> set M2. \<exists>d' \<in> set (ds @ [d]). d_end m \<le> d_end d'" using E(3) by simp
  have desc: "describes M2 n ka \<longleftrightarrow> (\<exists>d' \<in> set (ds @ [d]). within n (d_start d') (d_end d') \<and> overlaid rs d' n ka)" for n ka
  proof -
    have "describes M n ka \<longleftrightarrow> (\<exists>d \<in> set ds. within n (d_start d) (d_end d) \<and> overlaid rs d n ka)" using B(5) by blast
    then show ?thesis unfolding X set_append by auto
  qed
  have cov: "\<forall>j < length rs. unat (ov_covered st ! j) * 4096 = sum_list (map (shared (rs ! j)) (ds @ [d]))"
    using I(12) by (simp add: C)
  show ?thesis
    unfolding base_inv_def fst_conv snd_conv by (intro conjI allI E(1,2) len ends desc I(11) cov)
qed

text \<open>The whole step of the outer loop.\<close>

lemma overlay_descriptor_step:
  assumes rs: "ordered_reservations rs" "length rs \<le> RESERVATION_CAPACITY" "rl_holds rl rs"
    and b: "base_inv rs cap ds (o1, cov) M" and ds: "ordered_map (ds @ [d])" "md_ok d"
  shows "(\<exists>st M'. overlay_descriptor rl (o1, cov) d = Ok st \<and> base_inv rs cap (ds @ [d]) st M')
    \<or> (overlay_descriptor rl (o1, cov) d = Err OutputCapacity \<and> cap < length (ds @ [d]) * (2 * length rs + 1))"
proof -
  let ?C = "\<lambda>j. sum_list (map (shared (rs ! j)) ds)"
  let ?st0 = "\<lparr>ov_output = o1, ov_covered = cov, ov_cursor = md_physical_start d\<rparr>"
  have d: "d_ok d" using ds(1) by (simp add: ordered_map_def)
  obtain de :: u64 where de: "unat de = d_end d" using d range_end_in_range unfolding extent_ok_def by blast
  have C: "\<forall>j < length rs. ?C j + shared (rs ! j) d \<le> r_end (rs ! j)"
    using shared_sum(2) [OF ds(1)] by simp
  note E = overlay_descriptor_eq [OF ds(2) rs(3) de, of o1 cov]
  note L = base_invD(3) [OF b]
  have "(\<exists>st' M'. try_fold (overlay_reservation d de) ?st0 (enumerate 0 rs) = Ok st'
      \<and> overlay_inv rs cap M ?C d (length rs) st' M')
    \<or> (try_fold (overlay_reservation d de) ?st0 (enumerate 0 rs) = Err OutputCapacity
      \<and> cap < length M + 2 * length rs)"
    using overlay_inner [OF overlay_start [OF b ds(1)] rs(1,2) d de C order_refl] by simp
  then show ?thesis
  proof (elim disjE exE conjE)
    fix st1 M1
    assume s1: "try_fold (overlay_reservation d de) ?st0 (enumerate 0 rs) = Ok st1"
      and i1: "overlay_inv rs cap M ?C d (length rs) st1 M1"
    note I = overlay_invD [OF i1]
    have c: "ov_cursor st1 \<le> de" "unat de mod 4096 = 0"
      using I(6) de extent_ok_aligned [OF d] by (simp_all add: word_le_nat_alt)
    from gap_appended [OF i1 c] show ?thesis
    proof (elim disjE exE conjE)
      fix o2 M2
      assume g: "gap_output d st1 de = Ok o2" and x: "map_extended cap M1
        (\<lambda>n ka. within n (unat (ov_cursor st1)) (unat de) \<and> ka = (md_kind d, md_attributes d)) (unat de) 1 o2 M2"
      have "overlay_descriptor rl (o1, cov) d = Ok (o2, ov_covered st1)" by (simp add: E s1 g)
      then show ?thesis using overlay_finish [OF i1 b refl d de x] by blast
    next
      assume "gap_output d st1 de = Err OutputCapacity" "length M1 = cap"
      then show ?thesis using I(3) L by (simp add: E s1)
    qed
  next
    assume "try_fold (overlay_reservation d de) ?st0 (enumerate 0 rs) = Err OutputCapacity"
      "cap < length M + 2 * length rs"
    then show ?thesis using L by (simp add: E)
  qed
qed

lemma overlay_base:
  assumes rs: "ordered_reservations rs" "length rs \<le> RESERVATION_CAPACITY" "rl_holds rl rs"
    and "ordered_map ds" "list_all md_ok ds"
  shows "(\<exists>st M. try_fold (overlay_descriptor rl) ((out, 0), replicate RESERVATION_CAPACITY 0) ds = Ok st
      \<and> base_inv rs (length out) ds st M)
    \<or> (try_fold (overlay_descriptor rl) ((out, 0), replicate RESERVATION_CAPACITY 0) ds = Err OutputCapacity
      \<and> length out < length ds * (2 * length rs + 1))"
  using assms(4,5)
proof (induction ds rule: rev_induct)
  case Nil
  have "base_inv rs (length out) [] ((out, 0), replicate RESERVATION_CAPACITY 0) []"
    using rs(2) by (simp add: base_inv_def map_holds_def ordered_map_def describes_def)
  then show ?case by auto
next
  case (snoc d ds)
  have ds: "md_ok d" "ordered_map ds" "list_all md_ok ds"
    using snoc.prems by (simp_all add: ordered_map_def sorted_wrt_append)
  from snoc.IH [OF ds(2,3)] show ?case
  proof (elim disjE exE conjE)
    fix st M
    assume st: "try_fold (overlay_descriptor rl) ((out, 0), replicate RESERVATION_CAPACITY 0) ds = Ok st"
      and b: "base_inv rs (length out) ds st M"
    obtain o1 cov where oc: "st = (o1, cov)" by (cases st)
    show ?thesis
      using overlay_descriptor_step [OF rs b [unfolded oc] snoc.prems(1) ds(1)]
      by (auto simp: try_fold_append st oc)
  qed (simp add: try_fold_append)
qed

section \<open>Properties of the overlay\<close>

definition backed :: "memory_descriptor list \<Rightarrow> reservation list \<Rightarrow> bool" where
  "backed ds rs \<longleftrightarrow> (\<forall>r \<in> set rs. rv_source r \<noteq> Framebuffer \<longrightarrow>
     (\<forall>n. within n (r_start r) (r_end r) \<longrightarrow> (\<exists>d \<in> set ds. within n (d_start d) (d_end d))))"

text \<open>The map \<open>ds\<close> with the reservations \<open>rs\<close> laid over it, in a buffer of \<open>c\<close> entries.\<close>

definition overlay_map ::
    "memory_descriptor list \<Rightarrow> reservation list \<Rightarrow> nat \<Rightarrow> memory_descriptor list \<Rightarrow> nat \<Rightarrow> bool" where
  "overlay_map ds rs c out n \<longleftrightarrow> length out = c \<and> n \<le> c \<and> ordered_map (take n out)
     \<and> (\<forall>a ka. describes (take n out) a ka \<longleftrightarrow> (\<exists>d \<in> set ds. within a (d_start d) (d_end d) \<and> overlaid rs d a ka))
     \<and> drop n out = replicate (c - n) empty_descriptor"

lemma check_covered_Ok:
  assumes "base_inv rs cap ds (o1, cov) M" "ordered_map ds" "ordered_reservations rs" "length rs \<le> RESERVATION_CAPACITY"
  shows "try_fold (\<lambda>_. check_covered cov) () (enumerate 0 rs) = Ok u \<longleftrightarrow> backed ds rs"
    and "try_fold (\<lambda>_. check_covered cov) () (enumerate 0 rs) \<noteq> Panic"
proof -
  note B = base_invD [OF assms(1)]
  have en: "set (enumerate 0 rs) = (\<lambda>j. (j, rs ! j)) ` {..< length rs}"
    by (auto simp: in_set_enumerate_eq image_iff)
  have cv: "check_covered cov (j, rs ! j) = (if rv_source (rs ! j) = Framebuffer then Ok ()
      else if cov ! j \<noteq> rv_page_count (rs ! j) then Err ReservationOutsideMap else Ok ())" if "j < length rs" for j
    using that B(6) assms(4) by (simp add: check_covered_def)
  have full: "cov ! j = rv_page_count (rs ! j) \<longleftrightarrow> (\<forall>n. within n (r_start (rs ! j)) (r_end (rs ! j)) \<longrightarrow>
      (\<exists>d \<in> set ds. within n (d_start d) (d_end d)))" if "j < length rs" for j
  proof -
    have "cov ! j = rv_page_count (rs ! j) \<longleftrightarrow> unat (cov ! j) * 4096 = unat (rv_page_count (rs ! j)) * 4096"
      by (simp add: word_eq_nat)
    then show ?thesis using backed_iff [OF assms(2) ordered_nth_ok [OF assms(3) that]] B(7) that by simp
  qed
  have "(\<forall>j < length rs. check_covered cov (j, rs ! j) = Ok ()) \<longleftrightarrow>
      (\<forall>j < length rs. rv_source (rs ! j) \<noteq> Framebuffer \<longrightarrow> cov ! j = rv_page_count (rs ! j))"
    using cv by (metis result.distinct(1))
  also have "\<dots> \<longleftrightarrow> backed ds rs"
    unfolding backed_def all_set_conv_all_nth [where xs = rs] using full by blast
  finally show "try_fold (\<lambda>_. check_covered cov) () (enumerate 0 rs) = Ok u \<longleftrightarrow> backed ds rs"
    unfolding try_fold_unit_Ok en by auto
  show "try_fold (\<lambda>_. check_covered cov) () (enumerate 0 rs) \<noteq> Panic"
    by (rule try_fold_not_Panic) (auto simp: en cv split: if_splits)
qed

lemma unit_result_Err: "r \<noteq> Panic \<Longrightarrow> r \<noteq> Ok () \<Longrightarrow> \<exists>e. r = Err e"
  by (cases r) auto

lemma apply_ordered:
  assumes rs: "ordered_reservations rs" "length rs \<le> RESERVATION_CAPACITY" "rl_holds rl rs"
    and ds: "ordered_map ds" "list_all md_ok ds"
  shows "(\<exists>out' n. apply_reservations ds rl out = Ok (out', n) \<and> backed ds rs \<and> overlay_map ds rs (length out) out' n)
    \<or> (apply_reservations ds rl out = Err ReservationOutsideMap \<and> \<not> backed ds rs)
    \<or> (apply_reservations ds rl out = Err OutputCapacity \<and> length out < length ds * (2 * length rs + 1))"
proof -
  have v: "validate_non_overlapping ds = Ok ()"
    using ds(1) validate_non_overlapping_Ok [of ds] by (simp add: ordered_map_def)
  from overlay_base [OF rs ds, of out] show ?thesis
  proof (elim disjE exE conjE)
    fix st M
    assume f: "try_fold (overlay_descriptor rl) ((out, 0), replicate RESERVATION_CAPACITY 0) ds = Ok st"
      and b: "base_inv rs (length out) ds st M"
    obtain out1 n cov where st: "st = ((out1, n), cov)" by (cases st) auto
    note B = base_invD [OF b [unfolded st]]
    have o: "length out1 = length out" "n = length M" "n \<le> length out1" "take n out1 = M"
      using B(1) by (simp_all add: map_holds_def)
    let ?out = "take n out1 @ replicate (length out - n) empty_descriptor"
    have vM: "validate_non_overlapping M = Ok ()"
      using B(2) validate_non_overlapping_Ok [of M] by (simp add: ordered_map_def)
    have A: "apply_reservations ds rl out =
        and_then (try_fold (\<lambda>_. check_covered cov) () (enumerate 0 rs)) (\<lambda>_. Ok (?out, n))"
      using v f st o vM by (simp add: apply_reservations_def Let_def rl_live_holds [OF rs(3)] del: and_then_Ok)
    note K = check_covered_Ok [OF b [unfolded st] ds(1) rs(1,2)]
    show ?thesis
    proof (cases "backed ds rs")
      case True
      have "overlay_map ds rs (length out) ?out n" using o B(2,5) by (simp add: overlay_map_def)
      moreover have "try_fold (\<lambda>_. check_covered cov) () (enumerate 0 rs) = Ok ()" using True K(1) by blast
      then have "apply_reservations ds rl out = Ok (?out, n)" unfolding A by simp
      ultimately show ?thesis using True by blast
    next
      case False
      then have "try_fold (\<lambda>_. check_covered cov) () (enumerate 0 rs) \<noteq> Ok ()" using K(1) by blast
      from unit_result_Err [OF K(2) this]
      obtain e where e: "try_fold (\<lambda>_. check_covered cov) () (enumerate 0 rs) = Err e" by blast
      obtain x where "check_covered cov x = Err e" using try_fold_unit_Err [OF e] by blast
      then have "e = ReservationOutsideMap"
        by (auto simp: check_covered_def arr_get_def split: prod.splits if_splits)
      then have "apply_reservations ds rl out = Err ReservationOutsideMap" unfolding A e by simp
      then show ?thesis using False by blast
    qed
  next
    assume "try_fold (overlay_descriptor rl) ((out, 0), replicate RESERVATION_CAPACITY 0) ds = Err OutputCapacity"
      "length out < length ds * (2 * length rs + 1)"
    then show ?thesis using v by (simp add: apply_reservations_def)
  qed
qed

text \<open>A map that is not valid is rejected: the loop stops at its first invalid descriptor.\<close>

lemma windows2_prefix: "\<exists>zs. windows2 (xs @ ys) = windows2 xs @ zs"
proof (induction xs rule: induct_list012)
  case (2 x)
  then show ?case by simp
qed auto

lemma apply_invalid:
  assumes rs: "ordered_reservations rs" "length rs \<le> RESERVATION_CAPACITY" "rl_holds rl rs"
    and ds: "\<not> (ordered_map ds \<and> list_all md_ok ds)"
  shows "\<exists>e. apply_reservations ds rl out = Err e"
proof (cases "validate_non_overlapping ds")
  case v: (Ok u)
  have "\<not> list_all md_ok ds"
    using ds v validate_non_overlapping_Ok [of ds] by (auto simp: md_ok_d_ok list_all_iff)
  then obtain pre d post where s: "ds = pre @ d # post" "list_all md_ok pre" "\<not> md_ok d"
    using split_list_first_prop [of ds "\<lambda>d. \<not> md_ok d"] by (auto simp: list_all_iff)
  obtain zs where "windows2 ds = windows2 pre @ zs" using windows2_prefix s(1) by metis
  then have "validate_non_overlapping pre = Ok ()"
    using v by (auto simp: validate_non_overlapping_def try_fold_append)
  then have "ordered_map pre"
    using s(2) validate_non_overlapping_Ok [of pre] by (simp add: md_ok_d_ok list_all_iff)
  moreover have "md_validate d \<noteq> Panic" by (simp add: md_validate_def)
  then obtain e where "md_validate d = Err e" using s(3) md_validate_outcome [of d] by (cases "md_validate d") auto
  then have "overlay_descriptor rl st d = Err MapRangeOverflow" for st by (cases st) (simp add: overlay_descriptor_def)
  ultimately show ?thesis
    using overlay_base [OF rs _ s(2), of out] v by (auto simp: apply_reservations_def s(1) try_fold_append)
qed (simp_all add: apply_reservations_def)

text \<open>Valid reservations that fit are accepted, and the list is finished when they are disjoint.\<close>

lemma rl_pushes_Ok:
  assumes "rl_holds rl rs" "list_all r_ok ss" "length rs + length ss \<le> RESERVATION_CAPACITY"
  shows "\<exists>rl'. try_fold rl_push rl ss = Ok rl'"
  using assms
proof (induction ss arbitrary: rl rs)
  case (Cons s ss)
  have "rl_push rl s = Ok (rl\<lparr>rl_items := (rl_items rl)[length rs := s], rl_len := length rs + 1\<rparr>)"
    using Cons.prems validate_range_Ok [of "rv_physical_start s" "rv_page_count s" "()"]
    by (simp add: rl_push_def rl_holds_def del: and_then_Ok)
  then show ?case using Cons rl_push_holds(1) [OF Cons.prems(1)] by fastforce
qed simp

lemma rl_finish_Ok:
  assumes "rl_holds rl rs" "ordered_reservations (sort_key rv_physical_start rs)"
  shows "\<exists>rl'. rl_finish rl = Ok rl'"
proof -
  let ?s = "sort_key rv_physical_start rs"
  have i: "insertion_sort_loop rv_physical_start (length rs) (rl_items rl)
      = (Ok (?s @ drop (length rs) (rl_items rl)) :: (_, reservation_list \<times> map_build_error) result)"
    using insertion_sort_loop_sorts [of "length rs" "rl_items rl" rv_physical_start] assms(1)
    by (simp add: rl_holds_def)
  have "list_all r_ok ?s" "adjacent (\<lambda>r s. r_end r \<le> r_start s) ?s"
    using assms(2) sorted_wrt_adjacent by (auto simp: ordered_reservations_def)
  then show ?thesis using assms(1) finish_windows [of ?s] by (simp add: rl_finish_def rl_holds_def Let_def i)
qed

lemma overlaid_set: "set rs = set ss \<Longrightarrow> overlaid rs = overlaid ss"
  by (simp add: fun_eq_iff overlaid_def reserves_def)

text \<open>
  C3. Let reservations be collected with \<^verbatim>\<open>push\<close> and sorted with \<^verbatim>\<open>finish\<close>. Overlaying them on a
  memory map never panics. When it succeeds, the map was ordered and valid, every reservation other
  than the framebuffer lies entirely inside it, and the result is ordered and disjoint and describes
  the same addresses: a reserved address has the kind of its reservation and no attributes, every
  other address keeps its kind and attributes, and the rest of the buffer is empty. It does succeed
  for every such map when the buffer has room for the pieces, at most one per descriptor and two per
  descriptor and reservation.
\<close>
theorem reservations_overlaid:
  assumes "try_fold rl_push ReservationList_new rs = Ok list" and "rl_finish list = Ok rl"
  shows "apply_reservations ds rl out \<noteq> Panic
    \<and> (apply_reservations ds rl out = Ok (out', n) \<longrightarrow>
        ordered_map ds \<and> list_all md_ok ds \<and> backed ds rs \<and> overlay_map ds rs (length out) out' n)
    \<and> (ordered_map ds \<and> list_all md_ok ds \<and> backed ds rs \<and> length ds * (2 * length rs + 1) \<le> length out \<longrightarrow>
        (\<exists>out' n. apply_reservations ds rl out = Ok (out', n)))"
proof -
  let ?s = "sort_key rv_physical_start rs"
  have "rl_holds list rs" "list_all r_ok rs" using rl_pushes_hold [OF rl_holds_new assms(1)] by simp_all
  then have rl: "ordered_reservations ?s" "rl_holds rl ?s" using rl_finish_holds assms(2) by blast+
  then have c: "length ?s \<le> RESERVATION_CAPACITY" by (simp add: rl_holds_def)
  have eq: "backed ds ?s = backed ds rs" "overlay_map ds ?s = overlay_map ds rs"
    using overlaid_set [of ?s rs] by (simp_all add: backed_def overlay_map_def fun_eq_iff)
  show ?thesis
  proof (cases "ordered_map ds \<and> list_all md_ok ds")
    case True
    then show ?thesis using apply_ordered [OF rl(1) c rl(2), of ds out] by (auto simp: eq)
  next
    case False
    then show ?thesis using apply_invalid [OF rl(1) c rl(2) False, of out] by auto
  qed
qed

definition sample_base :: "memory_descriptor list" where
  "sample_base = [\<lparr>md_kind = MEMORY_KIND_USABLE, md_reserved0 = 0, md_physical_start = 0x1000,
     md_page_count = 16, md_attributes = 15\<rparr>]"

definition sample_reservations :: "reservation list" where
  "sample_reservations =
     [\<lparr>rv_physical_start = 0x80000000, rv_page_count = 4, rv_kind = MEMORY_KIND_FRAMEBUFFER, rv_source = Framebuffer\<rparr>,
      \<lparr>rv_physical_start = 0x3000, rv_page_count = 2, rv_kind = MEMORY_KIND_KERNEL_IMAGE, rv_source = KernelImage\<rparr>]"

theorem reservations_overlaid_witness:
  "\<exists>list rl out n. try_fold rl_push ReservationList_new sample_reservations = Ok list \<and> rl_finish list = Ok rl
     \<and> apply_reservations sample_base rl (replicate 8 empty_descriptor) = Ok (out, n)
     \<and> overlay_map sample_base sample_reservations 8 out n"
proof -
  have ok: "list_all r_ok sample_reservations"
    by (simp add: sample_reservations_def extent_ok_def extent_end_def)
  have "length [] + length sample_reservations \<le> RESERVATION_CAPACITY"
    by (simp add: sample_reservations_def RESERVATION_CAPACITY_def)
  then obtain list where l: "try_fold rl_push ReservationList_new sample_reservations = Ok list"
    using rl_pushes_Ok [OF rl_holds_new ok] by auto
  have "ordered_reservations (sort_key rv_physical_start sample_reservations)"
    by (simp add: sample_reservations_def ordered_reservations_def extent_ok_def extent_end_def)
  then obtain rl where rl: "rl_finish list = Ok rl"
    using rl_finish_Ok rl_pushes_hold [OF rl_holds_new l] by fastforce
  have "ordered_map sample_base" "list_all md_ok sample_base" "backed sample_base sample_reservations"
    "length sample_base * (2 * length sample_reservations + 1) \<le> length (replicate 8 empty_descriptor)"
    by (simp_all add: sample_base_def sample_reservations_def ordered_map_def md_ok_def backed_def
        extent_ok_def extent_end_def)
  then obtain out n where "apply_reservations sample_base rl (replicate 8 empty_descriptor) = Ok (out, n)"
    using reservations_overlaid [OF l rl, of sample_base "replicate 8 empty_descriptor"] by blast
  moreover from this have "overlay_map sample_base sample_reservations 8 out n"
    using reservations_overlaid [OF l rl, of sample_base "replicate 8 empty_descriptor" out n] by simp
  ultimately show ?thesis using l rl by blast
qed

end
