(* ===== verification/Spec2Isabelle.thy ===== *)
theory Spec2Isabelle
  imports Memory_Layout Mapping_Plan Page_Table Page_Table_Invariant Page_Table_Refinement
    Plan_Encoding Resource_Owner Frame_Owner Cpu_Policy Boot_Protocol Boot_Extensions Kernel_Validation
    Kernel_Image Kernel_Image_Facts Page_Owner Load_Plan Load_Targets Memory_Map
    Memory_Map_Facts Reservation_Overlay
begin

text \<open>
  Verification of the boot path of UnnamedOS. The program is a UEFI loader and a small kernel: the
  loader reads an ELF image, checks it, places its segments in a fixed physical window, converts the
  firmware memory map, plans page tables and hands the machine to the kernel, which checks what it
  was given. The crates share plain data and validation code; the parts that touch firmware or
  hardware go through traits.

  \<^bold>\<open>Conventions.\<close> Every fallible function returns a \<open>result\<close>: \<open>Ok\<close>, \<open>Err\<close> with the error of the
  source, or \<open>Panic\<close> for an index out of range, an \<^verbatim>\<open>expect\<close> or an arithmetic overflow. Machine
  integers are words of their width, \<^verbatim>\<open>usize\<close> is a natural number below \<open>2 ^ 64\<close>, structs are records
  and enums datatypes; a constructor is prefixed where its name is already taken. A method on
  \<^verbatim>\<open>&mut self\<close> returns the new state, on both outcomes when a failed call can leave a change behind
  that the caller still uses; the output slices of \<^verbatim>\<open>normalize_memory_map\<close> and \<^verbatim>\<open>apply_reservations\<close> are
  returned on success only.
  Loops over a slice or a range are \<open>try_fold\<close>, other loops are structural recursion or \<open>function\<close> with a
  termination proof, so no fuel is used. Accessors that return a field are record selectors. Traits
  (\<^verbatim>\<open>PageBackend\<close>, \<^verbatim>\<open>SegmentBackend\<close>, \<^verbatim>\<open>FrameBackend\<close>, \<^verbatim>\<open>AddressProbe\<close>) are records of arbitrary
  functions, so what is proved about them holds for every implementation.

  \<^bold>\<open>Theories.\<close>
  \<^item> \<open>Rust_Prelude\<close>: words, outcomes, arrays, slices, the insertion sort the crates repeat, byte
    encoding and list lemmas.
  \<^item> \<open>Memory_Layout\<close>, \<open>Mapping_Plan\<close> (\<^verbatim>\<open>memory-layout/src/lib.rs\<close>): addresses, ranges, alignment,
    regions, and the mapping plan with its policy, insertion, translation and two validations. The
    array insertion refines sorted insertion; no physical page is both writable and executable, and
    every mapping obeys its region.
  \<^item> \<open>Page_Table\<close>, \<open>Page_Table_Invariant\<close>, \<open>Page_Table_Refinement\<close>, \<open>Plan_Encoding\<close>
    (\<^verbatim>\<open>memory-layout/src/page_table.rs\<close>): the construction plan. The walk over the built tables agrees
    with the translation of the mapping plan; when building succeeds and how it fails; the removal of
    transition mappings; every outcome of encoding the hardware entries; the abstract encoding.
  \<^item> \<open>Resource_Owner\<close>, \<open>Frame_Owner\<close> (\<^verbatim>\<open>memory-layout/src/frame_owner.rs\<close>), \<open>Page_Owner\<close>: the contract
    of an owner that releases what it holds exactly once under retries and drop, as a locale, and its
    interpretations on the frame owner and on the owner of the target pages.
  \<^item> \<open>Cpu_Policy\<close> (\<^verbatim>\<open>memory-layout/src/cpu.rs\<close>, \<^verbatim>\<open>bootloader/src/cpu_probe.rs\<close>): snapshot validation,
    CR3 decoding, activation readiness, and the probe over an arbitrary machine.
  \<^item> \<open>Boot_Protocol\<close>, \<open>Boot_Extensions\<close> (\<^verbatim>\<open>boot-protocol/src\<close>): the boot-information block, the
    extension parser and the page-table ownership record.
  \<^item> \<open>Kernel_Validation\<close> (\<^verbatim>\<open>kernel/src/lib.rs\<close>): the checks of the kernel on entry.
  \<^item> \<open>Kernel_Image\<close>, \<open>Kernel_Image_Facts\<close> (\<^verbatim>\<open>kernel-image/src/lib.rs\<close>): ELF parsing and both profiles.
  \<^item> \<open>Load_Plan\<close>, \<open>Load_Targets\<close> (\<^verbatim>\<open>bootloader/src/load_plan.rs\<close>): the placement of segments, the
    contents of the targets, staged preparation, ownership and the loaded kernel. A bootstrap image
    that validates gets a plan when its file buffer shares no page with a load segment. The stage
    callback is a parameter like the firmware; instrumented versions of both write one log, and the
    log shows that every segment is allocated, cleared, copied and verified in this order.
  \<^item> \<open>Memory_Map\<close>, \<open>Memory_Map_Facts\<close>, \<open>Reservation_Overlay\<close> (\<^verbatim>\<open>bootloader/src/boot_info.rs\<close> up to
    \<^verbatim>\<open>range_end\<close>): memory kinds, normalisation and the overlay of reservations, with their meaning for
    every physical address: which kind and attributes the resulting map gives it.

  \<^bold>\<open>Bounds.\<close> Capacities are those of the source (for example 64 reservations and 128 load items); array
  lengths of caller-provided buffers are arbitrary. The overlay is shown to succeed when the buffer has
  one entry per descriptor and two per descriptor and reservation, which is enough and not claimed to
  be least.

  \<^bold>\<open>Not modelled.\<close> Of \<^verbatim>\<open>boot_info.rs\<close>, the framebuffer conversion, \<^verbatim>\<open>build_boot_info\<close> and
  \<^verbatim>\<open>PreparedBootInfo\<close>. Of the loader, \<^verbatim>\<open>page_tables.rs\<close> (writing and verifying tables in frames),
  \<^verbatim>\<open>exit_state.rs\<close>, \<^verbatim>\<open>higher_half_plan.rs\<close>, \<^verbatim>\<open>bootstrap_stack.rs\<close> and the read and lease policy of
  \<^verbatim>\<open>lib.rs\<close>: these are ordinary code that this development does not reach yet. The UEFI drivers
  (\<^verbatim>\<open>kernel_loader.rs\<close>, \<^verbatim>\<open>segment_loader.rs\<close>, \<^verbatim>\<open>boot_info_loader.rs\<close>, \<^verbatim>\<open>page_table_loader.rs\<close>), the entry
  points, the inline assembly, the serial port and the debug exit are firmware and hardware access.
  The \<^verbatim>\<open>xtask\<close> tool runs on the build host and is not part of the boot path.
\<close>

end
